(* ===== verification/Prelude.thy ===== *)
theory Prelude
  imports Main "HOL-Library.Word" "HOL-Library.Monad_Syntax"
begin

text \<open>
  Shared vocabulary of the development: the machine integers of the Rust sources, the
  convention for panics, and generic facts on words seen as lists of bits.

  A Rust operation that may panic returns an \<^typ>\<open>'a option\<close>: \<^term>\<open>None\<close> is the panic
  (an explicit \<open>panic!\<close>, a failed \<open>expect\<close>, an index out of range, or an
  arithmetic overflow, which the debug profile turns into a panic).  A Rust
  \<open>Option\<close> that is a normal result sits below that layer.  Theorems that exclude
  \<^term>\<open>None\<close> therefore hold for the debug and the release profile alike.  \<open>usize\<close> is
  \<^typ>\<open>nat\<close> with checked subtraction.
\<close>

unbundle bit_operations_syntax

type_synonym u8 = "8 word"
type_synonym u16 = "16 word"
type_synonym u32 = "32 word"
type_synonym u64 = "64 word"
type_synonym u128 = "128 word"

named_theorems bits_lemmas \<open>words as lists of bits\<close>
named_theorems panic_simps \<open>evaluation of the operations that may panic\<close>

section \<open>Checked machine arithmetic\<close>

definition usub :: "nat \<Rightarrow> nat \<Rightarrow> nat option" where
  "usub a b = (if b \<le> a then Some (a - b) else None)"

definition shl :: "'a::len word \<Rightarrow> nat \<Rightarrow> 'a word option" where
  "shl x n = (if n < LENGTH('a) then Some (push_bit n x) else None)"

definition shr :: "'a::len word \<Rightarrow> nat \<Rightarrow> 'a word option" where
  "shr x n = (if n < LENGTH('a) then Some (drop_bit n x) else None)"

lemma usub_Some [panic_simps]: "b \<le> a \<Longrightarrow> usub a b = Some (a - b)"
  by (simp add: usub_def)

lemma shl_Some [panic_simps]: "n < LENGTH('a) \<Longrightarrow> shl (x :: 'a::len word) n = Some (push_bit n x)"
  by (simp add: shl_def)

lemma shr_Some [panic_simps]: "n < LENGTH('a) \<Longrightarrow> shr (x :: 'a::len word) n = Some (drop_bit n x)"
  by (simp add: shr_def)

lemma ucast_u32_u128_le [simp]: "(ucast a :: u128) \<le> ucast b \<longleftrightarrow> a \<le> (b :: u32)"
proof -
  have "unat x < 2 ^ 128" for x :: u32
    using unsigned_less [of x, where ?'a = nat] by simp
  then have "take_bit 128 (unat x) = unat x" for x :: u32
    by (simp add: take_bit_nat_eq_self)
  then show ?thesis by (simp add: word_le_nat_alt unsigned_ucast_eq)
qed

lemma word_less_plus_one: "w \<noteq> - 1 \<Longrightarrow> w < w + 1" for w :: "'a::len word"
proof -
  assume "w \<noteq> - 1"
  then have "1 + w \<noteq> 0" by (metis add_eq_0_iff)
  then have "unat (1 + w) = Suc (unat w)" by (rule unatSuc)
  then show ?thesis by (simp add: word_less_nat_alt add.commute)
qed

lemma word_le_minus_one: "x < w \<Longrightarrow> x \<le> w - 1" for w :: "'a::len word"
proof -
  assume "x < w"
  moreover from this have "unat (w - 1) = unat w - 1" by (intro unat_minus_one) auto
  ultimately show ?thesis by (simp add: word_less_nat_alt word_le_nat_alt)
qed

lemma word_minus_one_less: "x < w \<Longrightarrow> w - 1 < w" for w :: "'a::len word"
proof -
  assume "x < w"
  moreover from this have "unat (w - 1) = unat w - 1" by (intro unat_minus_one) auto
  ultimately show ?thesis by (simp add: word_less_nat_alt)
qed

section \<open>Decimal output\<close>

text \<open>The \<open>Display\<close> form of an unsigned integer.\<close>

fun decimal :: "nat \<Rightarrow> string" where
  "decimal n = (if n < 10 then [char_of (48 + n)] else decimal (n div 10) @ [char_of (48 + n mod 10)])"

declare decimal.simps [simp del]

section \<open>Splitting and joining\<close>

text \<open>\<open>str::split\<close> at a character and \<open>join\<close>, for strings of characters and of bytes.\<close>

fun split_char :: "'a \<Rightarrow> 'a list \<Rightarrow> 'a list list" where
  "split_char c [] = [[]]"
| "split_char c (x # xs) =
     (if x = c then [] # split_char c xs
      else (case split_char c xs of [] \<Rightarrow> [[x]] | p # ps \<Rightarrow> (x # p) # ps))"

fun join :: "'a list \<Rightarrow> 'a list list \<Rightarrow> 'a list" where
  "join sep [] = []"
| "join sep [s] = s"
| "join sep (s # t # ts) = s @ sep @ join sep (t # ts)"

lemma split_char_none: "c \<notin> set s \<Longrightarrow> split_char c s = [s]"
  by (induction s) auto

lemma split_char_once: "c \<notin> set s \<Longrightarrow> split_char c (s @ c # r) = s # split_char c r"
  by (induction s) auto

lemma split_join:
  assumes "ss \<noteq> []" "\<forall>s \<in> set ss. c \<notin> set s"
  shows "split_char c (join [c] ss) = ss"
  using assms by (induction "[c]" ss rule: join.induct) (auto simp: split_char_none split_char_once)

lemma set_join: "set (join sep ss) \<subseteq> set sep \<union> (\<Union>s \<in> set ss. set s)"
  by (induction sep ss rule: join.induct) auto

lemma length_split_char: "length (split_char c s) = Suc (length (filter (\<lambda>x. x = c) s))"
  by (induction s) (auto split: list.splits)

section \<open>Ends of a list\<close>

definition last_opt :: "'a list \<Rightarrow> 'a option" where
  "last_opt xs = (if xs = [] then None else Some (last xs))"

definition first_opt :: "'a list \<Rightarrow> 'a option" where
  "first_opt xs = (case xs of [] \<Rightarrow> None | x # _ \<Rightarrow> Some x)"

lemma last_opt_snoc [simp]: "last_opt (xs @ [x]) = Some x"
  by (simp add: last_opt_def)

lemma last_opt_ends [simp]: "last_opt (f # ms @ [b]) = Some b"
  by (simp add: last_opt_def)

lemma first_opt_Cons [simp]: "first_opt (x # xs) = Some x"
  by (simp add: first_opt_def)

lemma split_ends:
  assumes "2 \<le> length xs"
  obtains f ms b where "xs = f # ms @ [b]"
proof -
  from assms obtain f r where "xs = f # r" "r \<noteq> []"
    by (cases xs) fastforce+
  then show ?thesis using that by (metis append_butlast_last_id)
qed

section \<open>Searching a list\<close>

text \<open>\<open>Iterator::position\<close>: the index of the first element that satisfies the predicate.\<close>

fun find_position :: "('a \<Rightarrow> bool) \<Rightarrow> 'a list \<Rightarrow> nat option" where
  "find_position P [] = None"
| "find_position P (x # xs) = (if P x then Some 0 else map_option Suc (find_position P xs))"

lemma find_position_None: "find_position P xs = None \<longleftrightarrow> (\<forall>x \<in> set xs. \<not> P x)"
  by (induction xs) auto

lemma find_position_Some: "find_position P xs = Some i \<Longrightarrow> i < length xs \<and> P (xs ! i)"
  by (induction xs arbitrary: i) (auto split: if_splits)

section \<open>Words as lists of bits, least significant bit first\<close>

definition bits_upto :: "nat \<Rightarrow> 'a::len word \<Rightarrow> bool list" where
  "bits_upto n w = map (bit w) [0..<n]"

lemma length_bits_upto [simp]: "length (bits_upto n w) = n"
  by (simp add: bits_upto_def)

lemma bits_upto_0 [simp]: "bits_upto 0 w = []"
  by (simp add: bits_upto_def)

lemma nth_bits_upto [simp]: "i < n \<Longrightarrow> bits_upto n w ! i = bit w i"
  by (simp add: bits_upto_def)

lemma take_bits_upto [simp]: "take k (bits_upto n w) = bits_upto (min k n) w"
  by (simp add: bits_upto_def take_map min_def)

lemma drop_bits_upto: "drop k (bits_upto n w) = bits_upto (n - k) (drop_bit k w)"
  by (rule nth_equalityI) (auto simp: bits_upto_def bit_simps)

lemma bits_upto_add: "bits_upto (m + n) w = bits_upto m w @ bits_upto n (drop_bit m w)"
  by (rule nth_equalityI) (auto simp: nth_append bit_simps)

lemma bits_upto_ucast:
  "n \<le> LENGTH('b) \<Longrightarrow> bits_upto n (ucast (w :: 'a::len word) :: 'b::len word) = bits_upto n w"
  by (rule nth_equalityI) (auto simp: bit_simps dest: bit_imp_le_length)

definition fits :: "nat \<Rightarrow> 'a::len word \<Rightarrow> bool" where
  "fits n w \<longleftrightarrow> (\<forall>i \<ge> n. \<not> bit w i)"

lemma fits_iff_less: "n < LENGTH('a) \<Longrightarrow> fits n (w :: 'a::len word) \<longleftrightarrow> w < 2 ^ n"
proof -
  assume n: "n < LENGTH('a)"
  have "fits n w \<longleftrightarrow> take_bit n w = w"
    by (auto simp: fits_def bit_eq_iff bit_simps not_less) (meson leI, meson bit_imp_le_length leD)
  also have "\<dots> \<longleftrightarrow> w < 2 ^ n"
    using n by (metis less_mask_eq mask_eq_iff_w2p take_bit_eq_mask word_size)
  finally show ?thesis .
qed

lemma fits_of_nat [bits_lemmas]: "i < 2 ^ n \<Longrightarrow> fits n (of_nat i :: 'a::len word)"
  unfolding fits_def
  by (metis bit_of_nat_iff bit_take_bit_iff leD take_bit_nat_eq_self)

lemma fits_max [simp]: "fits LENGTH('a) (w :: 'a::len word)"
  by (auto simp: fits_def dest: bit_imp_le_length)

lemma fits_drop [bits_lemmas]: "fits n w \<Longrightarrow> fits (n - k) (drop_bit k w)"
  by (auto simp: fits_def bit_simps)

lemma fits_mono: "fits m w \<Longrightarrow> m \<le> n \<Longrightarrow> fits n w"
  by (auto simp: fits_def)

lemma fits_bits_eq: "fits n v \<Longrightarrow> fits n w \<Longrightarrow> bits_upto n v = bits_upto n w \<Longrightarrow> v = w"
  by (rule bit_word_eqI) (metis fits_def linorder_not_le nth_bits_upto)

lemma or_shift_bits:
  assumes "fits p d" "p + k \<le> LENGTH('a)"
  shows "bits_upto (p + k) (d OR push_bit p (v :: 'a::len word)) = bits_upto p d @ bits_upto k v"
  using assms by (intro nth_equalityI) (auto simp: nth_append fits_def bit_simps)

lemma or_shift_byte_bits:
  assumes "fits p (b :: u8)" "p + k \<le> 8"
  shows "bits_upto (p + k) (b OR ucast (push_bit p (v :: u64))) = bits_upto p b @ bits_upto k v"
  using assms by (intro nth_equalityI) (auto simp: nth_append fits_def bit_simps)

lemma fits_or_shift:
  "fits n (v :: u64) \<Longrightarrow> fits p (b :: u8) \<Longrightarrow> fits (p + n) (b OR ucast (push_bit p v))"
  by (auto simp: fits_def bit_simps)

lemma and_mask_byte_bits: "k \<le> 8 \<Longrightarrow> bits_upto k (ucast ((b :: u8) AND ucast (mask k :: u64)) :: u64) = bits_upto k b"
  by (rule nth_equalityI) (auto simp: bit_simps)

lemma fits_and_mask_byte: "fits k (ucast ((b :: u8) AND ucast (mask k :: u64)) :: u64)"
  by (auto simp: fits_def bit_simps)

lemma fits_or_push: "fits p (d :: u64) \<Longrightarrow> fits k v \<Longrightarrow> fits (p + k) (d OR push_bit p v)"
  by (auto simp: fits_def bit_simps)

lemma or_accumulate:
  assumes "fits p (d :: u64)" "fits k v" "p + k \<le> 64"
  shows "bits_upto (p + k) (d OR (if 0 < k then push_bit p v else 0)) = bits_upto p d @ bits_upto k v"
    and "fits (p + k) (d OR (if 0 < k then push_bit p v else 0))"
  using assms by (auto simp: or_shift_bits fits_or_push)

section \<open>Runs of operations\<close>

text \<open>
  A sequence of operations on a state, stopping at the first panic; an invariant that
  each operation keeps holds after every such sequence.
\<close>

fun run_ops :: "('op \<Rightarrow> 's \<Rightarrow> 's option) \<Rightarrow> 'op list \<Rightarrow> 's \<Rightarrow> 's option" where
  "run_ops step [] s = Some s"
| "run_ops step (op # ops) s = do { s' \<leftarrow> step op s; run_ops step ops s' }"

locale step_invariant =
  fixes step :: "'op \<Rightarrow> 's \<Rightarrow> 's option"
    and inv :: "'s \<Rightarrow> bool"
  assumes step_keeps: "inv s \<Longrightarrow> step op s = Some s' \<Longrightarrow> inv s'"
begin

lemma run_keeps: "inv s \<Longrightarrow> run_ops step ops s = Some s' \<Longrightarrow> inv s'"
proof (induction ops arbitrary: s)
  case (Cons op ops)
  then show ?case using step_keeps by (auto simp: bind_eq_Some_conv)
qed simp

end

end
