(* ===== verification/Bit_Queue.thy ===== *)
theory Bit_Queue
  imports Prelude
begin

text \<open>
  Model of \<open>ip_country/src/bit_queue.rs\<close>: a queue of bits kept in a queue of bytes,
  with a count of unused bits in the front byte and in the back byte.  The operations
  are translated one to one; \<^term>\<open>None\<close> is a panic.  The abstract queue is a list of
  booleans (\<open>queue_bits\<close>), and the main lemmas show that under the invariant
  \<open>add_bits\<close> appends and \<open>take_bits\<close> removes from the front, and that neither
  panics.
\<close>

section \<open>The data structure and its operations\<close>

record bit_queue =
  back_blank_bit_count :: nat
  byte_queue :: "u8 list"
  front_blank_bit_count :: nat

definition new_queue :: bit_queue where
  "new_queue = \<lparr>back_blank_bit_count = 8, byte_queue = [0, 0], front_blank_bit_count = 8\<rparr>"

definition queue_len :: "bit_queue \<Rightarrow> nat option" where
  "queue_len q = do {
     a \<leftarrow> usub (length (byte_queue q) * 8) (back_blank_bit_count q);
     usub a (front_blank_bit_count q) }"

definition queue_is_empty :: "bit_queue \<Rightarrow> bool option" where
  "queue_is_empty q = map_option (\<lambda>n. n = 0) (queue_len q)"

definition back_full_bit_count :: "bit_queue \<Rightarrow> nat option" where
  "back_full_bit_count q = usub 8 (back_blank_bit_count q)"

definition front_full_bit_count :: "bit_queue \<Rightarrow> nat option" where
  "front_full_bit_count q = usub 8 (front_blank_bit_count q)"

definition low_order_ones :: "nat \<Rightarrow> u64 option" where
  "low_order_ones count = do { m \<leftarrow> shl (- 1) count; Some (NOT m) }"

definition push_blank_byte :: "bit_queue \<Rightarrow> bit_queue" where
  "push_blank_byte q =
     (if back_blank_bit_count q = 0
      then q\<lparr>byte_queue := byte_queue q @ [0], back_blank_bit_count := 8\<rparr> else q)"

definition add_some_back_bits :: "u64 \<Rightarrow> nat \<Rightarrow> bit_queue \<Rightarrow> (nat \<times> bit_queue) option" where
  "add_some_back_bits bit_data bit_count q0 = do {
     let q = push_blank_byte q0;
     let bits_to_add = min bit_count (back_blank_bit_count q);
     full \<leftarrow> back_full_bit_count q;
     back \<leftarrow> last_opt (byte_queue q);
     shifted \<leftarrow> shl bit_data full;
     let q = q\<lparr>byte_queue := butlast (byte_queue q) @ [back OR ucast shifted]\<rparr>;
     blank \<leftarrow> usub (back_blank_bit_count q) bits_to_add;
     Some (bits_to_add, push_blank_byte (q\<lparr>back_blank_bit_count := blank\<rparr>)) }"

fun add_back_bytes_loop :: "u64 \<Rightarrow> nat \<Rightarrow> u8 list \<Rightarrow> (nat \<times> u8 list) option" where
  "add_back_bytes_loop bit_data bit_count bytes =
     (if 8 \<le> bit_count
      then do {
        ones \<leftarrow> low_order_ones 8;
        next_data \<leftarrow> shr bit_data 8;
        add_back_bytes_loop next_data (bit_count - 8) (bytes @ [ucast (bit_data AND ones)]) }
      else Some (bit_count, bytes))"

declare add_back_bytes_loop.simps [simp del]

definition add_back_bytes :: "u64 \<Rightarrow> nat \<Rightarrow> bit_queue \<Rightarrow> (nat \<times> bit_queue) option" where
  "add_back_bytes bit_data bit_count q0 =
     (if 64 < bit_count then None
      else if bit_count < 8 then Some (0, q0)
      else
        let q = (if back_blank_bit_count q0 = 8
                 then q0\<lparr>byte_queue := butlast (byte_queue q0), back_blank_bit_count := 0\<rparr>
                 else q0)
        in if 0 < back_blank_bit_count q then None
           else do {
             (left, bytes) \<leftarrow> add_back_bytes_loop bit_data bit_count (byte_queue q);
             Some (bit_count - left, q\<lparr>byte_queue := bytes\<rparr>) })"

definition add_bits :: "u64 \<Rightarrow> nat \<Rightarrow> bit_queue \<Rightarrow> bit_queue option" where
  "add_bits bit_data bit_count q =
     (if 64 < bit_count then None
      else do {
        (initial_bits_added, q) \<leftarrow> add_some_back_bits bit_data bit_count q;
        bit_data \<leftarrow> shr bit_data initial_bits_added;
        bit_count \<leftarrow> usub bit_count initial_bits_added;
        (byte_bits_added, q) \<leftarrow> add_back_bytes bit_data bit_count q;
        bit_data \<leftarrow> shr bit_data byte_bits_added;
        bit_count \<leftarrow> usub bit_count byte_bits_added;
        (final_bits_added, q) \<leftarrow> add_some_back_bits bit_data bit_count q;
        bit_data \<leftarrow> shr bit_data final_bits_added;
        bit_count \<leftarrow> usub bit_count final_bits_added;
        if bit_count \<noteq> 0 then None else Some q })"

definition drop_front_byte :: "bit_queue \<Rightarrow> bit_queue" where
  "drop_front_byte q = q\<lparr>byte_queue := tl (byte_queue q), front_blank_bit_count := 0\<rparr>"

definition take_some_front_bits :: "nat \<Rightarrow> bit_queue \<Rightarrow> ((u64 \<times> nat) \<times> bit_queue) option" where
  "take_some_front_bits bit_count q0 = do {
     full \<leftarrow> front_full_bit_count q0;
     let q = (if full = 0 \<and> 2 < length (byte_queue q0) then drop_front_byte q0 else q0);
     full \<leftarrow> front_full_bit_count q;
     let bits_to_take = min bit_count full;
     if bits_to_take = 0 then Some ((0, 0), q)
     else do {
       front \<leftarrow> first_opt (byte_queue q);
       ones \<leftarrow> low_order_ones bits_to_take;
       let bit_data = front AND ucast ones;
       let front' = (if bits_to_take < 8 then drop_bit bits_to_take front else 0);
       let q = q\<lparr>byte_queue := front' # tl (byte_queue q),
                 front_blank_bit_count := front_blank_bit_count q + bits_to_take\<rparr>;
       let q = (if front_blank_bit_count q = 8 \<and> 2 < length (byte_queue q)
                then drop_front_byte q else q);
       Some ((ucast bit_data, bits_to_take), q) } }"

fun take_front_bytes_loop :: "nat \<Rightarrow> nat \<Rightarrow> u64 \<Rightarrow> u8 list \<Rightarrow> (u64 \<times> nat \<times> u8 list) option" where
  "take_front_bytes_loop original bit_count bit_data bytes =
     (if 8 \<le> bit_count
      then (case bytes of
              [] \<Rightarrow> None
            | byte # rest \<Rightarrow> do {
                offset \<leftarrow> usub original bit_count;
                shifted \<leftarrow> shl (ucast byte) offset;
                take_front_bytes_loop original (bit_count - 8) (bit_data OR shifted) rest })
      else Some (bit_data, bit_count, bytes))"

declare take_front_bytes_loop.simps [simp del]

definition take_front_bytes :: "nat \<Rightarrow> bit_queue \<Rightarrow> ((u64 \<times> nat) \<times> bit_queue) option" where
  "take_front_bytes bit_count q0 =
     (if 64 < bit_count then None
      else if bit_count < 8 then Some ((0, 0), q0)
      else
        let q = (if front_blank_bit_count q0 = 8 then drop_front_byte q0 else q0)
        in if 0 < front_blank_bit_count q then None
           else do {
             (bit_data, left, bytes) \<leftarrow>
               take_front_bytes_loop bit_count bit_count 0 (byte_queue q);
             let q = q\<lparr>byte_queue := bytes\<rparr>;
             let q = (if length (byte_queue q) < 2
                      then q\<lparr>byte_queue := 0 # byte_queue q, front_blank_bit_count := 8\<rparr>
                      else q);
             Some ((bit_data, bit_count - left), q) })"

definition take_some_back_bits :: "nat \<Rightarrow> bit_queue \<Rightarrow> ((u64 \<times> nat) \<times> bit_queue) option" where
  "take_some_back_bits bit_count q = do {
     full \<leftarrow> back_full_bit_count q;
     let bits_to_take = min bit_count full;
     remaining_bits \<leftarrow> usub full bits_to_take;
     mask \<leftarrow> low_order_ones bits_to_take;
     back \<leftarrow> last_opt (byte_queue q);
     let bit_data = (if remaining_bits < 8 then back AND ucast mask else 0);
     back' \<leftarrow> shr back bits_to_take;
     let q = q\<lparr>byte_queue := butlast (byte_queue q) @ [back'],
               back_blank_bit_count := back_blank_bit_count q + bits_to_take\<rparr>;
     let q = (if back_blank_bit_count q = 8 \<and> 2 < length (byte_queue q)
              then q\<lparr>byte_queue := butlast (byte_queue q), back_blank_bit_count := 0\<rparr>
              else q);
     Some ((ucast bit_data, bits_to_take), q) }"

definition take_bits :: "nat \<Rightarrow> bit_queue \<Rightarrow> (u64 option \<times> bit_queue) option" where
  "take_bits bit_count0 q0 =
     (if 64 < bit_count0 then None
      else do {
        len \<leftarrow> queue_len q0;
        if len < bit_count0 then Some (None, q0)
        else do {
          ((d1, n1), q) \<leftarrow> take_some_front_bits bit_count0 q0;
          s1 \<leftarrow> shl d1 0;
          bit_count \<leftarrow> usub bit_count0 n1;
          ((d2, n2), q) \<leftarrow> take_front_bytes bit_count q;
          s2 \<leftarrow> shl d2 n1;
          bit_count \<leftarrow> usub bit_count n2;
          ((d3, n3), q) \<leftarrow> take_some_front_bits bit_count q;
          s3 \<leftarrow> (if 0 < n3 then shl d3 (n1 + n2) else Some 0);
          bit_count \<leftarrow> usub bit_count n3;
          ((d4, n4), q) \<leftarrow> take_some_back_bits bit_count q;
          s4 \<leftarrow> (if 0 < n4 then shl d4 (n1 + n2 + n3) else Some 0);
          bit_count \<leftarrow> usub bit_count n4;
          if n1 + n2 + n3 + n4 \<noteq> bit_count0 then None
          else Some (Some (((s1 OR s2) OR s3) OR s4), q) } })"

section \<open>Abstraction and invariant\<close>

definition queue_bits :: "bit_queue \<Rightarrow> bool list" where
  "queue_bits q =
     (case byte_queue q of
        [] \<Rightarrow> []
      | [f] \<Rightarrow> []
      | f # rest \<Rightarrow>
          bits_upto (8 - front_blank_bit_count q) f @ concat (map (bits_upto 8) (butlast rest)) @
          bits_upto (8 - back_blank_bit_count q) (last rest))"

definition back_open :: "bit_queue \<Rightarrow> bool" where
  "back_open q \<longleftrightarrow>
     2 \<le> length (byte_queue q) \<and> front_blank_bit_count q \<le> 8 \<and>
     1 \<le> back_blank_bit_count q \<and> back_blank_bit_count q \<le> 8 \<and>
     fits (8 - back_blank_bit_count q) (last (byte_queue q))"

definition queue_ok :: "bit_queue \<Rightarrow> bool" where
  "queue_ok q \<longleftrightarrow>
     front_blank_bit_count q \<le> 8 \<and> back_blank_bit_count q \<le> 8 \<and>
     (if length (byte_queue q) = 1
      then front_blank_bit_count q = 8 \<and> back_blank_bit_count q = 0
      else 2 \<le> length (byte_queue q) \<and> fits (8 - back_blank_bit_count q) (last (byte_queue q)))"

section \<open>Adding bits at the back\<close>

lemma low_order_ones_eq [panic_simps]: "n < 64 \<Longrightarrow> low_order_ones n = Some (mask n)"
  by (simp add: low_order_ones_def shl_def push_bit_minus_one_eq_not_mask)

lemma length_byte_bits [simp]: "length (concat (map (bits_upto 8) ms)) = 8 * length ms"
  by (induction ms) auto

lemma queue_bits_form:
  "byte_queue q = f # ms @ [b] \<Longrightarrow>
   queue_bits q = bits_upto (8 - front_blank_bit_count q) f @ concat (map (bits_upto 8) ms) @
     bits_upto (8 - back_blank_bit_count q) b"
  by (cases ms) (simp_all add: queue_bits_def)

lemma back_openE:
  assumes "back_open q"
  obtains f ms b where "byte_queue q = f # ms @ [b]"
proof -
  from assms have "2 \<le> length (byte_queue q)" by (simp add: back_open_def)
  then show ?thesis using that by (rule split_ends)
qed

lemma queue_okE:
  assumes "queue_ok q"
  obtains (single) f where "byte_queue q = [f]" "front_blank_bit_count q = 8" "back_blank_bit_count q = 0"
  | (ends) f ms b where "byte_queue q = f # ms @ [b]" "front_blank_bit_count q \<le> 8"
      "back_blank_bit_count q \<le> 8" "fits (8 - back_blank_bit_count q) b"
proof (cases "length (byte_queue q) = 1")
  case True
  then show ?thesis using assms single by (auto simp: queue_ok_def length_Suc_conv)
next
  case False
  with assms have "2 \<le> length (byte_queue q)" by (simp add: queue_ok_def)
  then obtain f ms b where "byte_queue q = f # ms @ [b]" by (rule split_ends)
  with assms False ends show ?thesis by (simp add: queue_ok_def)
qed

lemma queue_ok_ends:
  "byte_queue q = f # ms @ [b] \<Longrightarrow>
   queue_ok q \<longleftrightarrow> front_blank_bit_count q \<le> 8 \<and> back_blank_bit_count q \<le> 8 \<and>
     fits (8 - back_blank_bit_count q) b"
  by (simp add: queue_ok_def)

lemma queue_ok_new: "queue_ok new_queue"
  by (simp add: queue_ok_def new_queue_def fits_def)

lemma queue_bits_new: "queue_bits new_queue = []"
  by (simp add: queue_bits_def new_queue_def)

lemma queue_len_eq: "queue_ok q \<Longrightarrow> queue_len q = Some (length (queue_bits q))"
  by (erule queue_okE) (auto simp: queue_len_def usub_def queue_bits_form, simp add: queue_bits_def)

lemma back_open_ok: "back_open q \<Longrightarrow> queue_ok q"
  by (auto simp: queue_ok_def back_open_def)

lemma push_blank_byte_ok:
  assumes "queue_ok q"
  shows "back_open (push_blank_byte q)" and "queue_bits (push_blank_byte q) = queue_bits q"
proof -
  show "back_open (push_blank_byte q)" using assms
    by (cases rule: queue_okE) (auto simp: push_blank_byte_def back_open_def fits_def)
  show "queue_bits (push_blank_byte q) = queue_bits q" using assms
  proof (cases rule: queue_okE)
    case (single f)
    then show ?thesis by (simp add: push_blank_byte_def queue_bits_def)
  next
    case (ends f ms b)
    then have "byte_queue (q\<lparr>byte_queue := byte_queue q @ [0], back_blank_bit_count := 8\<rparr>) = f # (ms @ [b]) @ [0]"
      by simp
    from queue_bits_form [OF this] queue_bits_form [OF ends(1)] show ?thesis
      by (simp add: push_blank_byte_def)
  qed
qed

lemma add_some_back_bits_spec:
  assumes ready: "queue_ok q" and d: "fits n d"
  defines "k \<equiv> min n (back_blank_bit_count (push_blank_byte q))"
  obtains q' where "add_some_back_bits d n q = Some (k, q')" "back_open q'"
    "queue_bits q' = queue_bits q @ bits_upto k d"
    "k < n \<Longrightarrow> back_blank_bit_count q' = 8"
proof -
  define p where "p = push_blank_byte q"
  from ready have ok: "back_open p" and bits: "queue_bits p = queue_bits q"
    by (simp_all add: p_def push_blank_byte_ok)
  from ok obtain f ms b where p: "byte_queue p = f # ms @ [b]"
    by (rule back_openE)
  let ?full = "8 - back_blank_bit_count p"
  let ?b' = "b OR ucast (push_bit ?full d)"
  let ?r = "p\<lparr>byte_queue := f # ms @ [?b'], back_blank_bit_count := back_blank_bit_count p - k\<rparr>"
  have blank: "1 \<le> back_blank_bit_count p" "back_blank_bit_count p \<le> 8" and fb: "fits ?full b"
    using ok p by (auto simp: back_open_def)
  have k: "k = min n (back_blank_bit_count p)" by (simp add: k_def p_def)
  have eq: "add_some_back_bits d n q = Some (k, push_blank_byte ?r)"
    using blank p
    by (simp add: add_some_back_bits_def p_def [symmetric] k back_full_bit_count_def panic_simps
        butlast_append Let_def)
  have full': "8 - (back_blank_bit_count p - k) = ?full + k"
    using blank k by auto
  have r_bits: "bits_upto (?full + k) ?b' = bits_upto ?full b @ bits_upto k d"
    using fb blank k by (intro or_shift_byte_bits) auto
  have r_fits: "fits (?full + k) ?b'"
  proof (cases "k = n")
    case True
    then show ?thesis using fits_or_shift [OF d fb] by simp
  next
    case False
    then have "?full + k = 8" using blank k by auto
    then show ?thesis using fits_max [of ?b'] by simp
  qed
  have ready': "queue_ok ?r"
    using ok p r_fits full' blank by (simp add: queue_ok_def back_open_def)
  have bits': "queue_bits ?r = queue_bits p @ bits_upto k d"
    using p r_bits full' by (simp add: queue_bits_form)
  have last: "k < n \<Longrightarrow> back_blank_bit_count (push_blank_byte ?r) = 8"
    using k by (simp add: push_blank_byte_def)
  show ?thesis
    using that [OF eq push_blank_byte_ok(1) [OF ready']] push_blank_byte_ok(2) [OF ready'] bits' bits last
    by simp
qed

lemma add_back_bytes_loop_eq:
  "add_back_bytes_loop d n bytes =
     Some (n mod 8, bytes @ map (\<lambda>i. ucast (drop_bit (8 * i) d)) [0..<n div 8])"
proof (induction d n bytes rule: add_back_bytes_loop.induct)
  case (1 d n bytes)
  show ?case
  proof (cases "8 \<le> n")
    case False
    then show ?thesis by (simp add: add_back_bytes_loop.simps)
  next
    case True
    have byte: "ucast (d AND mask 8) = (ucast d :: u8)"
      by (rule bit_word_eqI) (auto simp: bit_simps)
    have upt: "[0..<n div 8] = 0 # map Suc [0..<(n - 8) div 8]"
      using True by (subst upt_conv_Cons) (auto simp: map_Suc_upt le_div_geq)
    show ?thesis
      using True "1.IH" [of "mask 8" "drop_bit 8 d"]
      by (subst add_back_bytes_loop.simps)
        (simp add: panic_simps byte upt le_mod_geq comp_def add.commute)
  qed
qed

lemma concat_byte_bits:
  "concat (map (\<lambda>i. bits_upto 8 (ucast (drop_bit (8 * i) (d :: u64)) :: u8)) [0..<m]) = bits_upto (8 * m) d"
proof (induction m)
  case (Suc m)
  then show ?case using bits_upto_add [of "8 * m" 8 d] by (simp add: bits_upto_ucast add.commute)
qed simp

lemma add_back_bytes_spec:
  assumes ok: "back_open q" and n: "n \<le> 64" and full: "8 \<le> n \<Longrightarrow> back_blank_bit_count q = 8"
  obtains q' where "add_back_bytes d n q = Some (n - n mod 8, q')" "queue_ok q'"
    "queue_bits q' = queue_bits q @ bits_upto (n - n mod 8) d"
    "back_blank_bit_count q' = (if n < 8 then back_blank_bit_count q else 0)"
proof (cases "n < 8")
  case True
  then show ?thesis using that [of q] ok by (simp add: add_back_bytes_def back_open_ok)
next
  case False
  define new :: "u8 list" where "new = map (\<lambda>i. ucast (drop_bit (8 * i) d)) [0..<n div 8]"
  have len: "length new = n div 8" and new_bits: "concat (map (bits_upto 8) new) = bits_upto (n - n mod 8) d"
    using concat_byte_bits [of d "n div 8"] by (simp_all add: new_def comp_def minus_mod_eq_mult_div)
  from ok obtain f ms b where q: "byte_queue q = f # ms @ [b]"
    by (rule back_openE)
  let ?q = "q\<lparr>byte_queue := f # ms @ new, back_blank_bit_count := 0\<rparr>"
  have "new \<noteq> []" using len False by auto
  then obtain ns l where ns: "new = ns @ [l]" by (metis append_butlast_last_id)
  have eq: "add_back_bytes d n q = Some (n - n mod 8, ?q)"
    using False n full q
    by (simp add: add_back_bytes_def Let_def add_back_bytes_loop_eq new_def butlast_append)
  have "queue_ok ?q"
    using ok ns by (auto simp: queue_ok_def back_open_def fits_def dest: bit_imp_le_length)
  moreover have "queue_bits ?q = queue_bits q @ bits_upto (n - n mod 8) d"
    using queue_bits_form [OF q] queue_bits_form [of ?q f "ms @ ns" l] full False
    by (simp add: ns flip: new_bits)
  ultimately show ?thesis using that [OF eq] False by simp
qed

lemma add_bits_spec:
  assumes ok: "queue_ok q" and n: "n \<le> 64" and d: "fits n d"
  obtains q' where "add_bits d n q = Some q'" "back_open q'" "queue_bits q' = queue_bits q @ bits_upto n d"
proof -
  define k where "k = min n (back_blank_bit_count (push_blank_byte q))"
  obtain q1 where s1: "add_some_back_bits d n q = Some (k, q1)" "back_open q1"
    "queue_bits q1 = queue_bits q @ bits_upto k d" "k < n \<Longrightarrow> back_blank_bit_count q1 = 8"
    using add_some_back_bits_spec [OF ok d] unfolding k_def by blast
  have blank: "1 \<le> back_blank_bit_count (push_blank_byte q)" "back_blank_bit_count (push_blank_byte q) \<le> 8"
    using push_blank_byte_ok(1) [OF ok] by (auto simp: back_open_def)
  have k: "k \<le> n" "k \<le> 8" "n = 0 \<or> 1 \<le> k" using blank by (auto simp: k_def)
  define d1 n1 where "d1 = drop_bit k d" and "n1 = n - k"
  define m n2 where "m = n1 - n1 mod 8" and "n2 = n1 mod 8"
  define d2 where "d2 = drop_bit m d1"
  have full: "8 \<le> n1 \<Longrightarrow> back_blank_bit_count q1 = 8" using s1(4) by (simp add: n1_def)
  have n1: "n1 \<le> 64" using n by (simp add: n1_def)
  have sum: "n = k + n1" "n1 = m + n2" using k by (simp_all add: n1_def m_def n2_def)
  obtain q2 where s2: "add_back_bytes d1 n1 q1 = Some (m, q2)" "queue_ok q2"
    "queue_bits q2 = queue_bits q1 @ bits_upto m d1"
    "back_blank_bit_count q2 = (if n1 < 8 then back_blank_bit_count q1 else 0)"
    using add_back_bytes_spec [OF s1(2) n1 full] unfolding m_def by blast
  have "fits n1 d1" using fits_drop [OF d, of k] by (simp add: d1_def n1_def)
  from fits_drop [OF this, of m] have d2: "fits n2 d2" by (simp add: d2_def sum)
  let ?k2 = "min n2 (back_blank_bit_count (push_blank_byte q2))"
  obtain q3 where s3: "add_some_back_bits d2 n2 q2 = Some (?k2, q3)" "back_open q3"
    "queue_bits q3 = queue_bits q2 @ bits_upto ?k2 d2"
    using add_some_back_bits_spec [OF s2(2) d2] by blast
  have all: "?k2 = n2"
    using s1(4) s2(4) k(1) by (cases "k < n") (auto simp: push_blank_byte_def min_def n1_def n2_def)
  have "n2 < 8" "m < 64" using n k by (auto simp: m_def n1_def n2_def)
  then have "shr d k = Some d1" "usub n k = Some n1" "shr d1 m = Some d2" "usub n1 m = Some n2"
    "shr d2 n2 = Some (drop_bit n2 d2)" "usub n2 n2 = Some 0"
    using k by (simp_all add: shr_def usub_def d1_def d2_def n1_def m_def n2_def)
  then have "add_bits d n q = Some q3"
    using n s1(1) s2(1) s3(1) by (simp add: add_bits_def all)
  moreover have "queue_bits q3 = queue_bits q @ bits_upto n d"
    using s1(3) s2(3) s3(3) by (simp add: all sum bits_upto_add d1_def d2_def)
  ultimately show ?thesis using that s3(2) by blast
qed

section \<open>Taking bits from the front\<close>

definition front_settled :: "bit_queue \<Rightarrow> bool" where
  "front_settled q \<longleftrightarrow>
     front_blank_bit_count q = 0 \<or> front_blank_bit_count q = 8 \<and> length (byte_queue q) \<le> 2"

lemma drop_front_byte_ok:
  assumes "queue_ok q" "front_blank_bit_count q = 8" "2 < length (byte_queue q)"
  shows "queue_ok (drop_front_byte q)" and "queue_bits (drop_front_byte q) = queue_bits q"
    and "front_blank_bit_count (drop_front_byte q) = 0" and "2 \<le> length (byte_queue (drop_front_byte q))"
proof -
  from assms(1) obtain f ms b where q: "byte_queue q = f # ms @ [b]"
    using assms(3) by (auto elim!: queue_okE)
  with assms(3) obtain m ms' where ms: "ms = m # ms'" by (cases ms) auto
  have d: "byte_queue (drop_front_byte q) = m # ms' @ [b]" "front_blank_bit_count (drop_front_byte q) = 0"
    "back_blank_bit_count (drop_front_byte q) = back_blank_bit_count q"
    by (simp_all add: drop_front_byte_def q ms)
  show "queue_ok (drop_front_byte q)" "front_blank_bit_count (drop_front_byte q) = 0"
    using assms(1) q d by (simp_all add: queue_ok_ends)
  show "queue_bits (drop_front_byte q) = queue_bits q"
    using queue_bits_form [OF q] queue_bits_form [OF d(1)] d assms(2) ms by simp
  show "2 \<le> length (byte_queue (drop_front_byte q))" by (simp add: d)
qed

lemma take_some_front_bits_spec:
  assumes ok: "queue_ok q"
  obtains v k q' where "take_some_front_bits n q = Some ((v, k), q')" "queue_ok q'" "k \<le> n" "k \<le> 8"
    "bits_upto k v = take k (queue_bits q)" "fits k v" "queue_bits q' = drop k (queue_bits q)"
    "k < n \<longrightarrow> front_settled q'" "front_blank_bit_count q = 0 \<longrightarrow> k = min n 8"
    "front_blank_bit_count q = 8 \<and> length (byte_queue q) \<le> 2 \<longrightarrow> q' = q"
proof -
  define p where "p = (if front_blank_bit_count q = 8 \<and> 2 < length (byte_queue q) then drop_front_byte q else q)"
  have p: "queue_ok p" "queue_bits p = queue_bits q"
    "front_blank_bit_count p = 8 \<Longrightarrow> length (byte_queue p) \<le> 2"
    "front_blank_bit_count q = 0 \<Longrightarrow> p = q"
    using ok drop_front_byte_ok [of q] by (auto simp: p_def)
  have p8: "front_blank_bit_count p \<le> 8" "front_blank_bit_count q \<le> 8"
    using p(1) ok by (simp_all add: queue_ok_def)
  let ?full = "8 - front_blank_bit_count p"
  define k where "k = min n ?full"
  have full_q: "usub 8 (front_blank_bit_count q) = Some (8 - front_blank_bit_count q)"
    and full_p: "usub 8 (front_blank_bit_count p) = Some ?full" and k64: "k < 64"
    and peq: "(if 8 - front_blank_bit_count q = 0 \<and> 2 < length (byte_queue q)
      then drop_front_byte q else q) = p"
    using p8 by (auto simp: usub_def k_def p_def)
  show ?thesis
  proof (cases "k = 0")
    case True
    have eq: "take_some_front_bits n q = Some ((0, 0), p)"
      unfolding take_some_front_bits_def front_full_bit_count_def Let_def full_q Option.bind.simps peq full_p
      using True by (simp flip: k_def)
    have "0 < n \<Longrightarrow> front_blank_bit_count p = 8"
      using True p8 by (auto simp: k_def min_def split: if_splits)
    with p(3,4) have "0 < n \<Longrightarrow> front_settled p" "front_blank_bit_count q = 0 \<Longrightarrow> n = 0"
      by (auto simp: front_settled_def)
    with eq p show ?thesis by (intro that [of 0 0 p]) (auto simp: fits_def p_def)
  next
    case False
    then obtain f ms b where pq: "byte_queue p = f # ms @ [b]"
      using p(1) by (auto simp: k_def elim!: queue_okE)
    have k: "k \<le> ?full" "k \<le> n" by (simp_all add: k_def)
    let ?f' = "if k < 8 then drop_bit k f else 0"
    define r where "r = p\<lparr>byte_queue := ?f' # ms @ [b], front_blank_bit_count := front_blank_bit_count p + k\<rparr>"
    define s where "s = (if front_blank_bit_count r = 8 \<and> 2 < length (byte_queue r) then drop_front_byte r else r)"
    have eq: "take_some_front_bits n q = Some ((ucast (f AND ucast (mask k :: u64)), k), s)"
      unfolding take_some_front_bits_def front_full_bit_count_def Let_def full_q Option.bind.simps peq full_p
      using False by (simp add: pq k64 low_order_ones_eq s_def r_def flip: k_def)
    have rq: "byte_queue r = ?f' # ms @ [b]" by (simp add: r_def)
    have r_ok: "queue_ok r"
      using p(1) k p8 by (simp add: queue_ok_ends [OF pq] queue_ok_ends [OF rq]) (simp add: r_def)
    have r_bits: "queue_bits r = drop k (queue_bits p)"
      using k by (simp add: queue_bits_form [OF pq] queue_bits_form [OF rq])
        (auto simp: r_def drop_bits_upto)
    have v: "bits_upto k (ucast (f AND ucast (mask k :: u64)) :: u64) = take k (queue_bits p)"
      using k by (simp add: queue_bits_form [OF pq] and_mask_byte_bits)
    have s: "queue_ok s" "queue_bits s = queue_bits r"
      using r_ok drop_front_byte_ok [of r] by (auto simp: s_def)
    have settled: "front_settled s" if "k < n"
    proof -
      have "front_blank_bit_count r = 8" using that p8 by (auto simp: r_def k_def)
      then show ?thesis using r_ok drop_front_byte_ok(3) [of r] by (auto simp: front_settled_def s_def)
    qed
    have "front_blank_bit_count q = 0 \<Longrightarrow> k = min n 8" using p(4) by (simp add: k_def)
    moreover have "front_blank_bit_count q = 8 \<Longrightarrow> length (byte_queue q) \<le> 2 \<Longrightarrow> s = q"
      using False by (auto simp: k_def p_def)
    ultimately show ?thesis
      using eq s r_bits v p(2) k p8 settled fits_and_mask_byte
      by (intro that [of "ucast (f AND ucast (mask k :: u64))" k s]) auto
  qed
qed

lemma take_front_bytes_loop_spec:
  assumes "n div 8 \<le> length bytes" "n \<le> original" "original \<le> 64" "fits (original - n) d"
  obtains v where "take_front_bytes_loop original n d bytes = Some (v, n mod 8, drop (n div 8) bytes)"
    "fits (original - n mod 8) v"
    "bits_upto (original - n mod 8) v =
       bits_upto (original - n) d @ concat (map (bits_upto 8) (take (n div 8) bytes))"
proof -
  have "\<exists>v. take_front_bytes_loop original n d bytes = Some (v, n mod 8, drop (n div 8) bytes) \<and>
      fits (original - n mod 8) v \<and>
      bits_upto (original - n mod 8) v =
        bits_upto (original - n) d @ concat (map (bits_upto 8) (take (n div 8) bytes))"
    using assms
  proof (induction original n d bytes rule: take_front_bytes_loop.induct)
    case (1 original n d bytes)
    show ?case
    proof (cases "8 \<le> n")
      case False
      then show ?thesis using "1.prems" by (simp add: take_front_bytes_loop.simps)
    next
      case True
      with "1.prems" obtain b rest where bytes: "bytes = b # rest" by (cases bytes) auto
      let ?p = "original - n" and ?d' = "d OR push_bit (original - n) (ucast b)"
      have p8: "original - (n - 8) = ?p + 8" and p64: "?p + 8 \<le> 64" using True "1.prems" by auto
      have b8: "fits 8 (ucast b :: u64)"
        by (auto simp: fits_def bit_simps dest: bit_imp_le_length)
      have fits': "fits (original - (n - 8)) ?d'"
        using fits_or_push [OF "1.prems"(4) b8] p8 by simp
      have bits': "bits_upto (original - (n - 8)) ?d' = bits_upto ?p d @ bits_upto 8 b"
        using or_shift_bits [OF "1.prems"(4), of 8 "ucast b"] p64 p8 by (simp add: bits_upto_ucast)
      have step: "take_front_bytes_loop original n d bytes =
          take_front_bytes_loop original (n - 8) ?d' rest"
        using True bytes "1.prems" by (subst take_front_bytes_loop.simps) (simp add: panic_simps)
      have divs: "n div 8 = Suc ((n - 8) div 8)" "n mod 8 = (n - 8) mod 8"
        using True by (simp_all add: le_div_geq le_mod_geq)
      have "\<exists>v. take_front_bytes_loop original (n - 8) ?d' rest = Some (v, (n - 8) mod 8, drop ((n - 8) div 8) rest) \<and>
          fits (original - (n - 8) mod 8) v \<and>
          bits_upto (original - (n - 8) mod 8) v =
            bits_upto (original - (n - 8)) ?d' @ concat (map (bits_upto 8) (take ((n - 8) div 8) rest))"
        using "1.prems" True bytes fits' divs
        by (intro "1.IH" [OF True bytes]) (auto simp: panic_simps)
      then show ?thesis unfolding step divs bits' by (simp add: bytes)
    qed
  qed
  then show ?thesis using that by blast
qed

lemma take_front_bytes_spec:
  assumes ok: "queue_ok q" and n: "n \<le> 64" and enough: "n \<le> length (queue_bits q)"
    and settled: "0 < n \<Longrightarrow> front_settled q"
  obtains v k q' where "take_front_bytes n q = Some ((v, k), q')" "queue_ok q'" "k = n - n mod 8"
    "bits_upto k v = take k (queue_bits q)" "fits k v" "queue_bits q' = drop k (queue_bits q)"
    "0 < n mod 8 \<longrightarrow> front_settled q'"
proof (cases "n < 8")
  case True
  then show ?thesis
    using that [of 0 0 q] ok settled by (auto simp: take_front_bytes_def fits_def)
next
  case False
  with enough obtain f ms b where q: "byte_queue q = f # ms @ [b]"
    using ok by (auto simp: queue_bits_def elim!: queue_okE)
  have bb: "back_blank_bit_count q \<le> 8" "fits (8 - back_blank_bit_count q) b"
    using ok by (simp_all add: queue_ok_ends [OF q])
  define p where "p = (if front_blank_bit_count q = 8 then drop_front_byte q else q)"
  define ws where "ws = (if front_blank_bit_count q = 8 then ms else f # ms)"
  have p: "byte_queue p = ws @ [b]" "front_blank_bit_count p = 0" "back_blank_bit_count p = back_blank_bit_count q"
    using settled False by (auto simp: p_def ws_def drop_front_byte_def q front_settled_def)
  have bits: "queue_bits q = concat (map (bits_upto 8) ws) @ bits_upto (8 - back_blank_bit_count q) b"
    using settled False by (auto simp: queue_bits_form [OF q] ws_def front_settled_def)
  define m where "m = n div 8"
  have k8: "n - n mod 8 = 8 * m" by (simp add: minus_mod_eq_mult_div m_def)
  have "n \<le> 8 * length ws + (8 - back_blank_bit_count q)" using enough by (simp add: bits)
  then have m: "8 * m \<le> 8 * length ws + (8 - back_blank_bit_count q)" by (simp add: m_def)
  have enough': "n div 8 \<le> length (byte_queue p)" using m by (simp add: p m_def)
  have fits0: "fits (n - n) (0 :: u64)" by (simp add: fits_def)
  obtain v where v: "take_front_bytes_loop n n 0 (byte_queue p) = Some (v, n mod 8, drop m (ws @ [b]))"
    "fits (n - n mod 8) v" "bits_upto (n - n mod 8) v = concat (map (bits_upto 8) (take m (ws @ [b])))"
    using take_front_bytes_loop_spec [OF enough' order_refl n fits0] by (auto simp: p m_def)
  define rest where "rest = drop m (ws @ [b])"
  define r where "r = (if length rest < 2 then p\<lparr>byte_queue := 0 # rest, front_blank_bit_count := 8\<rparr>
                       else p\<lparr>byte_queue := rest\<rparr>)"
  have eq: "take_front_bytes n q = Some ((v, n - n mod 8), r)"
    using False n v(1) p(2) by (simp add: take_front_bytes_def Let_def r_def rest_def flip: p_def)
  have "queue_ok r \<and> front_settled r \<and> queue_bits r = drop (8 * m) (queue_bits q) \<and>
      concat (map (bits_upto 8) (take m (ws @ [b]))) = take (8 * m) (queue_bits q)"
  proof (cases "m \<le> length ws")
    case True
    have len: "length (concat (map (bits_upto 8) (take m ws))) = 8 * m" using True by simp
    have split: "concat (map (bits_upto 8) ws) =
        concat (map (bits_upto 8) (take m ws)) @ concat (map (bits_upto 8) (drop m ws))"
      by (metis append_take_drop_id concat_append map_append)
    have rest: "rest = drop m ws @ [b]" using True by (simp add: rest_def)
    have r: "queue_ok r \<and> front_settled r \<and>
        queue_bits r = concat (map (bits_upto 8) (drop m ws)) @ bits_upto (8 - back_blank_bit_count q) b"
    proof (cases "drop m ws")
      case Nil
      then have "byte_queue r = 0 # [] @ [b]" by (simp add: r_def rest)
      then show ?thesis using Nil bb p(2,3)
        by (simp add: queue_ok_ends queue_bits_form) (simp add: r_def rest front_settled_def)
    next
      case (Cons w us)
      then have "byte_queue r = w # us @ [b]" by (simp add: r_def rest)
      then show ?thesis using Cons bb p(2,3)
        by (simp add: queue_ok_ends queue_bits_form) (simp add: r_def rest front_settled_def)
    qed
    then show ?thesis unfolding bits split using len True by simp
  next
    case False
    then have "m = Suc (length ws)" "back_blank_bit_count q = 0" using m by auto
    moreover from this have "queue_bits r = []" "queue_ok r" "front_settled r" using p(2,3)
      by (simp_all add: r_def rest_def queue_ok_def front_settled_def queue_bits_def)
    ultimately show ?thesis by (simp add: bits)
  qed
  with eq v(2,3) k8 show ?thesis by (intro that [of v "n - n mod 8" r]) auto
qed

lemma take_some_back_bits_spec:
  assumes ok: "queue_ok q" and n8: "n < 8" and enough: "n \<le> length (queue_bits q)"
    and front: "0 < n \<Longrightarrow> front_blank_bit_count q = 8 \<and> length (byte_queue q) \<le> 2"
  obtains v q' where "take_some_back_bits n q = Some ((v, n), q')" "queue_ok q'"
    "bits_upto n v = take n (queue_bits q)" "fits n v" "queue_bits q' = drop n (queue_bits q)"
  using ok
proof (cases rule: queue_okE)
  case (single f)
  then have "n = 0" using enough by (simp add: queue_bits_def)
  let ?q = "q\<lparr>byte_queue := [f]\<rparr>"
  have "take_some_back_bits 0 q = Some ((0, 0), q)"
    using single by (cases q) (simp add: take_some_back_bits_def back_full_bit_count_def panic_simps last_opt_def)
  then show ?thesis using that [of 0 q] ok \<open>n = 0\<close> by (simp add: fits_def)
next
  case (ends f ms b)
  let ?full = "8 - back_blank_bit_count q"
  have ms: "0 < n \<Longrightarrow> ms = []" using front ends by simp
  have n: "n \<le> ?full" 
    using front enough ms by (cases "n = 0") (auto simp: queue_bits_form [OF ends(1)])
  define r where "r = q\<lparr>byte_queue := f # ms @ [drop_bit n b], back_blank_bit_count := back_blank_bit_count q + n\<rparr>"
  define s where "s = (if back_blank_bit_count r = 8 \<and> 2 < length (byte_queue r)
        then r\<lparr>byte_queue := butlast (byte_queue r), back_blank_bit_count := 0\<rparr> else r)"
  define v :: u64 where "v = ucast (if ?full - n < 8 then b AND ucast (mask n :: u64) else 0)"
  have eq: "take_some_back_bits n q = Some ((v, n), s)"
    using n n8 ends
    by (simp add: take_some_back_bits_def back_full_bit_count_def panic_simps butlast_append
        s_def r_def v_def Let_def min_absorb1)
  have rq: "byte_queue r = f # ms @ [drop_bit n b]" by (simp add: r_def)
  have r: "queue_ok r"
    using n ends(2,3) fits_drop [OF ends(4), of n] by (simp add: queue_ok_ends [OF rq]) (simp add: r_def)
  have r_bits: "queue_bits r = drop n (queue_bits q)"
  proof (cases "n = 0")
    case True
    then show ?thesis by (simp add: queue_bits_form [OF rq] queue_bits_form [OF ends(1)]) (simp add: r_def)
  next
    case False
    then show ?thesis using ms front
      by (simp add: queue_bits_form [OF rq] queue_bits_form [OF ends(1)]) (simp add: r_def drop_bits_upto)
  qed
  have s: "queue_ok s \<and> queue_bits s = queue_bits r"
  proof (cases "back_blank_bit_count r = 8 \<and> ms \<noteq> []")
    case True
    then obtain us u where ms: "ms = us @ [u]" by (metis append_butlast_last_id)
    with True have sq: "byte_queue s = f # us @ [u]" "back_blank_bit_count s = 0"
      "front_blank_bit_count s = front_blank_bit_count q"
      by (simp_all add: s_def rq butlast_append r_def)
    have "fits 8 u" using fits_max [of u] by simp
    then show ?thesis using True sq ends ms
      by (simp add: queue_ok_ends [OF sq(1)] queue_bits_form [OF sq(1)] queue_bits_form [OF rq])
        (simp add: r_def)
  qed (use r in \<open>auto simp: s_def rq\<close>)
  have "bits_upto n v = take n (queue_bits q)"
  proof (cases "n = 0")
    case False
    then show ?thesis using n ms front ends
      by (simp add: v_def queue_bits_form [OF ends(1)] and_mask_byte_bits)
  qed simp
  moreover have "fits n v" using fits_and_mask_byte [of n b] by (auto simp: v_def fits_def)
  ultimately show ?thesis using that eq s r_bits by simp
qed

lemma take_bits_spec:
  assumes ok: "queue_ok q" and n: "n \<le> 64" "n \<le> length (queue_bits q)"
  obtains v q' where "take_bits n q = Some (Some v, q')" "queue_ok q'" "fits n v"
    "bits_upto n v = take n (queue_bits q)" "queue_bits q' = drop n (queue_bits q)"
proof -
  obtain d1 n1 q1 where s1: "take_some_front_bits n q = Some ((d1, n1), q1)" "queue_ok q1" "n1 \<le> n" "n1 \<le> 8"
    "bits_upto n1 d1 = take n1 (queue_bits q)" "fits n1 d1" "queue_bits q1 = drop n1 (queue_bits q)"
    "n1 < n \<longrightarrow> front_settled q1" "front_blank_bit_count q = 0 \<longrightarrow> n1 = min n 8"
    "front_blank_bit_count q = 8 \<and> length (byte_queue q) \<le> 2 \<longrightarrow> q1 = q"
    by (rule take_some_front_bits_spec [OF ok, where n = n])
  define m1 where "m1 = n - n1"
  have m1: "m1 \<le> 64" "m1 \<le> length (queue_bits q1)" "0 < m1 \<Longrightarrow> front_settled q1"
    using n s1 by (auto simp: m1_def)
  obtain d2 n2 q2 where s2: "take_front_bytes m1 q1 = Some ((d2, n2), q2)" "queue_ok q2" "n2 = m1 - m1 mod 8"
    "bits_upto n2 d2 = take n2 (queue_bits q1)" "fits n2 d2" "queue_bits q2 = drop n2 (queue_bits q1)"
    "0 < m1 mod 8 \<longrightarrow> front_settled q2"
    by (rule take_front_bytes_spec [OF s1(2) m1])
  define m2 where "m2 = m1 - n2"
  have m2: "m2 = m1 mod 8" "m2 < 8" using s2(3) by (simp_all add: m2_def)
  obtain d3 n3 q3 where s3: "take_some_front_bits m2 q2 = Some ((d3, n3), q3)" "queue_ok q3" "n3 \<le> m2" "n3 \<le> 8"
    "bits_upto n3 d3 = take n3 (queue_bits q2)" "fits n3 d3" "queue_bits q3 = drop n3 (queue_bits q2)"
    "n3 < m2 \<longrightarrow> front_settled q3" "front_blank_bit_count q2 = 0 \<longrightarrow> n3 = min m2 8"
    "front_blank_bit_count q2 = 8 \<and> length (byte_queue q2) \<le> 2 \<longrightarrow> q3 = q2"
    by (rule take_some_front_bits_spec [OF s2(2), where n = m2])
  define m3 where "m3 = m2 - n3"
  have sums: "n = n1 + m1" "m1 = n2 + m2" "m2 = n3 + m3"
    using s1(3) s2(3) s3(3) by (simp_all add: m1_def m2_def m3_def)
  have m3: "m3 \<le> length (queue_bits q3)" "m3 < 8"
    using n(2) sums s1(7) s2(6) s3(7) m2 by auto
  have front: "0 < m3 \<Longrightarrow> front_blank_bit_count q3 = 8 \<and> length (byte_queue q3) \<le> 2"
  proof -
    assume "0 < m3"
    then have less: "n3 < m2" by (simp add: m3_def)
    then have "0 < m1 mod 8" by (simp flip: m2(1))
    with s2(7) have settled: "front_settled q2" by simp
    from s3(9) less m2(2) have "front_blank_bit_count q2 \<noteq> 0" by (auto simp: min_def)
    with settled have "front_blank_bit_count q2 = 8 \<and> length (byte_queue q2) \<le> 2"
      by (simp add: front_settled_def)
    with s3(10) show ?thesis by simp
  qed
  obtain d4 q4 where s4: "take_some_back_bits m3 q3 = Some ((d4, m3), q4)" "queue_ok q4"
    "bits_upto m3 d4 = take m3 (queue_bits q3)" "fits m3 d4" "queue_bits q4 = drop m3 (queue_bits q3)"
    by (rule take_some_back_bits_spec [OF s3(2) m3(2,1) front])
  have small: "0 < n3 \<Longrightarrow> n1 + n2 < 64" "0 < m3 \<Longrightarrow> n1 + n2 + n3 < 64" using sums n(1) by auto
  define e2 where "e2 = d1 OR push_bit n1 d2"
  define e3 where "e3 = e2 OR (if 0 < n3 then push_bit (n1 + n2) d3 else 0)"
  define e4 where "e4 = e3 OR (if 0 < m3 then push_bit (n1 + n2 + n3) d4 else 0)"
  have e2: "bits_upto (n1 + n2) e2 = bits_upto n1 d1 @ bits_upto n2 d2" "fits (n1 + n2) e2"
    using s1(6) s2(5) sums n(1) by (simp_all add: e2_def or_shift_bits fits_or_push)
  have e3: "bits_upto (n1 + n2 + n3) e3 = bits_upto (n1 + n2) e2 @ bits_upto n3 d3" "fits (n1 + n2 + n3) e3"
    unfolding e3_def using or_accumulate [OF e2(2) s3(6)] sums n(1) by simp_all
  have e4: "bits_upto (n1 + n2 + n3 + m3) e4 = bits_upto (n1 + n2 + n3) e3 @ bits_upto m3 d4" "fits (n1 + n2 + n3 + m3) e4"
    unfolding e4_def using or_accumulate [OF e3(2) s4(4)] sums n(1) by simp_all
  have steps: "usub n n1 = Some m1" "usub m1 n2 = Some m2" "usub m2 n3 = Some m3" "usub m3 m3 = Some 0"
    "shl d1 0 = Some d1" "shl d2 n1 = Some (push_bit n1 d2)"
    "(if 0 < n3 then shl d3 (n1 + n2) else Some 0) = Some (if 0 < n3 then push_bit (n1 + n2) d3 else 0)"
    "(if 0 < m3 then shl d4 (n1 + n2 + n3) else Some 0) = Some (if 0 < m3 then push_bit (n1 + n2 + n3) d4 else 0)"
    using s1(4) small by (simp_all add: usub_def shl_def sums)
  have total: "n1 + n2 + n3 + m3 = n" by (simp add: sums)
  have "take_bits n q = Some (Some e4, q4)"
    using n total
    by (simp add: take_bits_def queue_len_eq [OF ok] s1(1) s2(1) s3(1) s4(1) steps e4_def e3_def e2_def
        split del: if_split)
  moreover have "bits_upto n e4 = take n (queue_bits q)"
  proof -
    have "take n (queue_bits q) = take n1 (queue_bits q) @ take n2 (drop n1 (queue_bits q)) @
        take n3 (drop (n1 + n2) (queue_bits q)) @ take m3 (drop (n1 + n2 + n3) (queue_bits q))"
      unfolding total [symmetric] take_add by simp
    then show ?thesis
      using e4(1) [unfolded total] e3(1) e2(1) s1(5,7) s2(4,6) s3(5,7) s4(3) by (simp add: ac_simps)
  qed
  moreover have "queue_bits q4 = drop n (queue_bits q)"
    using s1(7) s2(6) s3(7) s4(5) by (simp add: ac_simps flip: total)
  moreover have "fits n e4" using e4(2) by (simp add: total)
  ultimately show ?thesis using that s4(2) by blast
qed

lemma take_bits_short:
  assumes "queue_ok q" "n \<le> 64" "length (queue_bits q) < n"
  shows "take_bits n q = Some (None, q)"
  using assms by (simp add: take_bits_def queue_len_eq)

lemma take_bits_too_many: "64 < n \<Longrightarrow> take_bits n q = None"
  by (simp add: take_bits_def)

lemma add_bits_too_many: "64 < n \<Longrightarrow> add_bits d n q = None"
  by (simp add: add_bits_def)

section \<open>The interface of the queue\<close>

text \<open>
  What the clients of the queue (the country block serializer, the deserializer and the
  code generator) rely on: the abstract content is a list of bits, adding appends, taking
  removes from the front, taking more than is there changes nothing.
\<close>

locale bit_fifo =
  fixes empty :: 'q
    and add :: "u64 \<Rightarrow> nat \<Rightarrow> 'q \<Rightarrow> 'q option"
    and take_n :: "nat \<Rightarrow> 'q \<Rightarrow> (u64 option \<times> 'q) option"
    and len :: "'q \<Rightarrow> nat option"
    and bits :: "'q \<Rightarrow> bool list"
    and ok :: "'q \<Rightarrow> bool"
  assumes ok_empty: "ok empty"
    and bits_empty: "bits empty = []"
    and add_law: "ok q \<Longrightarrow> n \<le> 64 \<Longrightarrow> fits n d \<Longrightarrow>
      \<exists>q'. add d n q = Some q' \<and> ok q' \<and> bits q' = bits q @ bits_upto n d"
    and take_law: "ok q \<Longrightarrow> n \<le> 64 \<Longrightarrow> n \<le> length (bits q) \<Longrightarrow>
      \<exists>v q'. take_n n q = Some (Some v, q') \<and> ok q' \<and> fits n v \<and>
        bits_upto n v = List.take n (bits q) \<and> bits q' = drop n (bits q)"
    and take_short_law: "ok q \<Longrightarrow> n \<le> 64 \<Longrightarrow> length (bits q) < n \<Longrightarrow> take_n n q = Some (None, q)"
    and len_law: "ok q \<Longrightarrow> len q = Some (length (bits q))"
begin

lemma take_added:
  assumes "ok q" "n \<le> 64" "fits n d" "bits q = bits_upto n d @ rest"
  obtains q' where "take_n n q = Some (Some d, q')" "ok q'" "bits q' = rest"
proof -
  from assms obtain v q' where v: "take_n n q = Some (Some v, q')" "ok q'" "fits n v"
    "bits_upto n v = List.take n (bits q)" "bits q' = drop n (bits q)"
    using take_law [of q n] by auto
  then have "v = d" using assms by (intro fits_bits_eq) simp_all
  with v assms that show ?thesis by simp
qed

end

interpretation bq: bit_fifo new_queue add_bits take_bits queue_len queue_bits queue_ok
proof unfold_locales
  fix q :: bit_queue and n and d :: u64
  assume "queue_ok q" "n \<le> 64" "fits n d"
  then show "\<exists>q'. add_bits d n q = Some q' \<and> queue_ok q' \<and> queue_bits q' = queue_bits q @ bits_upto n d"
    using add_bits_spec back_open_ok by metis
next
  fix q :: bit_queue and n
  assume "queue_ok q" "n \<le> 64" "n \<le> length (queue_bits q)"
  then show "\<exists>v q'. take_bits n q = Some (Some v, q') \<and> queue_ok q' \<and> fits n v \<and>
      bits_upto n v = take n (queue_bits q) \<and> queue_bits q' = drop n (queue_bits q)"
    using take_bits_spec by metis
qed (simp_all add: queue_ok_new queue_bits_new take_bits_short queue_len_eq)

section \<open>Fields of a record\<close>

text \<open>Writing a list of fields (a value and its width) and reading fields back.\<close>

fun add_fields :: "(u64 \<times> nat) list \<Rightarrow> bit_queue \<Rightarrow> bit_queue option" where
  "add_fields [] q = Some q"
| "add_fields ((d, n) # fs) q = do { q \<leftarrow> add_bits d n q; add_fields fs q }"

fun take_fields :: "nat list \<Rightarrow> bit_queue \<Rightarrow> (u64 option list \<times> bit_queue) option" where
  "take_fields [] q = Some ([], q)"
| "take_fields (n # ns) q = do {
     (v, q) \<leftarrow> take_bits n q;
     (vs, q) \<leftarrow> take_fields ns q;
     Some (v # vs, q) }"

definition fields_fit :: "(u64 \<times> nat) list \<Rightarrow> bool" where
  "fields_fit fs \<longleftrightarrow> list_all (\<lambda>(d, n). n \<le> 64 \<and> fits n d) fs"

lemma add_fields_ok:
  "queue_ok q \<Longrightarrow> fields_fit fs \<Longrightarrow>
   \<exists>q'. add_fields fs q = Some q' \<and> queue_ok q' \<and>
     queue_bits q' = queue_bits q @ concat (map (\<lambda>(d, n). bits_upto n d) fs)"
proof (induction fs arbitrary: q)
  case (Cons f fs)
  obtain d n where f: "f = (d, n)" by (cases f)
  with Cons.prems bq.add_law [of q n d] obtain q1 where
    "add_bits d n q = Some q1" "queue_ok q1" "queue_bits q1 = queue_bits q @ bits_upto n d"
    by (auto simp: fields_fit_def)
  with Cons.IH [of q1] Cons.prems(2) f show ?case by (auto simp: fields_fit_def)
qed simp

lemma take_fields_ok:
  "queue_ok q \<Longrightarrow> fields_fit fs \<Longrightarrow> queue_bits q = concat (map (\<lambda>(d, n). bits_upto n d) fs) @ rest \<Longrightarrow>
   \<exists>q'. take_fields (map snd fs) q = Some (map (Some \<circ> fst) fs, q') \<and> queue_ok q' \<and> queue_bits q' = rest"
proof (induction fs arbitrary: q)
  case (Cons f fs)
  obtain d n where f: "f = (d, n)" by (cases f)
  obtain q1 where "take_bits n q = Some (Some d, q1)" "queue_ok q1"
    "queue_bits q1 = concat (map (\<lambda>(d, n). bits_upto n d) fs) @ rest"
    by (rule bq.take_added [of q n d]) (use Cons.prems f in \<open>auto simp: fields_fit_def\<close>)
  with Cons.IH [of q1] Cons.prems(2) f show ?case by (auto simp: fields_fit_def)
qed simp

lemma fits_code: "n \<le> 63 \<Longrightarrow> fits n (d :: u64) \<longleftrightarrow> d < 2 ^ n"
  by (rule fits_iff_less) simp

section \<open>Properties\<close>

text \<open>
  C11: adding bits to a well-formed queue never panics, keeps the queue well-formed and
  appends exactly the given bits, lowest first, to the queue's content.
\<close>

theorem add_bits_appends:
  assumes "queue_ok q" "n \<le> 64" "fits n d"
  shows "\<exists>q'. add_bits d n q = Some q' \<and> queue_ok q' \<and> queue_bits q' = queue_bits q @ bits_upto n d"
  using assms by (rule bq.add_law)

theorem add_bits_appends_witness:
  "queue_ok new_queue \<and> (3 :: nat) \<le> 64 \<and> fits 3 (5 :: u64) \<and>
   (\<exists>q'. add_bits 5 3 new_queue = Some q' \<and> queue_ok q' \<and> queue_bits q' = [True, False, True])"
proof -
  have ok: "queue_ok new_queue" by (rule queue_ok_new)
  have fit: "fits 3 (5 :: u64)" by (simp add: fits_code)
  have "bits_upto 3 (5 :: u64) = [True, False, True]" by (simp add: bits_upto_def upt_rec)
  with add_bits_appends [OF ok _ fit] ok fit show ?thesis by (simp add: queue_bits_new)
qed

text \<open>
  C12: taking \<open>n\<close> bits from a well-formed queue never panics: if the queue holds enough
  bits the result is the number made of the first \<open>n\<close> of them, which are removed;
  otherwise the result is nothing and the queue is unchanged.
\<close>

theorem take_bits_removes:
  assumes "queue_ok q" "n \<le> 64"
  shows "if n \<le> length (queue_bits q)
     then \<exists>v q'. take_bits n q = Some (Some v, q') \<and> queue_ok q' \<and> fits n v \<and>
       bits_upto n v @ queue_bits q' = queue_bits q
     else take_bits n q = Some (None, q)"
  using bq.take_law [OF assms] bq.take_short_law [OF assms] by (fastforce simp: not_le)

theorem take_bits_removes_witness:
  "queue_ok new_queue \<and> (1 :: nat) \<le> 64 \<and> take_bits 1 new_queue = Some (None, new_queue)"
  using take_bits_removes [OF queue_ok_new, of 1] by (simp add: queue_ok_new queue_bits_new)

text \<open>
  Fields written one after the other into an empty queue are read back, with the
  same widths and in the same order, as the values that were written, and the queue is
  empty again.
\<close>

theorem fields_round_trip:
  assumes "fields_fit fs"
  shows "\<exists>q q'. add_fields fs new_queue = Some q \<and>
     take_fields (map snd fs) q = Some (map (Some \<circ> fst) fs, q') \<and> queue_is_empty q' = Some True"
proof -
  obtain q where q: "add_fields fs new_queue = Some q" "queue_ok q"
    "queue_bits q = concat (map (\<lambda>(d, n). bits_upto n d) fs)"
    using add_fields_ok [OF queue_ok_new assms] by (auto simp: queue_bits_new)
  obtain q' where "take_fields (map snd fs) q = Some (map (Some \<circ> fst) fs, q')" "queue_ok q'" "queue_bits q' = []"
    using take_fields_ok [OF q(2) assms, of "[]"] q(3) by auto
  with q show ?thesis by (auto simp: queue_is_empty_def queue_len_eq)
qed

theorem fields_round_trip_witness:
  "fields_fit [(5, 3), (1000, 12), (1, 1)] \<and>
   (\<exists>q q'. add_fields [(5, 3), (1000, 12), (1, 1)] new_queue = Some q \<and>
     take_fields [3, 12, 1] q = Some ([Some 5, Some 1000, Some 1], q') \<and> queue_is_empty q' = Some True)"
proof -
  have "fields_fit [(5, 3), (1000, 12), (1, 1)]" by (simp add: fields_fit_def fits_code)
  with fields_round_trip [OF this] show ?thesis by simp
qed

end
