(* ===== verification/Country_Stream.thy ===== *)
theory Country_Stream
  imports Prelude "HOL-Library.List_Lexorder" "HOL-Library.Char_ord"
begin

text \<open>
  Model of \<open>ip_country/src/country_block_stream.rs\<close> (countries, address ranges,
  country blocks) and of \<open>ip_country/src/countries.rs\<close> (the table of countries).
  The standard library's \<open>Ipv4Addr\<close> and \<open>Ipv6Addr\<close> are the 32-bit and 128-bit
  words that \<open>u32::from\<close> and \<open>u128::from\<close> read from them.
\<close>

section \<open>Countries and address ranges\<close>

record country =
  country_index :: nat
  iso3166 :: string
  country_name :: string

definition country_new :: "nat \<Rightarrow> string \<Rightarrow> string \<Rightarrow> country" where
  "country_new index code name = \<lparr>country_index = index, iso3166 = code, country_name = name\<rparr>"

datatype ip_addr = V4 u32 | V6 u128

datatype ip_range = RangeV4 u32 u32 | RangeV6 u128 u128

datatype ordering = Less | Equal | Greater

definition ip_range_new :: "ip_addr \<Rightarrow> ip_addr \<Rightarrow> ip_range option" where
  "ip_range_new start end =
     (case (start, end) of
        (V4 s, V4 e) \<Rightarrow> Some (RangeV4 s e)
      | (V6 s, V6 e) \<Rightarrow> Some (RangeV6 s e)
      | _ \<Rightarrow> None)"

definition contains_inner :: "u128 \<Rightarrow> u128 \<Rightarrow> u128 \<Rightarrow> bool" where
  "contains_inner begin_ip end_ip candidate \<longleftrightarrow> begin_ip \<le> candidate \<and> candidate \<le> end_ip"

fun range_contains :: "ip_range \<Rightarrow> ip_addr \<Rightarrow> bool" where
  "range_contains (RangeV4 b e) (V4 c) = contains_inner (ucast b) (ucast e) (ucast c)"
| "range_contains (RangeV4 b e) (V6 c) = False"
| "range_contains (RangeV6 b e) (V4 c) = False"
| "range_contains (RangeV6 b e) (V6 c) = contains_inner b e c"

fun range_start :: "ip_range \<Rightarrow> ip_addr" where
  "range_start (RangeV4 s e) = V4 s"
| "range_start (RangeV6 s e) = V6 s"

fun range_end :: "ip_range \<Rightarrow> ip_addr" where
  "range_end (RangeV4 s e) = V4 e"
| "range_end (RangeV6 s e) = V6 e"

definition compare_with_range :: "'a::linorder \<Rightarrow> 'a \<Rightarrow> 'a \<Rightarrow> ordering" where
  "compare_with_range ip low high =
     (if ip < low then Greater else if high < ip then Less else Equal)"

fun ordering_by_range :: "ip_range \<Rightarrow> ip_addr \<Rightarrow> ordering option" where
  "ordering_by_range (RangeV4 low high) (V4 ip) = Some (compare_with_range ip low high)"
| "ordering_by_range (RangeV6 low high) (V6 ip) = Some (compare_with_range ip low high)"
| "ordering_by_range r ip = None"

definition next_of :: "'a::len word \<Rightarrow> 'a word option" where
  "next_of w = (if w = - 1 then None else Some (w + 1))"

fun are_consecutive :: "ip_addr \<Rightarrow> ip_addr \<Rightarrow> bool option" where
  "are_consecutive (V4 f) (V4 s) = map_option (\<lambda>n. s = n) (next_of f)"
| "are_consecutive (V6 f) (V6 s) = map_option (\<lambda>n. s = n) (next_of f)"
| "are_consecutive f s = None"

record country_block =
  block_range :: ip_range
  block_country :: country

subsection \<open>Membership and ordering agree\<close>

lemma ordering_by_range_Equal_iff:
  "ordering_by_range r ip = Some Equal \<longleftrightarrow> range_contains r ip"
  by (cases "(r, ip)" rule: ordering_by_range.cases)
    (auto simp: compare_with_range_def contains_inner_def not_less split: if_splits)

lemma ordering_by_range_defined:
  "(\<exists>ord. ordering_by_range r ip = Some ord) \<longleftrightarrow>
     (case (r, ip) of (RangeV4 _ _, V4 _) \<Rightarrow> True | (RangeV6 _ _, V6 _) \<Rightarrow> True | _ \<Rightarrow> False)"
  by (cases "(r, ip)" rule: ordering_by_range.cases) auto

section \<open>The table of countries\<close>

record countries =
  country_list :: "country list"
  index_by_iso3166 :: "string \<rightharpoonup> nat"

text \<open>Collecting pairs into a hash map keeps the last value of a repeated key.\<close>

definition collect_map :: "('k \<times> 'v) list \<Rightarrow> ('k \<rightharpoonup> 'v)" where
  "collect_map kvs = map_of (rev kvs)"

definition countries_old_new :: "country list \<Rightarrow> countries" where
  "countries_old_new cs =
     \<lparr>country_list = cs,
      index_by_iso3166 = collect_map (map (\<lambda>c. (iso3166 c, country_index c)) cs)\<rparr>"

fun remove_first :: "('a \<Rightarrow> bool) \<Rightarrow> 'a list \<Rightarrow> 'a list" where
  "remove_first P [] = []"
| "remove_first P (x # xs) = (if P x then xs else x # remove_first P xs)"

definition sentinel :: country where
  "sentinel = country_new 0 ''ZZ'' ''Sentinel''"

definition countries_new :: "(string \<times> string) list \<Rightarrow> countries" where
  "countries_new pairs =
     (let rest = sort_key fst (remove_first (\<lambda>(code, _). code = ''ZZ'') pairs)
      in countries_old_new
           (sentinel # map (\<lambda>(i, code, name). country_new (i + 1) code name) (enumerate 0 rest)))"

definition to_ascii_uppercase :: "string \<Rightarrow> string" where
  "to_ascii_uppercase s =
     map (\<lambda>c. if CHR ''a'' \<le> c \<and> c \<le> CHR ''z'' then char_of (of_char c - 32 :: nat) else c) s"

datatype country_error =
    InvalidIso3166 string
  | NoSuchIndex nat nat

definition country_from_index :: "countries \<Rightarrow> nat \<Rightarrow> country_error + country" where
  "country_from_index cs index =
     (if index < length (country_list cs) then Inr (country_list cs ! index)
      else Inl (NoSuchIndex (length (country_list cs)) index))"

definition country_from_code :: "countries \<Rightarrow> string \<Rightarrow> (country_error + country) option" where
  "country_from_code cs code =
     (case index_by_iso3166 cs (to_ascii_uppercase code) of
        None \<Rightarrow> Some (Inl (InvalidIso3166 code))
      | Some index \<Rightarrow>
          (case country_from_index cs index of
             Inl _ \<Rightarrow> None
           | Inr c \<Rightarrow> Some (Inr c)))"

definition countries_len :: "countries \<Rightarrow> nat" where
  "countries_len cs = length (country_list cs)"

subsection \<open>Every table built by the constructor is consistent\<close>

definition countries_ok :: "countries \<Rightarrow> bool" where
  "countries_ok cs \<longleftrightarrow>
     0 < length (country_list cs) \<and> country_list cs ! 0 = sentinel \<and>
     (\<forall>i < length (country_list cs). country_index (country_list cs ! i) = i) \<and>
     index_by_iso3166 cs = collect_map (map (\<lambda>c. (iso3166 c, country_index c)) (country_list cs))"

lemma countries_new_list:
  "country_list (countries_new pairs) =
     sentinel # map (\<lambda>(i, code, name). country_new (i + 1) code name)
       (enumerate 0 (sort_key fst (remove_first (\<lambda>(code, _). code = ''ZZ'') pairs)))"
  by (simp add: countries_new_def countries_old_new_def Let_def)

lemma countries_new_ok: "countries_ok (countries_new pairs)"
proof -
  define rest where "rest = sort_key fst (remove_first (\<lambda>(code, _). code = ''ZZ'') pairs)"
  have "country_index (country_list (countries_new pairs) ! i) = i"
    if "i < length (country_list (countries_new pairs))" for i
    using that by (cases i) (auto simp: countries_new_list sentinel_def country_new_def nth_enumerate_eq
        simp flip: rest_def split: prod.split)
  then show ?thesis
    by (simp add: countries_ok_def countries_new_list)
      (simp add: countries_new_def countries_old_new_def Let_def)
qed

lemma index_by_iso3166_sound:
  assumes "countries_ok cs" "index_by_iso3166 cs code = Some index"
  shows "index < length (country_list cs)" "iso3166 (country_list cs ! index) = code"
proof -
  from assms obtain d where d: "d \<in> set (country_list cs)" "code = iso3166 d" "index = country_index d"
    by (auto simp: countries_ok_def collect_map_def dest!: map_of_SomeD)
  then obtain j where j: "j < length (country_list cs)" "d = country_list cs ! j"
    by (auto simp: in_set_conv_nth)
  with assms(1) d have "index = j" by (simp add: countries_ok_def)
  with d j show "index < length (country_list cs)" "iso3166 (country_list cs ! index) = code"
    by simp_all
qed

lemma country_from_code_ok:
  "countries_ok cs \<Longrightarrow>
   country_from_code cs code =
     Some (case index_by_iso3166 cs (to_ascii_uppercase code) of
             None \<Rightarrow> Inl (InvalidIso3166 code)
           | Some index \<Rightarrow> Inr (country_list cs ! index))"
  by (auto simp: country_from_code_def country_from_index_def index_by_iso3166_sound split: option.split)

lemma country_from_code_found:
  assumes "countries_ok cs" "country_from_code cs code = Some (Inr c)"
  shows "c \<in> set (country_list cs)" "iso3166 c = to_ascii_uppercase code"
  using assms by (auto simp: country_from_code_ok index_by_iso3166_sound split: option.splits)

lemma country_from_code_index:
  assumes "countries_ok cs" "country_from_code cs code = Some (Inr c)"
  shows "country_index c < length (country_list cs)" "country_list cs ! country_index c = c"
proof -
  obtain i where "i < length (country_list cs)" "c = country_list cs ! i"
    using country_from_code_found(1) [OF assms] by (auto simp: in_set_conv_nth)
  with assms(1) show "country_index c < length (country_list cs)" "country_list cs ! country_index c = c"
    by (simp_all add: countries_ok_def)
qed

section \<open>Properties\<close>

text \<open>
  In every table built by \<open>Countries::new\<close> a lookup by code never panics.  It
  ignores case, returns a country of the table with that code, and fails exactly for
  the codes the table does not have.
\<close>

theorem country_from_code_correct:
  "case country_from_code (countries_new pairs) code of
     Some (Inr c) \<Rightarrow> c \<in> set (country_list (countries_new pairs)) \<and> iso3166 c = to_ascii_uppercase code
   | Some (Inl e) \<Rightarrow> e = InvalidIso3166 code \<and>
       to_ascii_uppercase code \<notin> iso3166 ` set (country_list (countries_new pairs))
   | None \<Rightarrow> False"
proof -
  have "index_by_iso3166 (countries_new pairs) =
      collect_map (map (\<lambda>c. (iso3166 c, country_index c)) (country_list (countries_new pairs)))"
    using countries_new_ok [of pairs] by (simp add: countries_ok_def)
  then have "to_ascii_uppercase code \<notin> iso3166 ` set (country_list (countries_new pairs))"
    if "index_by_iso3166 (countries_new pairs) (to_ascii_uppercase code) = None"
    using that by (simp add: collect_map_def map_of_eq_None_iff image_image)
  then show ?thesis
    using index_by_iso3166_sound [OF countries_new_ok]
    by (auto simp: country_from_code_ok [OF countries_new_ok] split: option.split)
qed

end
