(* ===== verification/Country_Serde.thy ===== *)
theory Country_Serde
  imports Bit_Queue Country_Stream
begin

text \<open>
  Model of \<open>ip_country/src/country_block_serde.rs\<close>: the compressed format of the
  country data, its serializer and its deserializer.  The Rust code is generic over the
  address type through a handful of traits; the record \<open>ip_ops\<close> is the dictionary of
  those traits, and \<open>ipv4_ops\<close> and \<open>ipv6_ops\<close> are the two implementations.
\<close>

section \<open>Addresses as sequences of parts\<close>

text \<open>
  \<open>Ipv4Addr::octets\<close>, \<open>Ipv6Addr::segments\<close> and \<open>Ipv6Addr::octets\<close> of the standard
  library: the parts of the address, most significant first.
\<close>

definition word_parts :: "nat \<Rightarrow> 'a::len word \<Rightarrow> 'b::len word list" where
  "word_parts n w = map (\<lambda>i. ucast (drop_bit (LENGTH('b) * (n - 1 - i)) w)) [0..<n]"

definition parts_word :: "'b::len word list \<Rightarrow> 'a::len word" where
  "parts_word ps = foldl (\<lambda>acc p. push_bit LENGTH('b) acc OR ucast p) 0 ps"

definition octets4 :: "u32 \<Rightarrow> u8 list" where
  "octets4 = word_parts 4"

definition segments6 :: "u128 \<Rightarrow> u16 list" where
  "segments6 = word_parts 8"

definition octets6 :: "u128 \<Rightarrow> u8 list" where
  "octets6 = word_parts 16"

definition integer_from_ip_generic :: "('ip \<Rightarrow> u8 list) \<Rightarrow> 'ip \<Rightarrow> 'i::len word" where
  "integer_from_ip_generic octets ip =
     foldl (\<lambda>bit_data octet. push_bit 8 bit_data OR ucast octet) 0 (octets ip)"

definition plus_one_ip4 :: "u32 \<Rightarrow> u32" where
  "plus_one_ip4 ip = integer_from_ip_generic octets4 ip + 1"

definition minus_one_ip4 :: "u32 \<Rightarrow> u32" where
  "minus_one_ip4 ip = integer_from_ip_generic octets4 ip - 1"

definition plus_one_ip6 :: "u128 \<Rightarrow> u128" where
  "plus_one_ip6 ip = integer_from_ip_generic octets6 ip + 1"

definition minus_one_ip6 :: "u128 \<Rightarrow> u128" where
  "minus_one_ip6 ip = integer_from_ip_generic octets6 ip - 1"

section \<open>The trait dictionary\<close>

record difference =
  diff_index :: nat
  diff_value :: u64

record ('ip, 'seg) ip_ops =
  ip_segments :: "'ip \<Rightarrow> 'seg list"
  ip_from_segments :: "'seg list \<Rightarrow> 'ip"
  u64_from_seg :: "'seg \<Rightarrow> u64"
  seg_try_from :: "u64 \<Rightarrow> 'seg option"
  plus_one_ip :: "'ip \<Rightarrow> 'ip"
  minus_one_ip :: "'ip \<Rightarrow> 'ip"
  max_ip_value :: 'ip
  range_from :: "'ip \<Rightarrow> 'ip \<Rightarrow> ip_range"
  difference_count_bits :: nat
  index_bits :: nat
  value_bits :: nat

definition word_try_from :: "u64 \<Rightarrow> 'b::len word option" where
  "word_try_from v = (if unat v < 2 ^ LENGTH('b) then Some (ucast v) else None)"

definition ipv4_ops :: "(u32, u8) ip_ops" where
  "ipv4_ops =
     \<lparr>ip_segments = octets4, ip_from_segments = parts_word, u64_from_seg = ucast,
      seg_try_from = word_try_from, plus_one_ip = plus_one_ip4, minus_one_ip = minus_one_ip4,
      max_ip_value = 0xFFFFFFFF, range_from = RangeV4,
      difference_count_bits = 2, index_bits = 2, value_bits = 8\<rparr>"

definition ipv6_ops :: "(u128, u16) ip_ops" where
  "ipv6_ops =
     \<lparr>ip_segments = segments6, ip_from_segments = parts_word, u64_from_seg = ucast,
      seg_try_from = word_try_from, plus_one_ip = plus_one_ip6, minus_one_ip = minus_one_ip6,
      max_ip_value = 0xFFFFFFFFFFFFFFFFFFFFFFFFFFFFFFFF, range_from = RangeV6,
      difference_count_bits = 3, index_bits = 3, value_bits = 16\<rparr>"

section \<open>Serializer\<close>

record 'ip ip_serializer =
  prev_start :: 'ip
  prev_end :: 'ip
  ser_block_count :: nat
  ser_queue :: bit_queue

definition ip_serializer_new :: "'ip \<Rightarrow> 'ip \<Rightarrow> 'ip ip_serializer" where
  "ip_serializer_new start end =
     \<lparr>prev_start = start, prev_end = end, ser_block_count = 0, ser_queue = new_queue\<rparr>"

definition ips_into_differences :: "('ip, 'seg) ip_ops \<Rightarrow> 'ip \<Rightarrow> 'ip \<Rightarrow> difference list" where
  "ips_into_differences ops from_ip to_ip =
     List.map_filter
       (\<lambda>(index, from_segment, to_segment).
          if to_segment = from_segment then None
          else Some \<lparr>diff_index = index, diff_value = u64_from_seg ops to_segment\<rparr>)
       (enumerate 0 (zip (ip_segments ops from_ip) (ip_segments ops to_ip)))"

fun add_differences :: "nat \<Rightarrow> nat \<Rightarrow> difference list \<Rightarrow> bit_queue \<Rightarrow> bit_queue option" where
  "add_differences index_bit_count segment_bit_count [] q = Some q"
| "add_differences index_bit_count segment_bit_count (d # ds) q = do {
     q \<leftarrow> add_bits (of_nat (diff_index d)) index_bit_count q;
     q \<leftarrow> add_bits (diff_value d) segment_bit_count q;
     add_differences index_bit_count segment_bit_count ds q }"

definition add_record ::
  "('ip, 'seg) ip_ops \<Rightarrow> 'ip \<Rightarrow> 'ip \<Rightarrow> nat \<Rightarrow> nat \<Rightarrow> nat \<Rightarrow> nat \<Rightarrow> 'ip ip_serializer \<Rightarrow>
   'ip ip_serializer option" where
  "add_record ops start end country difference_count_bit_count index_bit_count segment_bit_count s = do {
     let differences = ips_into_differences ops (prev_start s) start;
     difference_count_minus_one \<leftarrow> usub (length differences) 1;
     q \<leftarrow> add_bits (of_nat difference_count_minus_one) difference_count_bit_count (ser_queue s);
     q \<leftarrow> add_differences index_bit_count segment_bit_count differences q;
     q \<leftarrow> add_bits (of_nat country) 9 q;
     Some \<lparr>prev_start = start, prev_end = end, ser_block_count = ser_block_count s + 1,
           ser_queue = q\<rparr> }"

text \<open>
  \<open>add_ip_generic\<close> calls itself to fill a gap before the new block.  The inner call
  starts at the expected address, so it does not recurse further.
\<close>

function add_ip_generic ::
  "('ip, 'seg) ip_ops \<Rightarrow> 'ip \<Rightarrow> 'ip \<Rightarrow> nat \<Rightarrow> nat \<Rightarrow> nat \<Rightarrow> nat \<Rightarrow> 'ip ip_serializer \<Rightarrow>
   'ip ip_serializer option" where
  "add_ip_generic ops start end country difference_count_bit_count index_bit_count segment_bit_count s = do {
     let expected_start = plus_one_ip ops (prev_end s);
     s \<leftarrow> (if start \<noteq> expected_start
          then add_ip_generic ops expected_start (minus_one_ip ops start) 0
                 difference_count_bit_count index_bit_count segment_bit_count s
          else Some s);
     add_record ops start end country
       difference_count_bit_count index_bit_count segment_bit_count s }"
  by pat_completeness auto
termination
  by (relation "measure (\<lambda>(ops, start, _, _, _, _, _, s).
        if start = plus_one_ip ops (prev_end s) then 0 else 1)") auto

declare add_ip_generic.simps [simp del]

definition ipv4_add_ip :: "u32 \<Rightarrow> u32 \<Rightarrow> nat \<Rightarrow> u32 ip_serializer \<Rightarrow> u32 ip_serializer option" where
  "ipv4_add_ip start end country s = add_ip_generic ipv4_ops start end country 2 2 8 s"

definition ipv6_add_ip :: "u128 \<Rightarrow> u128 \<Rightarrow> nat \<Rightarrow> u128 ip_serializer \<Rightarrow> u128 ip_serializer option" where
  "ipv6_add_ip start end country s = add_ip_generic ipv6_ops start end country 3 3 16 s"

record country_block_serializer =
  ser_ipv4 :: "u32 ip_serializer"
  ser_ipv6 :: "u128 ip_serializer"

definition serializer_new :: country_block_serializer where
  "serializer_new =
     \<lparr>ser_ipv4 = ip_serializer_new 0xFFFFFFFE 0xFFFFFFFF,
      ser_ipv6 = ip_serializer_new 0xFFFFFFFFFFFFFFFFFFFFFFFFFFFFFFFE
                   0xFFFFFFFFFFFFFFFFFFFFFFFFFFFFFFFF\<rparr>"

definition serializer_add :: "country_block \<Rightarrow> country_block_serializer \<Rightarrow> country_block_serializer option" where
  "serializer_add block s =
     (case block_range block of
        RangeV4 start end \<Rightarrow> do {
          v4 \<leftarrow> ipv4_add_ip start end (country_index (block_country block)) (ser_ipv4 s);
          Some (s\<lparr>ser_ipv4 := v4\<rparr>) }
      | RangeV6 start end \<Rightarrow> do {
          v6 \<leftarrow> ipv6_add_ip start end (country_index (block_country block)) (ser_ipv6 s);
          Some (s\<lparr>ser_ipv6 := v6\<rparr>) })"

record final_bit_queue =
  final_queue :: bit_queue
  final_block_count :: nat

definition final_default :: final_bit_queue where
  "final_default = \<lparr>final_queue = new_queue, final_block_count = 0\<rparr>"

definition serializer_finish ::
  "country_block_serializer \<Rightarrow> (final_bit_queue \<times> final_bit_queue) option" where
  "serializer_finish s = do {
     let last_ipv4 = 0xFFFFFFFF;
     let last_ipv6 = 0xFFFFFFFFFFFFFFFFFFFFFFFFFFFFFFFF;
     v4 \<leftarrow> (if prev_end (ser_ipv4 s) \<noteq> last_ipv4
           then ipv4_add_ip (plus_one_ip4 (prev_end (ser_ipv4 s))) last_ipv4 0 (ser_ipv4 s)
           else Some (ser_ipv4 s));
     v6 \<leftarrow> (if prev_end (ser_ipv6 s) \<noteq> last_ipv6
           then ipv6_add_ip (plus_one_ip6 (prev_end (ser_ipv6 s))) last_ipv6 0 (ser_ipv6 s)
           else Some (ser_ipv6 s));
     Some (\<lparr>final_queue = ser_queue v4, final_block_count = ser_block_count v4\<rparr>,
           \<lparr>final_queue = ser_queue v6, final_block_count = ser_block_count v6\<rparr>) }"

section \<open>Deserializer\<close>

record 'ip stream_record =
  rec_start :: 'ip
  rec_country_idx :: nat

fun apply_differences :: "('ip, 'seg) ip_ops \<Rightarrow> difference list \<Rightarrow> 'seg list \<Rightarrow> 'seg list option" where
  "apply_differences ops [] segments = Some segments"
| "apply_differences ops (d # ds) segments =
     (case seg_try_from ops (diff_value d) of
        None \<Rightarrow> None
      | Some v \<Rightarrow>
          if diff_index d < length segments
          then apply_differences ops ds (segments[diff_index d := v])
          else None)"

definition stream_record_new ::
  "('ip, 'seg) ip_ops \<Rightarrow> difference list \<Rightarrow> 'seg list \<Rightarrow> nat \<Rightarrow> 'ip stream_record option" where
  "stream_record_new ops differences segments country_idx = do {
     segments \<leftarrow> apply_differences ops differences segments;
     Some \<lparr>rec_start = ip_from_segments ops segments, rec_country_idx = country_idx\<rparr> }"

fun read_differences_generic ::
  "nat \<Rightarrow> nat \<Rightarrow> nat \<Rightarrow> bit_queue \<Rightarrow> (difference list \<times> bit_queue) option" where
  "read_differences_generic 0 index_bit_count value_bit_count q = Some ([], q)"
| "read_differences_generic (Suc n) index_bit_count value_bit_count q = do {
     (index_opt, q) \<leftarrow> take_bits index_bit_count q;
     case index_opt of
       None \<Rightarrow> read_differences_generic n index_bit_count value_bit_count q
     | Some index \<Rightarrow> do {
         (value_opt, q) \<leftarrow> take_bits value_bit_count q;
         case value_opt of
           None \<Rightarrow> read_differences_generic n index_bit_count value_bit_count q
         | Some v \<Rightarrow> do {
             (ds, q) \<leftarrow> read_differences_generic n index_bit_count value_bit_count q;
             Some (\<lparr>diff_index = unat index, diff_value = v\<rparr> # ds, q) } } }"

definition read_difference_count ::
  "('ip, 'seg) ip_ops \<Rightarrow> bit_queue \<Rightarrow> (nat option \<times> bit_queue) option" where
  "read_difference_count ops q = do {
     (n, q) \<leftarrow> take_bits (difference_count_bits ops) q;
     Some (map_option (\<lambda>n. unat (n + 1)) n, q) }"

definition get_record_generic ::
  "('ip, 'seg) ip_ops \<Rightarrow> bit_queue \<Rightarrow> 'ip \<Rightarrow> ('ip stream_record option \<times> bit_queue) option" where
  "get_record_generic ops q start = do {
     (count_opt, q) \<leftarrow> read_difference_count ops q;
     case count_opt of
       None \<Rightarrow> Some (None, q)
     | Some difference_count \<Rightarrow> do {
         (differences, q) \<leftarrow>
           read_differences_generic difference_count (index_bits ops) (value_bits ops) q;
         if length differences < difference_count then Some (None, q)
         else do {
           (country_opt, q) \<leftarrow> take_bits 9 q;
           case country_opt of
             None \<Rightarrow> Some (None, q)
           | Some country \<Rightarrow> do {
               r \<leftarrow> stream_record_new ops differences (ip_segments ops start) (unat country);
               Some (Some r, q) } } } }"

record 'ip deserializer =
  des_countries :: countries
  prev_record :: "'ip stream_record"
  des_queue :: bit_queue
  des_empty :: bool

fun refill :: "u64 list \<Rightarrow> nat \<Rightarrow> bit_queue \<Rightarrow> bit_queue option" where
  "refill country_data bit_count q =
     (if 64 \<le> bit_count
      then (case country_data of
              [] \<Rightarrow> None
            | d # rest \<Rightarrow> do { q \<leftarrow> add_bits d 64 q; refill rest (bit_count - 64) q })
      else if 0 < bit_count
      then (case country_data of [] \<Rightarrow> None | d # rest \<Rightarrow> add_bits d bit_count q)
      else Some q)"

declare refill.simps [simp del]

definition bit_queue_from_country_data :: "u64 list \<times> nat \<Rightarrow> bit_queue option" where
  "bit_queue_from_country_data country_data_pair =
     (case country_data_pair of (country_data, bit_count) \<Rightarrow> refill country_data bit_count new_queue)"

definition deserializer_new_generic ::
  "('ip, 'seg) ip_ops \<Rightarrow> u64 list \<times> nat \<Rightarrow> 'ip \<Rightarrow> countries \<Rightarrow> 'ip deserializer option" where
  "deserializer_new_generic ops country_data previous_start cs = do {
     q \<leftarrow> bit_queue_from_country_data country_data;
     (r, q) \<leftarrow> get_record_generic ops q previous_start;
     case r of
       None \<Rightarrow> None
     | Some r \<Rightarrow> Some \<lparr>des_countries = cs, prev_record = r, des_queue = q, des_empty = False\<rparr> }"

definition country_at :: "countries \<Rightarrow> nat \<Rightarrow> country option" where
  "country_at cs idx = (case country_from_index cs idx of Inl _ \<Rightarrow> None | Inr c \<Rightarrow> Some c)"

definition next_generic ::
  "('ip, 'seg) ip_ops \<Rightarrow> 'ip deserializer \<Rightarrow> (country_block option \<times> 'ip deserializer) option" where
  "next_generic ops d =
     (if des_empty d then Some (None, d)
      else do {
        (next_opt, q) \<leftarrow> get_record_generic ops (des_queue d) (rec_start (prev_record d));
        let d = d\<lparr>des_queue := q\<rparr>;
        case next_opt of
          Some next_record \<Rightarrow> do {
            c \<leftarrow> country_at (des_countries d) (rec_country_idx (prev_record d));
            Some (Some \<lparr>block_range = range_from ops (rec_start (prev_record d))
                                        (minus_one_ip ops (rec_start next_record)),
                        block_country = c\<rparr>,
                  d\<lparr>prev_record := next_record\<rparr>) }
        | None \<Rightarrow> do {
            c \<leftarrow> country_at (des_countries d) (rec_country_idx (prev_record d));
            Some (Some \<lparr>block_range = range_from ops (rec_start (prev_record d)) (max_ip_value ops),
                        block_country = c\<rparr>,
                  d\<lparr>des_empty := True\<rparr>) } })"

text \<open>Draining the iterator; \<^term>\<open>None\<close> is a panic or an iterator that never ends.\<close>

partial_function (option) collect_blocks ::
  "('ip, 'seg) ip_ops \<Rightarrow> 'ip deserializer \<Rightarrow> country_block list option" where
  "collect_blocks ops d = do {
     (block_opt, d) \<leftarrow> next_generic ops d;
     case block_opt of
       None \<Rightarrow> Some []
     | Some block \<Rightarrow> do { rest \<leftarrow> collect_blocks ops d; Some (block # rest) } }"

definition ipv4_deserialize :: "u64 list \<times> nat \<Rightarrow> countries \<Rightarrow> country_block list option" where
  "ipv4_deserialize data cs = do {
     d \<leftarrow> deserializer_new_generic ipv4_ops data 0xFFFFFFFE cs;
     collect_blocks ipv4_ops d }"

definition ipv6_deserialize :: "u64 list \<times> nat \<Rightarrow> countries \<Rightarrow> country_block list option" where
  "ipv6_deserialize data cs = do {
     d \<leftarrow> deserializer_new_generic ipv6_ops data 0xFFFFFFFFFFFFFFFFFFFFFFFFFFFFFFFE cs;
     collect_blocks ipv6_ops d }"

section \<open>Parts and addresses\<close>

lemma parts_word_snoc:
  "(parts_word (ps @ [p]) :: 'a::len word) = push_bit LENGTH('b) (parts_word ps) OR ucast (p :: 'b::len word)"
  by (simp add: parts_word_def)

lemma bit_parts_word:
  "bit (parts_word (ps :: 'b::len word list) :: 'a::len word) i \<longleftrightarrow>
     i < LENGTH('a) \<and> i < LENGTH('b) * length ps \<and>
     bit (rev ps ! (i div LENGTH('b))) (i mod LENGTH('b))"
proof (induction ps arbitrary: i rule: rev_induct)
  case Nil
  then show ?case by (simp add: parts_word_def)
next
  case (snoc p ps)
  show ?case
  proof (cases "i < LENGTH('b)")
    case True
    then show ?thesis
      by (auto simp: parts_word_snoc bit_or_iff bit_push_bit_iff bit_ucast_iff dest: bit_imp_le_length)
  next
    case False
    then have "i div LENGTH('b) = Suc ((i - LENGTH('b)) div LENGTH('b))"
      "i mod LENGTH('b) = (i - LENGTH('b)) mod LENGTH('b)"
      by (simp_all add: le_div_geq le_mod_geq)
    with False snoc [of "i - LENGTH('b)"] show ?thesis
      by (auto simp: parts_word_snoc bit_or_iff bit_push_bit_iff bit_ucast_iff dest: bit_imp_le_length)
  qed
qed

lemma rev_word_parts_nth:
  "i < n \<Longrightarrow> rev (word_parts n w :: 'b::len word list) ! i = ucast (drop_bit (LENGTH('b) * i) w)"
  by (simp add: word_parts_def rev_nth)

lemma length_word_parts [simp]: "length (word_parts n w) = n"
  by (simp add: word_parts_def)

lemma parts_word_parts:
  assumes "LENGTH('b::len) * n = LENGTH('a::len)"
  shows "parts_word (word_parts n (w :: 'a word) :: 'b word list) = w"
proof (rule bit_word_eqI)
  fix i assume i: "i < LENGTH('a)"
  then have "i div LENGTH('b) < n"
    using assms by (simp add: less_mult_imp_div_less mult.commute)
  then show "bit (parts_word (word_parts n w :: 'b word list) :: 'a word) i = bit w i"
    using i assms by (simp add: bit_parts_word rev_word_parts_nth bit_ucast_iff bit_drop_bit_eq)
qed

lemma word_parts_word:
  assumes "LENGTH('b::len) * length ps = LENGTH('a::len)"
  shows "word_parts (length ps) (parts_word (ps :: 'b word list) :: 'a word) = ps"
proof (rule nth_equalityI)
  fix k assume "k < length (word_parts (length ps) (parts_word ps :: 'a word) :: 'b word list)"
  then have k: "k < length ps" by simp
  show "word_parts (length ps) (parts_word ps :: 'a word) ! k = ps ! k"
  proof (rule bit_word_eqI)
    fix i assume i: "i < LENGTH('b)"
    define j where "j = length ps - Suc k"
    from k have j: "j < length ps" and kj: "k = length ps - Suc j" by (simp_all add: j_def)
    have "LENGTH('b) * j + i < LENGTH('b) * Suc j" using i by simp
    also have "\<dots> \<le> LENGTH('b) * length ps" using j by (intro mult_le_mono2) simp
    finally have "LENGTH('b) * j + i < LENGTH('b) * length ps" .
    then show "bit (word_parts (length ps) (parts_word ps :: 'a word) ! k :: 'b word) i = bit (ps ! k) i"
      using i j assms k
      by (simp add: word_parts_def bit_ucast_iff bit_drop_bit_eq bit_parts_word rev_nth kj)
  qed
qed simp

lemma integer_from_ip4 [simp]: "integer_from_ip_generic octets4 ip = (ip :: u32)"
  using parts_word_parts [where 'a = 32 and 'b = 8, of 4 ip]
  by (simp add: integer_from_ip_generic_def octets4_def parts_word_def)

lemma integer_from_ip6 [simp]: "integer_from_ip_generic octets6 ip = (ip :: u128)"
  using parts_word_parts [where 'a = 128 and 'b = 8, of 16 ip]
  by (simp add: integer_from_ip_generic_def octets6_def parts_word_def)

section \<open>The contract of an address family\<close>

text \<open>
  The specification side: the bits of one record, of a list of records, and the blocks
  a list of records stands for.
\<close>

definition diff_bits :: "('ip, 'seg) ip_ops \<Rightarrow> difference \<Rightarrow> bool list" where
  "diff_bits ops d =
     bits_upto (index_bits ops) (of_nat (diff_index d) :: u64) @ bits_upto (value_bits ops) (diff_value d)"

definition record_bits :: "('ip, 'seg) ip_ops \<Rightarrow> 'ip \<Rightarrow> 'ip \<times> nat \<Rightarrow> bool list" where
  "record_bits ops prev r =
     (let ds = ips_into_differences ops prev (fst r)
      in bits_upto (difference_count_bits ops) (of_nat (length ds - 1) :: u64) @
         concat (map (diff_bits ops) ds) @ bits_upto 9 (of_nat (snd r) :: u64))"

fun records_bits :: "('ip, 'seg) ip_ops \<Rightarrow> 'ip \<Rightarrow> ('ip \<times> nat) list \<Rightarrow> bool list" where
  "records_bits ops prev [] = []"
| "records_bits ops prev (r # rs) = record_bits ops prev r @ records_bits ops (fst r) rs"

fun spans :: "('a::len word \<times> nat) list \<Rightarrow> ('a word \<times> 'a word \<times> nat) list" where
  "spans [] = []"
| "spans ((s, c) # rs) = (s, (case rs of [] \<Rightarrow> - 1 | r # _ \<Rightarrow> fst r - 1), c) # spans rs"

fun starts_differ :: "'ip \<Rightarrow> ('ip \<times> nat) list \<Rightarrow> bool" where
  "starts_differ prev [] \<longleftrightarrow> True"
| "starts_differ prev (r # rs) \<longleftrightarrow> fst r \<noteq> prev \<and> snd r < 512 \<and> starts_differ (fst r) rs"

definition span_block ::
  "('ip, 'seg) ip_ops \<Rightarrow> countries \<Rightarrow> 'ip \<times> 'ip \<times> nat \<Rightarrow> country_block" where
  "span_block ops cs = (\<lambda>(s, e, c).
     \<lparr>block_range = range_from ops s e, block_country = country_list cs ! c\<rparr>)"

text \<open>
  The blocks given to the serializer are triples of first address, last address and
  country index.  They must come in increasing order and not overlap.  \<open>gap_records\<close>
  are the records the serializer writes for them, \<open>filled\<close> the blocks these records
  stand for: the blocks themselves and a sentinel block (country 0) in every gap.
\<close>

fun ordered_after :: "'a::len word \<Rightarrow> ('a word \<times> 'a word \<times> nat) list \<Rightarrow> bool" where
  "ordered_after pe [] \<longleftrightarrow> True"
| "ordered_after pe ((s, e, c) # bs) \<longleftrightarrow> pe < s \<and> s \<le> e \<and> c < 512 \<and> ordered_after e bs"

fun ordered_blocks :: "('a::len word \<times> 'a word \<times> nat) list \<Rightarrow> bool" where
  "ordered_blocks [] \<longleftrightarrow> True"
| "ordered_blocks ((s, e, c) # bs) \<longleftrightarrow> s \<le> e \<and> c < 512 \<and> ordered_after e bs"

fun block_records :: "'a::len word \<Rightarrow> ('a word \<times> 'a word \<times> nat) list \<Rightarrow> ('a word \<times> nat) list" where
  "block_records pe [] = []"
| "block_records pe ((s, e, c) # bs) =
     (if s \<noteq> pe + 1 then [(pe + 1, 0)] else []) @ (s, c) # block_records e bs"

fun last_end :: "'a::len word \<Rightarrow> ('a word \<times> 'a word \<times> nat) list \<Rightarrow> 'a word" where
  "last_end pe [] = pe"
| "last_end pe ((s, e, c) # bs) = last_end e bs"

definition final_records :: "'a::len word \<Rightarrow> ('a word \<times> nat) list" where
  "final_records pe = (if pe = - 1 then [] else [(pe + 1, 0)])"

definition all_records :: "('a::len word \<times> 'a word \<times> nat) list \<Rightarrow> ('a word \<times> nat) list" where
  "all_records bs = block_records (- 1) bs @ final_records (last_end (- 1) bs)"

fun filled_after :: "'a::len word \<Rightarrow> ('a word \<times> 'a word \<times> nat) list \<Rightarrow> ('a word \<times> 'a word \<times> nat) list" where
  "filled_after pe [] = (if pe = - 1 then [] else [(pe + 1, - 1, 0)])"
| "filled_after pe ((s, e, c) # bs) =
     (if s \<noteq> pe + 1 then [(pe + 1, s - 1, 0)] else []) @ (s, e, c) # filled_after e bs"

lemma spans_filled_after:
  "ordered_after pe bs \<Longrightarrow>
   spans (block_records pe bs @ final_records (last_end pe bs)) = filled_after pe bs \<and>
   (case block_records pe bs @ final_records (last_end pe bs) of [] \<Rightarrow> - 1 | r # _ \<Rightarrow> fst r - 1) = pe"
proof (induction bs arbitrary: pe)
  case Nil
  then show ?case by (simp add: final_records_def)
next
  case (Cons b bs)
  then show ?case by (cases b) simp
qed

lemma spans_all_records: "ordered_blocks bs \<Longrightarrow> bs \<noteq> [] \<Longrightarrow> spans (all_records bs) = filled_after (- 1) bs"
  using spans_filled_after by (cases bs rule: ordered_blocks.cases) (auto simp: all_records_def)

lemma starts_differ_append:
  "starts_differ p (xs @ ys) \<longleftrightarrow> starts_differ p xs \<and> starts_differ (last (p # map fst xs)) ys"
  by (induction xs arbitrary: p) auto

lemma records_bits_append:
  "records_bits ops p (xs @ ys) = records_bits ops p xs @ records_bits ops (last (p # map fst xs)) ys"
  by (induction xs arbitrary: p) auto

fun add_ips ::
  "('ip, 'seg) ip_ops \<Rightarrow> nat \<Rightarrow> nat \<Rightarrow> nat \<Rightarrow> ('ip \<times> 'ip \<times> nat) list \<Rightarrow> 'ip ip_serializer \<Rightarrow>
   'ip ip_serializer option" where
  "add_ips ops dbits ibits vbits [] s = Some s"
| "add_ips ops dbits ibits vbits ((st, en, c) # bs) s = do {
     s \<leftarrow> add_ip_generic ops st en c dbits ibits vbits s;
     add_ips ops dbits ibits vbits bs s }"

definition ser_rel ::
  "('ip, 'seg) ip_ops \<Rightarrow> 'ip \<Rightarrow> ('ip \<times> nat) list \<Rightarrow> 'ip ip_serializer \<Rightarrow> bool" where
  "ser_rel ops p rs s \<longleftrightarrow> queue_ok (ser_queue s) \<and> queue_bits (ser_queue s) = records_bits ops p rs \<and>
     prev_start s = last (p # map fst rs) \<and> ser_block_count s = length rs"

locale ip_family =
  fixes ops :: "('a::len word, 'seg) ip_ops"
    and count :: nat
  assumes index_count: "2 ^ index_bits ops = count"
    and difference_count: "2 ^ difference_count_bits ops = count"
    and difference_pos: "0 < difference_count_bits ops"
    and index_width: "index_bits ops < 64"
    and difference_width: "difference_count_bits ops < 64"
    and value_width: "value_bits ops \<le> 64"
    and segments_count: "length (ip_segments ops ip) = count"
    and from_segments: "ip_from_segments ops (ip_segments ops ip) = ip"
    and segment_value: "seg_try_from ops (u64_from_seg ops v) = Some v"
    and segment_fits: "fits (value_bits ops) (u64_from_seg ops v)"
    and plus_one: "plus_one_ip ops ip = ip + 1"
    and minus_one: "minus_one_ip ops ip = ip - 1"
    and max_value: "max_ip_value ops = - 1"
    and initial_start: "(- 2 :: 'a word) \<noteq> 0"
begin

lemma differences_general:
  "length xs = length ys \<Longrightarrow>
   apply_differences ops
     (List.map_filter (\<lambda>(i, f, t). if t = f then None
        else Some \<lparr>diff_index = i, diff_value = u64_from_seg ops t\<rparr>)
       (enumerate (length ps) (zip xs ys))) (ps @ xs) = Some (ps @ ys)"
proof (induction xs ys arbitrary: ps rule: list_induct2)
  case Nil
  then show ?case by (simp add: map_filter_def)
next
  case (Cons x xs y ys)
  from Cons.IH [of "ps @ [y]"] show ?case
    by (cases "y = x") (simp_all add: map_filter_simps segment_value)
qed

lemma apply_differences_ok:
  "apply_differences ops (ips_into_differences ops a b) (ip_segments ops a) = Some (ip_segments ops b)"
  using differences_general [of "ip_segments ops a" "ip_segments ops b" "[]"]
  by (simp add: ips_into_differences_def segments_count)

lemma stream_record_new_ok:
  "stream_record_new ops (ips_into_differences ops a b) (ip_segments ops a) c =
     Some \<lparr>rec_start = b, rec_country_idx = c\<rparr>"
  by (simp add: stream_record_new_def apply_differences_ok from_segments)

lemma differences_nonempty: "a \<noteq> b \<Longrightarrow> ips_into_differences ops a b \<noteq> []"
  using apply_differences_ok [of a b] from_segments by (metis apply_differences.simps(1) option.inject)

lemma differences_length: "length (ips_into_differences ops a b) \<le> count"
proof -
  have "length (ips_into_differences ops a b) \<le> length (enumerate 0 (zip (ip_segments ops a) (ip_segments ops b)))"
    unfolding ips_into_differences_def map_filter_def by (simp only: length_map length_filter_le)
  then show ?thesis by (simp add: segments_count)
qed

lemma differences_count:
  assumes "a \<noteq> b"
  shows "1 \<le> length (ips_into_differences ops a b)"
    "length (ips_into_differences ops a b) - 1 < 2 ^ difference_count_bits ops"
proof -
  show "1 \<le> length (ips_into_differences ops a b)"
    using differences_nonempty [OF assms] by (simp add: Suc_le_eq)
  with differences_length [of a b]
  show "length (ips_into_differences ops a b) - 1 < 2 ^ difference_count_bits ops"
    unfolding difference_count by linarith
qed

lemma differences_members:
  assumes "d \<in> set (ips_into_differences ops a b)"
  shows "diff_index d < count" "fits (value_bits ops) (diff_value d)"
  using assms segments_count
  by (auto simp: ips_into_differences_def map_filter_def in_set_enumerate_eq segment_fits split: if_splits)

lemma fits_index: "i < count \<Longrightarrow> fits (index_bits ops) (of_nat i :: u64)"
  by (simp add: fits_of_nat index_count)

subsection \<open>Writing records\<close>

lemma add_differences_ok:
  assumes "queue_ok q" "\<And>d. d \<in> set ds \<Longrightarrow> diff_index d < count \<and> fits (value_bits ops) (diff_value d)"
  shows "\<exists>q'. add_differences (index_bits ops) (value_bits ops) ds q = Some q' \<and> queue_ok q' \<and>
    queue_bits q' = queue_bits q @ concat (map (diff_bits ops) ds)"
  using assms
proof (induction ds arbitrary: q)
  case Nil
  then show ?case by simp
next
  case (Cons d ds)
  obtain q1 where q1: "add_bits (of_nat (diff_index d)) (index_bits ops) q = Some q1" "queue_ok q1"
    "queue_bits q1 = queue_bits q @ bits_upto (index_bits ops) (of_nat (diff_index d) :: u64)"
    using bq.add_law [OF Cons.prems(1) _ fits_index] index_width Cons.prems(2) by fastforce
  obtain q2 where q2: "add_bits (diff_value d) (value_bits ops) q1 = Some q2" "queue_ok q2"
    "queue_bits q2 = queue_bits q1 @ bits_upto (value_bits ops) (diff_value d)"
    using bq.add_law [OF q1(2) value_width] Cons.prems(2) by fastforce
  show ?case using Cons.IH [OF q2(2)] Cons.prems(2) q1 q2 by (simp add: diff_bits_def)
qed

lemma add_record_ok:
  assumes "queue_ok (ser_queue s)" "prev_start s \<noteq> start" "c < 512"
  obtains q where "add_record ops start end c (difference_count_bits ops) (index_bits ops) (value_bits ops) s =
      Some \<lparr>prev_start = start, prev_end = end, ser_block_count = ser_block_count s + 1, ser_queue = q\<rparr>"
    "queue_ok q" "queue_bits q = queue_bits (ser_queue s) @ record_bits ops (prev_start s) (start, c)"
proof -
  define ds where "ds = ips_into_differences ops (prev_start s) start"
  have len: "1 \<le> length ds" "length ds - 1 < 2 ^ difference_count_bits ops"
    using differences_count [OF assms(2)] by (simp_all add: ds_def)
  obtain q1 where q1: "add_bits (of_nat (length ds - 1)) (difference_count_bits ops) (ser_queue s) = Some q1"
    "queue_ok q1"
    "queue_bits q1 = queue_bits (ser_queue s) @ bits_upto (difference_count_bits ops) (of_nat (length ds - 1) :: u64)"
    using bq.add_law [OF assms(1) _ fits_of_nat [OF len(2)]] difference_width by fastforce
  obtain q2 where q2: "add_differences (index_bits ops) (value_bits ops) ds q1 = Some q2" "queue_ok q2"
    "queue_bits q2 = queue_bits q1 @ concat (map (diff_bits ops) ds)"
    using add_differences_ok [OF q1(2), of ds] differences_members by (auto simp: ds_def)
  obtain q3 where q3: "add_bits (of_nat c) 9 q2 = Some q3" "queue_ok q3"
    "queue_bits q3 = queue_bits q2 @ bits_upto 9 (of_nat c :: u64)"
    using bq.add_law [OF q2(2) _ fits_of_nat [of c 9]] assms(3) by fastforce
  show ?thesis
    using that [of q3] q1 q2 q3 len(1)
    by (simp add: add_record_def record_bits_def Let_def usub_Some flip: ds_def)
qed

subsection \<open>Reading records\<close>

lemma read_differences_ok:
  assumes "queue_ok q" "queue_bits q = concat (map (diff_bits ops) ds) @ rest"
    "\<And>d. d \<in> set ds \<Longrightarrow> diff_index d < count \<and> fits (value_bits ops) (diff_value d)"
  shows "\<exists>q'. read_differences_generic (length ds) (index_bits ops) (value_bits ops) q = Some (ds, q') \<and>
    queue_ok q' \<and> queue_bits q' = rest"
  using assms
proof (induction ds arbitrary: q)
  case Nil
  then show ?case by simp
next
  case (Cons d ds)
  have d: "diff_index d < count" "fits (value_bits ops) (diff_value d)" using Cons.prems(3) by auto
  obtain q1 where q1: "take_bits (index_bits ops) q = Some (Some (of_nat (diff_index d)), q1)" "queue_ok q1"
    "queue_bits q1 = bits_upto (value_bits ops) (diff_value d) @ concat (map (diff_bits ops) ds) @ rest"
  proof -
    have "queue_bits q = bits_upto (index_bits ops) (of_nat (diff_index d) :: u64) @
        bits_upto (value_bits ops) (diff_value d) @ concat (map (diff_bits ops) ds) @ rest"
      using Cons.prems(2) by (simp add: diff_bits_def [of ops d])
    from bq.take_added [OF Cons.prems(1) _ fits_index [OF d(1)] this] index_width that
    show thesis by auto
  qed
  obtain q2 where q2: "take_bits (value_bits ops) q1 = Some (Some (diff_value d), q2)" "queue_ok q2"
    "queue_bits q2 = concat (map (diff_bits ops) ds) @ rest"
    using bq.take_added [OF q1(2) value_width d(2) q1(3)] by auto
  have "(2::nat) ^ index_bits ops < 2 ^ 64" using index_width by (intro power_strict_increasing) simp_all
  then have "unat (of_nat (diff_index d) :: u64) = diff_index d"
    using d(1) index_count by (simp add: unat_of_nat)
  then show ?case using Cons.IH [OF q2(2,3)] Cons.prems(3) q1 q2 by auto
qed

lemma get_record_ok:
  assumes "queue_ok q" "queue_bits q = record_bits ops prev r @ rest" "fst r \<noteq> prev" "snd r < 512"
  obtains q' where "get_record_generic ops q prev =
      Some (Some \<lparr>rec_start = fst r, rec_country_idx = snd r\<rparr>, q')"
    "queue_ok q'" "queue_bits q' = rest"
proof -
  define ds where "ds = ips_into_differences ops prev (fst r)"
  have len: "1 \<le> length ds" "length ds - 1 < 2 ^ difference_count_bits ops"
    using differences_count [OF assms(3) [symmetric]] by (simp_all add: ds_def)
  obtain q1 where q1: "take_bits (difference_count_bits ops) q = Some (Some (of_nat (length ds - 1)), q1)"
    "queue_ok q1" "queue_bits q1 = concat (map (diff_bits ops) ds) @ bits_upto 9 (of_nat (snd r) :: u64) @ rest"
  proof -
    have "queue_bits q = bits_upto (difference_count_bits ops) (of_nat (length ds - 1) :: u64) @
        concat (map (diff_bits ops) ds) @ bits_upto 9 (of_nat (snd r) :: u64) @ rest"
      using assms(2) by (simp add: record_bits_def Let_def ds_def)
    from bq.take_added [OF assms(1) _ fits_of_nat [OF len(2)] this] difference_width that
    show thesis by auto
  qed
  obtain q2 where q2: "read_differences_generic (length ds) (index_bits ops) (value_bits ops) q1 = Some (ds, q2)"
    "queue_ok q2" "queue_bits q2 = bits_upto 9 (of_nat (snd r) :: u64) @ rest"
    using read_differences_ok [OF q1(2,3)] differences_members by (auto simp: ds_def)
  obtain q3 where q3: "take_bits 9 q2 = Some (Some (of_nat (snd r)), q3)" "queue_ok q3" "queue_bits q3 = rest"
    using bq.take_added [OF q2(2) _ fits_of_nat [of "snd r" 9] q2(3)] assms(4) by auto
  have "(2::nat) ^ difference_count_bits ops < 2 ^ 64"
    using difference_width by (intro power_strict_increasing) simp_all
  then have "length ds < 2 ^ 64" using len by linarith
  moreover have "of_nat (length ds - 1) + 1 = (of_nat (length ds) :: u64)"
    using len(1) by (cases "length ds") simp_all
  ultimately have "unat (of_nat (length ds - 1) + 1 :: u64) = length ds"
    by (simp add: unat_of_nat)
  moreover have "unat (of_nat (snd r) :: u64) = snd r" using assms(4) by (simp add: unat_of_nat)
  ultimately show ?thesis
    using that [of q3] q1 q2 q3
    by (simp add: get_record_generic_def read_difference_count_def stream_record_new_ok
        Option.bind.simps ds_def)
qed

lemma get_record_end:
  assumes "queue_ok q" "queue_bits q = []"
  shows "get_record_generic ops q prev = Some (None, q)"
  using bq.take_short_law [OF assms(1), of "difference_count_bits ops"] assms(2)
    difference_pos difference_width
  by (simp add: get_record_generic_def read_difference_count_def)


subsection \<open>Draining the deserializer\<close>

lemma collect_blocks_ok:
  assumes "queue_ok q" "queue_bits q = records_bits ops (fst r) rs" "starts_differ (fst r) rs"
    "\<And>x. x \<in> set (r # rs) \<Longrightarrow> snd x < length (country_list cs)"
  shows "collect_blocks ops \<lparr>des_countries = cs,
      prev_record = \<lparr>rec_start = fst r, rec_country_idx = snd r\<rparr>, des_queue = q, des_empty = False\<rparr> =
    Some (map (span_block ops cs) (spans (r # rs)))"
  using assms
proof (induction rs arbitrary: r q)
  case Nil
  then show ?case
    using get_record_end [of q "fst r"]
    by (cases r)
      (simp add: collect_blocks.simps next_generic_def country_at_def country_from_index_def span_block_def
        max_value)
next
  case (Cons r' rs)
  obtain q' where q': "get_record_generic ops q (fst r) =
      Some (Some \<lparr>rec_start = fst r', rec_country_idx = snd r'\<rparr>, q')"
    "queue_ok q'" "queue_bits q' = records_bits ops (fst r') rs"
    by (rule get_record_ok [OF Cons.prems(1), of "fst r" r' "records_bits ops (fst r') rs"])
      (use Cons.prems in auto)
  have "collect_blocks ops \<lparr>des_countries = cs,
      prev_record = \<lparr>rec_start = fst r', rec_country_idx = snd r'\<rparr>, des_queue = q', des_empty = False\<rparr> =
    Some (map (span_block ops cs) (spans (r' # rs)))"
    using Cons.prems q' by (intro Cons.IH) auto
  moreover have "snd r < length (country_list cs)" using Cons.prems(4) by simp
  ultimately show ?case
    using q'(1)
    by (subst collect_blocks.simps, cases r)
      (simp add: next_generic_def country_at_def country_from_index_def span_block_def minus_one Let_def)
qed

subsection \<open>Serializing a list of blocks\<close>

lemma ser_rel_add_record:
  assumes "ser_rel ops p rs s" "starts_differ (prev_start s) [(start, c)]"
  obtains s' where "add_record ops start end c (difference_count_bits ops) (index_bits ops) (value_bits ops) s = Some s'"
    "ser_rel ops p (rs @ [(start, c)]) s'" "prev_start s' = start" "prev_end s' = end"
proof -
  obtain q where q: "add_record ops start end c (difference_count_bits ops) (index_bits ops) (value_bits ops) s =
      Some \<lparr>prev_start = start, prev_end = end, ser_block_count = ser_block_count s + 1, ser_queue = q\<rparr>"
    "queue_ok q" "queue_bits q = queue_bits (ser_queue s) @ record_bits ops (prev_start s) (start, c)"
    by (rule add_record_ok [of s start c "end"]) (use assms in \<open>auto simp: ser_rel_def\<close>)
  show ?thesis
    by (rule that [OF q(1)]) (use assms q in \<open>auto simp: ser_rel_def records_bits_append\<close>)
qed

lemma ser_rel_add_ip:
  assumes rel: "ser_rel ops p rs s"
    and differ: "starts_differ (prev_start s) (block_records (prev_end s) [(start, end, c)])"
  obtains s' where
    "add_ip_generic ops start end c (difference_count_bits ops) (index_bits ops) (value_bits ops) s = Some s'"
    "ser_rel ops p (rs @ block_records (prev_end s) [(start, end, c)]) s'" "prev_start s' = start" "prev_end s' = end"
proof (cases "start = prev_end s + 1")
  case True
  obtain s' where "add_record ops start end c (difference_count_bits ops) (index_bits ops) (value_bits ops) s = Some s'"
    "ser_rel ops p (rs @ [(start, c)]) s'" "prev_start s' = start" "prev_end s' = end"
    by (rule ser_rel_add_record [OF rel]) (use differ True in auto)
  with True show ?thesis using that [of s']
    by (simp add: add_ip_generic.simps [of _ "prev_end s + 1"] plus_one)
next
  case False
  obtain s1 where s1: "add_record ops (prev_end s + 1) (start - 1) 0 (difference_count_bits ops) (index_bits ops) (value_bits ops) s = Some s1"
    "ser_rel ops p (rs @ [(prev_end s + 1, 0)]) s1" "prev_start s1 = prev_end s + 1" "prev_end s1 = start - 1"
    by (rule ser_rel_add_record [OF rel, of "prev_end s + 1" 0 "start - 1"]) (use differ False in auto)
  obtain s2 where s2: "add_record ops start end c (difference_count_bits ops) (index_bits ops) (value_bits ops) s1 = Some s2"
    "ser_rel ops p ((rs @ [(prev_end s + 1, 0)]) @ [(start, c)]) s2" "prev_start s2 = start" "prev_end s2 = end"
    by (rule ser_rel_add_record [OF s1(2)]) (use differ False s1 in auto)
  have "add_ip_generic ops (prev_end s + 1) (start - 1) 0 (difference_count_bits ops) (index_bits ops) (value_bits ops) s = Some s1"
    using s1(1) by (simp add: add_ip_generic.simps [of _ "prev_end s + 1"] plus_one)
  then show ?thesis using that [of s2] s2 False
    by (simp add: add_ip_generic.simps [of _ start] plus_one minus_one)
qed

lemma ordered_records_differ:
  assumes "ordered_after pe [(s, e, c)] \<or> pe = - 1 \<and> ps = - 2" "ps \<le> pe" "c < 512"
  shows "starts_differ (ps :: 'a word) (block_records pe [(s, e, c)])"
proof (cases "pe = - 1")
  case True
  then show ?thesis using assms initial_start by auto
next
  case False
  then have "pe < pe + 1" "pe < s" "s \<le> e" using assms(1) by (auto intro: word_less_plus_one)
  then show ?thesis using assms(2,3) by auto
qed

lemma add_ips_ok:
  assumes "ser_rel ops p rs s" "prev_start s \<le> prev_end s"
    "ordered_after (prev_end s) bs \<or> ordered_blocks bs \<and> prev_end s = - 1 \<and> prev_start s = - 2"
  shows "\<exists>s'. add_ips ops (difference_count_bits ops) (index_bits ops) (value_bits ops) bs s = Some s' \<and>
     ser_rel ops p (rs @ block_records (prev_end s) bs) s' \<and>
     prev_end s' = last_end (prev_end s) bs \<and> prev_start s' \<le> prev_end s' \<and> (bs \<noteq> [] \<longrightarrow> rs @ block_records (prev_end s) bs \<noteq> [])"
  using assms
proof (induction bs arbitrary: s rs)
  case Nil
  then show ?case by simp
next
  case (Cons b bs)
  obtain st en c where b: "b = (st, en, c)" by (cases b)
  obtain s1 where s1:
    "add_ip_generic ops st en c (difference_count_bits ops) (index_bits ops) (value_bits ops) s = Some s1"
    "ser_rel ops p (rs @ block_records (prev_end s) [(st, en, c)]) s1" "prev_start s1 = st" "prev_end s1 = en"
    by (rule ser_rel_add_ip [OF Cons.prems(1)], rule ordered_records_differ)
      (use Cons.prems b in auto)
  have "st \<le> en" "ordered_after en bs" using Cons.prems(3) b by auto
  with Cons.IH [OF s1(2)] s1 b show ?case by auto
qed

lemma finish_ok:
  assumes "ser_rel ops p rs s" "prev_start s \<le> prev_end s"
  shows "\<exists>s'. (if prev_end s \<noteq> - 1
     then add_ip_generic ops (prev_end s + 1) (- 1) 0 (difference_count_bits ops) (index_bits ops) (value_bits ops) s
     else Some s) = Some s' \<and> ser_rel ops p (rs @ final_records (prev_end s)) s'"
proof (cases "prev_end s = - 1")
  case True
  then show ?thesis using assms by (simp add: final_records_def)
next
  case False
  then have "prev_end s < prev_end s + 1" by (rule word_less_plus_one)
  then have differ: "starts_differ (prev_start s) (block_records (prev_end s) [(prev_end s + 1, - 1, 0)])"
    using assms(2) by auto
  then obtain s' where "add_ip_generic ops (prev_end s + 1) (- 1) 0 (difference_count_bits ops) (index_bits ops)
      (value_bits ops) s = Some s'" "ser_rel ops p (rs @ block_records (prev_end s) [(prev_end s + 1, - 1, 0)]) s'"
    by (rule ser_rel_add_ip [OF assms(1)])
  with False show ?thesis by (simp add: final_records_def)
qed

lemma serialize_ok:
  assumes "ordered_blocks bs"
  obtains s s' where
    "add_ips ops (difference_count_bits ops) (index_bits ops) (value_bits ops) bs (ip_serializer_new (- 2) (- 1)) = Some s"
    "(if prev_end s \<noteq> - 1
      then add_ip_generic ops (prev_end s + 1) (- 1) 0 (difference_count_bits ops) (index_bits ops) (value_bits ops) s
      else Some s) = Some s'"
    "ser_rel ops (- 2) (all_records bs) s'"
proof -
  have init: "ser_rel ops (- 2) [] (ip_serializer_new (- 2) (- 1))"
    by (simp add: ser_rel_def ip_serializer_new_def queue_ok_new queue_bits_new)
  have "(- 2 :: 'a word) \<le> - 1" by simp
  with add_ips_ok [OF init, of bs] assms obtain s where s:
    "add_ips ops (difference_count_bits ops) (index_bits ops) (value_bits ops) bs (ip_serializer_new (- 2) (- 1)) = Some s"
    "ser_rel ops (- 2) (block_records (- 1) bs) s" "prev_end s = last_end (- 1) bs" "prev_start s \<le> prev_end s"
    by (auto simp: ip_serializer_new_def)
  with finish_ok [OF s(2,4)] that show ?thesis by (auto simp: all_records_def)
qed

subsection \<open>Round trip within a family\<close>

lemma records_differ:
  "ordered_after pe bs \<Longrightarrow> (ps :: 'a word) \<le> pe \<Longrightarrow>
   starts_differ ps (block_records pe bs @ final_records (last_end pe bs))"
proof (induction bs arbitrary: pe ps)
  case Nil
  then show ?case using word_less_plus_one [of pe] by (auto simp: final_records_def)
next
  case (Cons b bs)
  obtain s e c where b: "b = (s, e, c)" by (cases b)
  have "starts_differ ps (block_records pe [(s, e, c)])"
    by (rule ordered_records_differ) (use Cons.prems b in auto)
  moreover have "starts_differ s (block_records e bs @ final_records (last_end e bs))"
    using Cons.prems b by (intro Cons.IH) auto
  ultimately show ?case using b by (auto split: if_splits)
qed

lemma all_records_differ:
  assumes "ordered_blocks bs"
  shows "starts_differ (- 2 :: 'a word) (all_records bs)"
proof (cases bs rule: ordered_blocks.cases)
  case (2 s e c bs')
  then have "starts_differ s (block_records e bs' @ final_records (last_end e bs'))"
    using assms by (intro records_differ) auto
  moreover have "starts_differ (- 2 :: 'a word) (block_records (- 1) [(s, e, c)])"
    by (rule ordered_records_differ) (use assms 2 in auto)
  ultimately show ?thesis using 2 by (auto simp: all_records_def split: if_splits)
qed (simp add: all_records_def final_records_def)

lemma all_records_countries:
  assumes "x \<in> set (all_records bs)"
  shows "snd x = 0 \<or> (\<exists>s e. (s, e, snd x) \<in> set bs)"
proof -
  have "snd x = 0 \<or> (\<exists>s e. (s, e, snd x) \<in> set bs)" if "x \<in> set (block_records pe bs)" for pe
    using that by (induction pe bs rule: block_records.induct) (simp, fastforce split: if_splits)
  then show ?thesis using assms by (auto simp: all_records_def final_records_def split: if_splits)
qed

lemma deserialize_records:
  assumes "starts_differ (- 2) (r # rs)" "\<And>x. x \<in> set (r # rs) \<Longrightarrow> snd x < length (country_list cs)"
    and data: "bit_queue_from_country_data data = Some q" "queue_ok q"
      "queue_bits q = records_bits ops (- 2) (r # rs)"
  shows "do { d \<leftarrow> deserializer_new_generic ops data (- 2) cs; collect_blocks ops d } =
    Some (map (span_block ops cs) (spans (r # rs)))"
proof -
  obtain q' where q': "get_record_generic ops q (- 2) =
      Some (Some \<lparr>rec_start = fst r, rec_country_idx = snd r\<rparr>, q')"
    "queue_ok q'" "queue_bits q' = records_bits ops (fst r) rs"
    by (rule get_record_ok [OF data(2), of "- 2" r "records_bits ops (fst r) rs"])
      (use data(3) assms(1) in auto)
  have "collect_blocks ops \<lparr>des_countries = cs,
      prev_record = \<lparr>rec_start = fst r, rec_country_idx = snd r\<rparr>, des_queue = q', des_empty = False\<rparr> =
    Some (map (span_block ops cs) (spans (r # rs)))"
    using assms(1,2) q' by (intro collect_blocks_ok) auto
  then show ?thesis using q'(1) data(1) by (simp add: deserializer_new_generic_def)
qed

lemma deserialize_ok:
  assumes bs: "ordered_blocks bs" "bs \<noteq> []" "\<And>s e c. (s, e, c) \<in> set bs \<Longrightarrow> c < length (country_list cs)"
    and cs: "0 < length (country_list cs)"
    and data: "bit_queue_from_country_data data = Some q" "queue_ok q"
      "queue_bits q = records_bits ops (- 2) (all_records bs)"
  shows "do { d \<leftarrow> deserializer_new_generic ops data (- 2) cs; collect_blocks ops d } =
    Some (map (span_block ops cs) (filled_after (- 1) bs))"
proof -
  obtain r rs where rs: "all_records bs = r # rs"
    using bs(2) by (cases bs rule: ordered_blocks.cases; cases "all_records bs") (auto simp: all_records_def)
  have "snd x < length (country_list cs)" if "x \<in> set (r # rs)" for x
    using all_records_countries [of x bs] that cs bs(3) rs by auto
  moreover have "starts_differ (- 2) (r # rs)" using all_records_differ [OF bs(1)] rs by simp
  ultimately show ?thesis
    using deserialize_records [OF _ _ data [unfolded rs]] spans_all_records [OF bs(1,2)] rs by simp
qed

lemma deserialize_empty:
  assumes "bit_queue_from_country_data data = Some q" "queue_ok q" "queue_bits q = []"
  shows "deserializer_new_generic ops data start cs = None"
  using assms get_record_end [OF assms(2,3)] by (simp add: deserializer_new_generic_def)

end

section \<open>The two address families\<close>

lemma length_segments [simp]: "length (octets4 ip4) = 4" "length (segments6 ip6) = 8"
  by (simp_all add: octets4_def segments6_def)

lemma word_try_from_ucast:
  assumes "LENGTH('b::len) \<le> 64"
  shows "word_try_from (ucast (v :: 'b word)) = Some v" "fits LENGTH('b) (ucast v :: u64)"
proof -
  have "unat v < 2 ^ LENGTH('b)" by (rule unsigned_less)
  also have "(2::nat) ^ LENGTH('b) \<le> 2 ^ 64" using assms by (intro power_increasing) simp_all
  finally have "unat (ucast v :: u64) = unat v"
    by (simp add: unsigned_ucast_eq take_bit_nat_eq_self)
  then have "unat (ucast v :: u64) < 2 ^ LENGTH('b)" by simp
  moreover have "ucast (ucast v :: u64) = v"
    using assms by (intro bit_word_eqI) (auto simp: bit_ucast_iff)
  ultimately show "word_try_from (ucast (v :: 'b word)) = Some v"
    by (simp add: word_try_from_def)
  show "fits LENGTH('b) (ucast v :: u64)"
    by (auto simp: fits_def bit_ucast_iff dest: bit_imp_le_length)
qed

interpretation v4: ip_family ipv4_ops 4
proof unfold_locales
  show "ip_from_segments ipv4_ops (ip_segments ipv4_ops ip) = ip" for ip
    using parts_word_parts [where 'a = 32 and 'b = 8, of 4 ip] by (simp add: ipv4_ops_def octets4_def)
qed (use word_try_from_ucast [where 'b = 8] in
    \<open>simp_all add: ipv4_ops_def plus_one_ip4_def minus_one_ip4_def\<close>)

interpretation v6: ip_family ipv6_ops 8
proof unfold_locales
  show "ip_from_segments ipv6_ops (ip_segments ipv6_ops ip) = ip" for ip
    using parts_word_parts [where 'a = 128 and 'b = 16, of 8 ip] by (simp add: ipv6_ops_def segments6_def)
qed (use word_try_from_ucast [where 'b = 16] in
    \<open>simp_all add: ipv6_ops_def plus_one_ip6_def minus_one_ip6_def\<close>)

section \<open>Serializing a mixed list of blocks\<close>

fun serializer_add_all :: "country_block list \<Rightarrow> country_block_serializer \<Rightarrow> country_block_serializer option" where
  "serializer_add_all [] s = Some s"
| "serializer_add_all (b # bs) s = do { s \<leftarrow> serializer_add b s; serializer_add_all bs s }"

fun v4_triples :: "country_block list \<Rightarrow> (u32 \<times> u32 \<times> nat) list" where
  "v4_triples [] = []"
| "v4_triples (b # bs) =
     (case block_range b of
        RangeV4 s e \<Rightarrow> (s, e, country_index (block_country b)) # v4_triples bs
      | RangeV6 _ _ \<Rightarrow> v4_triples bs)"

fun v6_triples :: "country_block list \<Rightarrow> (u128 \<times> u128 \<times> nat) list" where
  "v6_triples [] = []"
| "v6_triples (b # bs) =
     (case block_range b of
        RangeV4 _ _ \<Rightarrow> v6_triples bs
      | RangeV6 s e \<Rightarrow> (s, e, country_index (block_country b)) # v6_triples bs)"

lemma serializer_add_all_families:
  assumes "add_ips ipv4_ops 2 2 8 (v4_triples bs) (ser_ipv4 s) = Some a"
    "add_ips ipv6_ops 3 3 16 (v6_triples bs) (ser_ipv6 s) = Some b"
  shows "serializer_add_all bs s = Some \<lparr>ser_ipv4 = a, ser_ipv6 = b\<rparr>"
  using assms
proof (induction bs arbitrary: s)
  case (Cons blk bs)
  then show ?case
  proof (cases "block_range blk")
    case (RangeV4 st en)
    then obtain s' where "add_ip_generic ipv4_ops st en (country_index (block_country blk)) 2 2 8 (ser_ipv4 s) = Some s'"
      "add_ips ipv4_ops 2 2 8 (v4_triples bs) s' = Some a"
      using Cons.prems by (auto simp: bind_eq_Some_conv)
    with Cons.IH [of "s\<lparr>ser_ipv4 := s'\<rparr>"] Cons.prems RangeV4 show ?thesis
      by (simp add: serializer_add_def ipv4_add_ip_def)
  next
    case (RangeV6 st en)
    then obtain s' where "add_ip_generic ipv6_ops st en (country_index (block_country blk)) 3 3 16 (ser_ipv6 s) = Some s'"
      "add_ips ipv6_ops 3 3 16 (v6_triples bs) s' = Some b"
      using Cons.prems by (auto simp: bind_eq_Some_conv)
    with Cons.IH [of "s\<lparr>ser_ipv6 := s'\<rparr>"] Cons.prems RangeV6 show ?thesis
      by (simp add: serializer_add_def ipv6_add_ip_def)
  qed
qed simp

definition encodes :: "('ip::len word, 'seg) ip_ops \<Rightarrow> ('ip word \<times> 'ip word \<times> nat) list \<Rightarrow> final_bit_queue \<Rightarrow> bool" where
  "encodes ops bs f \<longleftrightarrow>
     queue_ok (final_queue f) \<and> queue_bits (final_queue f) = records_bits ops (- 2) (all_records bs) \<and>
     final_block_count f = length (all_records bs)"

lemma ops_widths [simp]:
  "difference_count_bits ipv4_ops = 2" "index_bits ipv4_ops = 2" "value_bits ipv4_ops = 8"
  "difference_count_bits ipv6_ops = 3" "index_bits ipv6_ops = 3" "value_bits ipv6_ops = 16"
  by (simp_all add: ipv4_ops_def ipv6_ops_def)

lemma address_literals:
  "(0xFFFFFFFE :: u32) = - 2" "(0xFFFFFFFF :: u32) = - 1"
  "(0xFFFFFFFFFFFFFFFFFFFFFFFFFFFFFFFE :: u128) = - 2"
  "(0xFFFFFFFFFFFFFFFFFFFFFFFFFFFFFFFF :: u128) = - 1"
  by simp_all

lemma serializer_ok:
  assumes "ordered_blocks (v4_triples bs)" "ordered_blocks (v6_triples bs)"
  obtains f4 f6 where "do { s \<leftarrow> serializer_add_all bs serializer_new; serializer_finish s } = Some (f4, f6)"
    "encodes ipv4_ops (v4_triples bs) f4" "encodes ipv6_ops (v6_triples bs) f6"
proof -
  obtain a a' where a: "add_ips ipv4_ops 2 2 8 (v4_triples bs) (ip_serializer_new (- 2) (- 1)) = Some a"
    "(if prev_end a \<noteq> - 1 then add_ip_generic ipv4_ops (prev_end a + 1) (- 1) 0 2 2 8 a else Some a) = Some a'"
    "ser_rel ipv4_ops (- 2) (all_records (v4_triples bs)) a'"
    by (rule v4.serialize_ok [OF assms(1), unfolded ops_widths])
  obtain b b' where b: "add_ips ipv6_ops 3 3 16 (v6_triples bs) (ip_serializer_new (- 2) (- 1)) = Some b"
    "(if prev_end b \<noteq> - 1 then add_ip_generic ipv6_ops (prev_end b + 1) (- 1) 0 3 3 16 b else Some b) = Some b'"
    "ser_rel ipv6_ops (- 2) (all_records (v6_triples bs)) b'"
    by (rule v6.serialize_ok [OF assms(2), unfolded ops_widths])
  have "serializer_add_all bs serializer_new = Some \<lparr>ser_ipv4 = a, ser_ipv6 = b\<rparr>"
    by (rule serializer_add_all_families) (use a(1) b(1) in \<open>simp_all add: serializer_new_def address_literals\<close>)
  moreover have "serializer_finish \<lparr>ser_ipv4 = a, ser_ipv6 = b\<rparr> =
      Some (\<lparr>final_queue = ser_queue a', final_block_count = ser_block_count a'\<rparr>,
            \<lparr>final_queue = ser_queue b', final_block_count = ser_block_count b'\<rparr>)"
    using a(2) b(2)
    by (simp add: serializer_finish_def address_literals ipv4_add_ip_def ipv6_add_ip_def plus_one_ip4_def
        plus_one_ip6_def Let_def split del: if_split cong: if_cong)
  ultimately show ?thesis
    using that a(3) b(3) by (simp add: encodes_def ser_rel_def)
qed

lemma ipv4_deserialize_ok:
  assumes "ordered_blocks bs" "bs \<noteq> []" "\<And>s e c. (s, e, c) \<in> set bs \<Longrightarrow> c < length (country_list cs)"
    "0 < length (country_list cs)" "bit_queue_from_country_data data = Some q" "queue_ok q"
    "queue_bits q = records_bits ipv4_ops (- 2) (all_records bs)"
  shows "ipv4_deserialize data cs = Some (map (span_block ipv4_ops cs) (filled_after (- 1) bs))"
  unfolding ipv4_deserialize_def address_literals by (rule v4.deserialize_ok) (fact assms)+

lemma ipv6_deserialize_ok:
  assumes "ordered_blocks bs" "bs \<noteq> []" "\<And>s e c. (s, e, c) \<in> set bs \<Longrightarrow> c < length (country_list cs)"
    "0 < length (country_list cs)" "bit_queue_from_country_data data = Some q" "queue_ok q"
    "queue_bits q = records_bits ipv6_ops (- 2) (all_records bs)"
  shows "ipv6_deserialize data cs = Some (map (span_block ipv6_ops cs) (filled_after (- 1) bs))"
  unfolding ipv6_deserialize_def address_literals by (rule v6.deserialize_ok) (fact assms)+

end
