(* ===== verification/Country_Finder.thy ===== *)
theory Country_Finder
  imports Country_Serde
begin

text \<open>
  Model of \<open>ip_country/src/country_finder.rs\<close>: the lookup of an address in the
  deserialized blocks, with the standard library's \<open>binary_search_by\<close> it calls.  The
  lemmas show that the binary search is correct on any list sorted with respect to the
  comparison, and that on the blocks the serializer encodes the finder returns the
  country of the input block that holds the address.
\<close>

section \<open>Binary search\<close>

text \<open>
  \<open>slice::binary_search_by\<close> of the standard library: \<open>Inr i\<close> is \<open>Ok(i)\<close>,
  \<open>Inl i\<close> is \<open>Err(i)\<close>.  The comparison may panic.
\<close>

function search_between ::
  "('a \<Rightarrow> ordering option) \<Rightarrow> 'a list \<Rightarrow> nat \<Rightarrow> nat \<Rightarrow> (nat + nat) option" where
  "search_between cmp xs left right =
     (if left < right
      then let mid = left + (right - left) div 2 in
        (case cmp (xs ! mid) of
           None \<Rightarrow> None
         | Some Less \<Rightarrow> search_between cmp xs (mid + 1) right
         | Some Greater \<Rightarrow> search_between cmp xs left mid
         | Some Equal \<Rightarrow> Some (Inr mid))
      else Some (Inl left))"
  by pat_completeness auto
termination
  by (relation "measure (\<lambda>(_, _, left, right). right - left)") auto

declare search_between.simps [simp del]

definition binary_search_by :: "('a \<Rightarrow> ordering option) \<Rightarrow> 'a list \<Rightarrow> (nat + nat) option" where
  "binary_search_by cmp xs = search_between cmp xs 0 (length xs)"

section \<open>The finder\<close>

record country_code_finder =
  finder_countries :: countries
  finder_ipv4 :: "country_block list"
  finder_ipv6 :: "country_block list"

definition finder_new :: "countries \<Rightarrow> u64 list \<times> nat \<Rightarrow> u64 list \<times> nat \<Rightarrow> country_code_finder option" where
  "finder_new cs ipv4_data ipv6_data = do {
     v4 \<leftarrow> ipv4_deserialize ipv4_data cs;
     v6 \<leftarrow> ipv6_deserialize ipv6_data cs;
     Some \<lparr>finder_countries = cs, finder_ipv4 = v4, finder_ipv6 = v6\<rparr> }"

definition find_country :: "country_code_finder \<Rightarrow> ip_addr \<Rightarrow> country option option" where
  "find_country finder ip_addr = do {
     let country_blocks = (case ip_addr of V4 _ \<Rightarrow> finder_ipv4 finder | V6 _ \<Rightarrow> finder_ipv6 finder);
     block_index \<leftarrow> binary_search_by (\<lambda>block. ordering_by_range (block_range block) ip_addr) country_blocks;
     country \<leftarrow> (case block_index of
        Inr index \<Rightarrow> Some (block_country (country_blocks ! index))
      | Inl _ \<Rightarrow>
          (case country_from_code (finder_countries finder) ''ZZ'' of
             Some (Inr c) \<Rightarrow> Some c
           | _ \<Rightarrow> None));
     Some (if iso3166 country = ''ZZ'' then None else Some country) }"

section \<open>Correctness of the binary search\<close>

definition search_sorted :: "('a \<Rightarrow> ordering) \<Rightarrow> 'a list \<Rightarrow> bool" where
  "search_sorted cmp xs \<longleftrightarrow>
     sorted_wrt (\<lambda>x y. (cmp y = Less \<longrightarrow> cmp x = Less) \<and> (cmp x = Greater \<longrightarrow> cmp y = Greater)) xs"

definition search_result_ok :: "('a \<Rightarrow> ordering) \<Rightarrow> 'a list \<Rightarrow> (nat + nat) option \<Rightarrow> bool" where
  "search_result_ok cmp xs r \<longleftrightarrow>
     (case r of
        Some (Inr i) \<Rightarrow> i < length xs \<and> cmp (xs ! i) = Equal
      | Some (Inl i) \<Rightarrow> (\<forall>x \<in> set xs. cmp x \<noteq> Equal)
      | None \<Rightarrow> False)"

lemma search_between_ok:
  assumes "search_sorted cmp xs" "right \<le> length xs"
    "\<forall>i < length xs. i < left \<or> right \<le> i \<longrightarrow> cmp (xs ! i) \<noteq> Equal"
  shows "search_result_ok cmp xs (search_between (\<lambda>x. Some (cmp x)) xs left right)"
  using assms(2,3)
proof (induction "right - left" arbitrary: left right rule: less_induct)
  case less
  show ?case
  proof (cases "left < right")
    case False
    then have "cmp (xs ! i) \<noteq> Equal" if "i < length xs" for i
      using less.prems(2) that by auto
    with False show ?thesis
      by (auto simp: search_result_ok_def search_between.simps [of _ _ left right] in_set_conv_nth)
  next
    case True
    define mid where "mid = left + (right - left) div 2"
    have mid: "left \<le> mid" "mid < right" "mid < length xs" using True less.prems(1) by (auto simp: mid_def)
    have step: "search_between (\<lambda>x. Some (cmp x)) xs left right =
      (case cmp (xs ! mid) of Less \<Rightarrow> search_between (\<lambda>x. Some (cmp x)) xs (mid + 1) right
        | Greater \<Rightarrow> search_between (\<lambda>x. Some (cmp x)) xs left mid | Equal \<Rightarrow> Some (Inr mid))"
      using True by (simp add: search_between.simps [of _ _ left right] Let_def flip: mid_def)
    have sorted: "i < j \<Longrightarrow> j < length xs \<Longrightarrow>
      (cmp (xs ! j) = Less \<longrightarrow> cmp (xs ! i) = Less) \<and> (cmp (xs ! i) = Greater \<longrightarrow> cmp (xs ! j) = Greater)" for i j
      using assms(1) unfolding search_sorted_def sorted_wrt_iff_nth_less by blast
    show ?thesis
    proof (cases "cmp (xs ! mid)")
      case Less
      have "search_result_ok cmp xs (search_between (\<lambda>x. Some (cmp x)) xs (mid + 1) right)"
      proof (rule less.hyps)
        show "\<forall>i < length xs. i < mid + 1 \<or> right \<le> i \<longrightarrow> cmp (xs ! i) \<noteq> Equal"
          using sorted [of _ mid] Less less.prems(2) mid
          by (metis less_antisym Suc_eq_plus1 ordering.distinct(1))
      qed (use less.prems mid in auto)
      with Less step show ?thesis by simp
    next
      case Greater
      have "search_result_ok cmp xs (search_between (\<lambda>x. Some (cmp x)) xs left mid)"
      proof (rule less.hyps)
        show "\<forall>i < length xs. i < left \<or> mid \<le> i \<longrightarrow> cmp (xs ! i) \<noteq> Equal"
          using sorted [of mid] Greater less.prems(2)
          by (metis le_neq_implies_less ordering.distinct(5))
      qed (use less.prems mid in auto)
      with Greater step show ?thesis by simp
    next
      case Equal
      with step mid show ?thesis by (simp add: search_result_ok_def)
    qed
  qed
qed

lemma binary_search_by_found:
  assumes "search_sorted cmp xs" "x \<in> set xs" "cmp x = Equal"
  obtains i where "binary_search_by (\<lambda>x. Some (cmp x)) xs = Some (Inr i)" "i < length xs" "cmp (xs ! i) = Equal"
  using search_between_ok [OF assms(1), of "length xs" 0] assms(2,3) that
  by (auto simp: search_result_ok_def binary_search_by_def split: option.splits sum.splits)

section \<open>The gap-filled blocks cover every address exactly once\<close>

definition block_lookup :: "('a::len word \<times> 'a word \<times> nat) list \<Rightarrow> 'a word \<Rightarrow> nat" where
  "block_lookup bs ip =
     (case find (\<lambda>(s, e, c). s \<le> ip \<and> ip \<le> e) bs of None \<Rightarrow> 0 | Some (_, _, c) \<Rightarrow> c)"

lemma block_lookup_Nil [simp]: "block_lookup [] ip = 0"
  by (simp add: block_lookup_def)

lemma block_lookup_Cons:
  "block_lookup ((s, e, c) # bs) ip = (if s \<le> ip \<and> ip \<le> e then c else block_lookup bs ip)"
  by (simp add: block_lookup_def)

lemma ordered_after_mono: "ordered_after pe bs \<Longrightarrow> p \<le> pe \<Longrightarrow> ordered_after p bs"
  by (cases bs rule: ordered_blocks.cases) auto

lemma ordered_after_blocks: "ordered_after pe bs \<Longrightarrow> ordered_blocks bs"
  by (cases bs rule: ordered_blocks.cases) auto

lemma block_lookup_before: "ordered_after pe bs \<Longrightarrow> ip \<le> pe \<Longrightarrow> block_lookup bs ip = 0"
proof (induction bs arbitrary: pe)
  case (Cons b bs)
  then show ?case by (cases b) (fastforce simp: block_lookup_Cons)
qed simp

lemma filled_covers_Cons:
  assumes block: "s \<le> e" "ordered_after e bs"
    and rest: "\<And>ip. e < ip \<Longrightarrow> \<exists>s' e'. (s', e', block_lookup bs ip) \<in> set (filled_after e bs) \<and> s' \<le> ip \<and> ip \<le> e'"
    and ip: "pe + 1 \<le> ip"
  shows "\<exists>s' e'. (s', e', block_lookup ((s, e, c) # bs) ip) \<in> set (filled_after pe ((s, e, c) # bs)) \<and> s' \<le> ip \<and> ip \<le> e'"
proof -
  consider "ip < s" | "s \<le> ip" "ip \<le> e" | "e < ip" by force
  then show ?thesis
  proof cases
    case 1
    then have "block_lookup ((s, e, c) # bs) ip = 0"
      using block_lookup_before [OF block(2), of ip] block(1) by (auto simp: block_lookup_Cons)
    moreover have "s \<noteq> pe + 1" "ip \<le> s - 1" using 1 ip word_le_minus_one by auto
    ultimately show ?thesis using ip by auto
  next
    case 2
    then show ?thesis by (auto simp: block_lookup_Cons)
  next
    case 3
    from rest [OF this] 3 show ?thesis by (auto simp: block_lookup_Cons)
  qed
qed

lemma filled_after_covers:
  assumes "ordered_after pe bs" "pe < ip"
  shows "\<exists>s e. (s, e, block_lookup bs ip) \<in> set (filled_after pe bs) \<and> s \<le> ip \<and> ip \<le> e"
  using assms
proof (induction bs arbitrary: pe ip)
  case Nil
  then show ?case by (auto simp: inc_le)
next
  case (Cons b bs)
  obtain s e c where b: "b = (s, e, c)" by (cases b)
  have "s \<le> e" "ordered_after e bs" "pe + 1 \<le> ip" using Cons.prems b by (auto simp: inc_le)
  with Cons.IH [of e] show ?case unfolding b by (intro filled_covers_Cons) auto
qed

lemma filled_covers:
  assumes "ordered_blocks bs" "bs \<noteq> []"
  shows "\<exists>s e. (s, e, block_lookup bs ip) \<in> set (filled_after (- 1) bs) \<and> s \<le> ip \<and> ip \<le> e"
proof (cases bs rule: ordered_blocks.cases)
  case (2 s e c bs')
  with assms have "s \<le> e" "ordered_after e bs'" by auto
  with filled_after_covers [of e bs'] show ?thesis unfolding 2 by (intro filled_covers_Cons) auto
qed (use assms in simp)

lemma filled_after_ordered: "ordered_after pe bs \<Longrightarrow> ordered_after pe (filled_after pe bs)"
proof (induction bs arbitrary: pe)
  case Nil
  then show ?case by (auto intro: word_less_plus_one)
next
  case (Cons b bs)
  obtain s e c where b: "b = (s, e, c)" by (cases b)
  with Cons have IH: "ordered_after e (filled_after e bs)" "pe < s" "s \<le> e" by auto
  have "pe < pe + 1" using IH(2) by (intro word_less_plus_one) auto
  moreover have "pe + 1 \<le> s - 1" if "s \<noteq> pe + 1"
    using inc_le [OF IH(2)] that by (intro word_le_minus_one) simp
  moreover have "s - 1 < s" using IH(2) by (rule word_minus_one_less)
  ultimately show ?case using Cons.prems IH b by auto
qed

lemma filled_ordered: "ordered_blocks bs \<Longrightarrow> ordered_blocks (filled_after (- 1) bs)"
proof (cases bs rule: ordered_blocks.cases)
  case (2 s e c bs')
  assume "ordered_blocks bs"
  with 2 have "ordered_after e (filled_after e bs')" "s \<le> e" "c < 512"
    by (auto intro: filled_after_ordered)
  moreover have "0 < s \<Longrightarrow> s - 1 < s" by (rule word_minus_one_less)
  ultimately show ?thesis using 2 by (auto simp: word_neq_0_conv)
qed simp

lemma ordered_after_disjoint:
  "ordered_after pe bs \<Longrightarrow>
   sorted_wrt (\<lambda>x y. fst (snd x) < fst y) bs \<and> (\<forall>x \<in> set bs. pe < fst x \<and> fst x \<le> fst (snd x))"
proof (induction bs arbitrary: pe)
  case (Cons b bs)
  obtain s e c where b: "b = (s, e, c)" by (cases b)
  from Cons.prems b have "ordered_after e bs" by simp
  from Cons.IH [OF this] Cons.prems b show ?case by fastforce
qed simp

lemma ordered_blocks_disjoint:
  "ordered_blocks bs \<Longrightarrow>
   sorted_wrt (\<lambda>x y. fst (snd x) < fst y) bs \<and> (\<forall>x \<in> set bs. fst x \<le> fst (snd x))"
  using ordered_after_disjoint by (cases bs rule: ordered_blocks.cases) fastforce+

lemma search_between_map:
  "right \<le> length xs \<Longrightarrow> search_between f (map g xs) left right = search_between (\<lambda>x. f (g x)) xs left right"
proof (induction "right - left" arbitrary: left right rule: less_induct)
  case less
  show ?case
  proof (cases "left < right")
    case True
    define mid where "mid = left + (right - left) div 2"
    have mid: "left \<le> mid" "mid < right" "mid < length xs" using True less.prems by (auto simp: mid_def)
    have "search_between f (map g xs) (mid + 1) right = search_between (\<lambda>x. f (g x)) xs (mid + 1) right"
      "search_between f (map g xs) left mid = search_between (\<lambda>x. f (g x)) xs left mid"
      using mid less.prems by (auto intro: less.hyps)
    with mid show ?thesis
      by (simp add: search_between.simps [of _ _ left right] True Let_def flip: mid_def
          split: option.split ordering.split)
  qed (simp add: search_between.simps)
qed

lemma binary_search_by_map: "binary_search_by f (map g xs) = binary_search_by (\<lambda>x. f (g x)) xs"
  by (simp add: binary_search_by_def search_between_map)

lemma search_blocks_sorted:
  assumes "ordered_blocks bs"
  shows "search_sorted (\<lambda>(s, e, c). compare_with_range ip s e) bs"
proof -
  have sorted: "sorted_wrt (\<lambda>x y. fst (snd x) < fst y) bs" and le: "\<forall>x \<in> set bs. fst x \<le> fst (snd x)"
    using ordered_blocks_disjoint [OF assms] by auto
  show ?thesis
    unfolding search_sorted_def
  proof (rule sorted_wrt_mono_rel [OF _ sorted])
    fix x y
    assume "x \<in> set bs" "y \<in> set bs" "fst (snd x) < fst y"
    with le have "fst x \<le> fst (snd x)" "fst (snd x) < fst y" "fst y \<le> fst (snd y)" by auto
    then show "((case y of (s, e, c) \<Rightarrow> compare_with_range ip s e) = Less \<longrightarrow>
        (case x of (s, e, c) \<Rightarrow> compare_with_range ip s e) = Less) \<and>
      ((case x of (s, e, c) \<Rightarrow> compare_with_range ip s e) = Greater \<longrightarrow>
        (case y of (s, e, c) \<Rightarrow> compare_with_range ip s e) = Greater)"
      by (cases x, cases y) (auto simp: compare_with_range_def word_less_nat_alt word_le_nat_alt)
  qed
qed

lemma disjoint_unique:
  assumes "ordered_blocks bs" "(s, e, c) \<in> set bs" "(s', e', c') \<in> set bs"
    "s \<le> ip" "ip \<le> e" "s' \<le> ip" "ip \<le> e'"
  shows "c = c'"
proof -
  obtain i j where ij: "i < length bs" "bs ! i = (s, e, c)" "j < length bs" "bs ! j = (s', e', c')"
    using assms(2,3) by (auto simp: in_set_conv_nth)
  have order: "fst (snd (bs ! k)) < fst (bs ! l)" if "k < l" "l < length bs" for k l
    using ordered_blocks_disjoint [OF assms(1)] that by (auto simp: sorted_wrt_iff_nth_less)
  have "i = j" using order [of i j] order [of j i] ij assms(4-7) by (cases i j rule: linorder_cases) auto
  with ij show ?thesis by simp
qed

lemma search_filled:
  assumes "ordered_blocks bs" "bs \<noteq> []"
  obtains i s e where
    "binary_search_by (\<lambda>(s, e, c). Some (compare_with_range ip s e)) (filled_after (- 1) bs) = Some (Inr i)"
    "i < length (filled_after (- 1) bs)" "filled_after (- 1) bs ! i = (s, e, block_lookup bs ip)"
proof -
  obtain s e where se: "(s, e, block_lookup bs ip) \<in> set (filled_after (- 1) bs)" "s \<le> ip" "ip \<le> e"
    using filled_covers [OF assms] by blast
  obtain i where i: "binary_search_by (\<lambda>x. Some (case x of (s, e, c) \<Rightarrow> compare_with_range ip s e)) (filled_after (- 1) bs) = Some (Inr i)"
    "i < length (filled_after (- 1) bs)" "(case filled_after (- 1) bs ! i of (s, e, c) \<Rightarrow> compare_with_range ip s e) = Equal"
    by (rule binary_search_by_found [OF search_blocks_sorted [OF filled_ordered [OF assms(1)], of ip] se(1)])
      (use se in \<open>auto simp: compare_with_range_def\<close>)
  obtain s' e' c' where i': "filled_after (- 1) bs ! i = (s', e', c')" by (cases "filled_after (- 1) bs ! i")
  have "block_lookup bs ip = c'"
    by (rule disjoint_unique [OF filled_ordered [OF assms(1)] se(1), of s' e' c' ip])
      (use i i' se nth_mem [OF i(2)] in \<open>auto simp: compare_with_range_def split: if_splits\<close>)
  moreover have "(\<lambda>(s, e, c). Some (compare_with_range ip s e)) =
      (\<lambda>x. Some (case x of (s, e, c :: nat) \<Rightarrow> compare_with_range ip s e))" by auto
  ultimately show ?thesis using that i i' by simp
qed

section \<open>The finder on encoded blocks\<close>

definition named_country :: "country \<Rightarrow> country option" where
  "named_country c = (if iso3166 c = ''ZZ'' then None else Some c)"

lemma block_country_span [simp]: "block_country (span_block ops cs (s, e, c)) = country_list cs ! c"
  by (simp add: span_block_def)

lemma find_country_v4:
  assumes "ordered_blocks bs" "bs \<noteq> []" "finder_ipv4 f = map (span_block ipv4_ops cs) (filled_after (- 1) bs)"
  shows "find_country f (V4 ip) = Some (named_country (country_list cs ! block_lookup bs ip))"
proof -
  have cmp: "(\<lambda>x. ordering_by_range (block_range (span_block ipv4_ops cs x)) (V4 ip)) =
      (\<lambda>(s, e, c). Some (compare_with_range ip s e))"
    by (auto simp: span_block_def ipv4_ops_def)
  obtain i s e where "binary_search_by (\<lambda>(s, e, c). Some (compare_with_range ip s e)) (filled_after (- 1) bs) = Some (Inr i)"
    "i < length (filled_after (- 1) bs)" "filled_after (- 1) bs ! i = (s, e, block_lookup bs ip)"
    by (rule search_filled [OF assms(1,2)])
  then show ?thesis
    by (simp add: find_country_def assms(3) binary_search_by_map cmp named_country_def)
qed

lemma find_country_v6:
  assumes "ordered_blocks bs" "bs \<noteq> []" "finder_ipv6 f = map (span_block ipv6_ops cs) (filled_after (- 1) bs)"
  shows "find_country f (V6 ip) = Some (named_country (country_list cs ! block_lookup bs ip))"
proof -
  have cmp: "(\<lambda>x. ordering_by_range (block_range (span_block ipv6_ops cs x)) (V6 ip)) =
      (\<lambda>(s, e, c). Some (compare_with_range ip s e))"
    by (auto simp: span_block_def ipv6_ops_def)
  obtain i s e where "binary_search_by (\<lambda>(s, e, c). Some (compare_with_range ip s e)) (filled_after (- 1) bs) = Some (Inr i)"
    "i < length (filled_after (- 1) bs)" "filled_after (- 1) bs ! i = (s, e, block_lookup bs ip)"
    by (rule search_filled [OF assms(1,2)])
  then show ?thesis
    by (simp add: find_country_def assms(3) binary_search_by_map cmp named_country_def)
qed

text \<open>What the caller expects: the country of the block that contains the address.\<close>

definition country_of :: "country_block list \<Rightarrow> ip_addr \<Rightarrow> country option" where
  "country_of blocks ip =
     (case find (\<lambda>b. range_contains (block_range b) ip) blocks of
        None \<Rightarrow> None
      | Some b \<Rightarrow> named_country (block_country b))"

definition blocks_in :: "countries \<Rightarrow> country_block list \<Rightarrow> bool" where
  "blocks_in cs blocks \<longleftrightarrow>
     (\<forall>b \<in> set blocks. country_index (block_country b) < length (country_list cs) \<and>
        country_list cs ! country_index (block_country b) = block_country b)"

lemma country_of_v4:
  assumes "countries_ok cs" "blocks_in cs blocks"
  shows "named_country (country_list cs ! block_lookup (v4_triples blocks) ip) = country_of blocks (V4 ip)"
  using assms(2)
proof (induction blocks)
  case Nil
  then show ?case using assms(1) by (simp add: country_of_def countries_ok_def named_country_def sentinel_def country_new_def)
next
  case (Cons b bs)
  then show ?case
    by (cases "block_range b") (auto simp: country_of_def block_lookup_Cons blocks_in_def contains_inner_def)
qed

lemma country_of_v6:
  assumes "countries_ok cs" "blocks_in cs blocks"
  shows "named_country (country_list cs ! block_lookup (v6_triples blocks) ip) = country_of blocks (V6 ip)"
  using assms(2)
proof (induction blocks)
  case Nil
  then show ?case using assms(1) by (simp add: country_of_def countries_ok_def named_country_def sentinel_def country_new_def)
next
  case (Cons b bs)
  then show ?case
    by (cases "block_range b") (auto simp: country_of_def block_lookup_Cons blocks_in_def contains_inner_def)
qed

lemma triples_indices:
  assumes "blocks_in cs blocks"
  shows "(s4, e4, c) \<in> set (v4_triples blocks) \<Longrightarrow> c < length (country_list cs)"
    "(s6, e6, c) \<in> set (v6_triples blocks) \<Longrightarrow> c < length (country_list cs)"
  using assms by (induction blocks) (auto simp: blocks_in_def split: ip_range.splits)

section \<open>The finder on any ordered blocks\<close>

lemma country_from_code_ZZ:
  assumes "countries_ok cs"
  obtains c where "country_from_code cs ''ZZ'' = Some (Inr c)" "iso3166 c = ''ZZ''"
proof -
  have upper: "to_ascii_uppercase ''ZZ'' = ''ZZ''" by (simp add: to_ascii_uppercase_def less_eq_char_def)
  have "sentinel \<in> set (country_list cs)" using assms by (metis countries_ok_def nth_mem)
  then have "''ZZ'' \<in> iso3166 ` set (country_list cs)" by (force simp: sentinel_def country_new_def)
  then have "index_by_iso3166 cs ''ZZ'' \<noteq> None"
    using assms by (simp add: countries_ok_def collect_map_def map_of_eq_None_iff image_image del: not_None_eq)
  then obtain i where i: "index_by_iso3166 cs ''ZZ'' = Some i" by auto
  with that index_by_iso3166_sound [OF assms i] upper assms show ?thesis
    by (simp add: country_from_code_ok)
qed

lemma block_lookup_none: "\<forall>(s, e, c) \<in> set bs. \<not> (s \<le> ip \<and> ip \<le> e) \<Longrightarrow> block_lookup bs ip = 0"
  by (induction bs) (auto simp: block_lookup_Cons)

lemma block_lookup_unique:
  assumes "ordered_blocks bs" "(s, e, c) \<in> set bs" "s \<le> ip" "ip \<le> e"
  shows "block_lookup bs ip = c"
proof -
  have "find (\<lambda>(s, e, c). s \<le> ip \<and> ip \<le> e) bs \<noteq> None"
    using assms by (auto simp: find_None_iff)
  then obtain s' e' c' where f: "find (\<lambda>(s, e, c). s \<le> ip \<and> ip \<le> e) bs = Some (s', e', c')" by auto
  then have "(s', e', c') \<in> set bs" "s' \<le> ip" "ip \<le> e'" by (auto simp: find_Some_iff in_set_conv_nth)
  with disjoint_unique [OF assms(1,2) this(1) assms(3,4)] f show ?thesis by (simp add: block_lookup_def)
qed

lemma find_country_general:
  assumes "countries_ok cs" "ordered_blocks bs" "finder_countries f = cs"
    and blocks: "(case ip of V4 _ \<Rightarrow> finder_ipv4 f | V6 _ \<Rightarrow> finder_ipv6 f) = map (span_block ops cs) bs"
    and cmp: "(\<lambda>x. ordering_by_range (block_range (span_block ops cs x)) ip) = (\<lambda>x. Some (case x of (s, e, c) \<Rightarrow> compare_with_range a s e))"
  shows "find_country f ip = Some (named_country (country_list cs ! block_lookup bs a))"
proof -
  have ok: "search_result_ok (\<lambda>(s, e, c). compare_with_range a s e) bs
      (binary_search_by (\<lambda>x. Some (case x of (s, e, c) \<Rightarrow> compare_with_range a s e)) bs)"
    unfolding binary_search_by_def by (rule search_between_ok [OF search_blocks_sorted [OF assms(2)]]) auto
  obtain z where z: "country_from_code cs ''ZZ'' = Some (Inr z)" "iso3166 z = ''ZZ''"
    by (rule country_from_code_ZZ [OF assms(1)])
  have none: "named_country (country_list cs ! 0) = None"
    using assms(1) by (simp add: countries_ok_def named_country_def sentinel_def country_new_def)
  show ?thesis
  proof (cases "binary_search_by (\<lambda>x. Some (case x of (s, e, c) \<Rightarrow> compare_with_range a s e)) bs")
    case None
    with ok show ?thesis by (simp add: search_result_ok_def)
  next
    case (Some r)
    show ?thesis
    proof (cases r)
      case (Inl i)
      with ok Some have "\<forall>(s, e, c) \<in> set bs. \<not> (s \<le> a \<and> a \<le> e)"
        by (fastforce simp: search_result_ok_def compare_with_range_def split: if_splits)
      then show ?thesis
        using Some Inl z none
        by (simp add: find_country_def blocks binary_search_by_map cmp assms(3) block_lookup_none)
    next
      case (Inr i)
      obtain s e c where sec: "bs ! i = (s, e, c)" by (cases "bs ! i")
      with ok Some Inr have i: "i < length bs" "s \<le> a" "a \<le> e"
        by (auto simp: search_result_ok_def compare_with_range_def split: if_splits)
      then have "block_lookup bs a = c"
        using block_lookup_unique [OF assms(2), of s e c a] sec nth_mem [of i bs] by simp
      then show ?thesis
        using Some Inr i sec
        by (simp add: find_country_def blocks binary_search_by_map cmp named_country_def)
    qed
  qed
qed

section \<open>Properties\<close>

text \<open>
  C21: for every finder whose blocks are ordered and do not overlap, with or without gaps,
  a lookup never panics and returns the country of the block that holds the address, or
  nothing if no block does or its country is the sentinel.
\<close>

theorem find_country_correct:
  assumes "countries_ok cs" "ordered_blocks bs4" "ordered_blocks bs6"
  shows "let f = \<lparr>finder_countries = cs, finder_ipv4 = map (span_block ipv4_ops cs) bs4,
                  finder_ipv6 = map (span_block ipv6_ops cs) bs6\<rparr>
     in find_country f (V4 a4) = Some (named_country (country_list cs ! block_lookup bs4 a4)) \<and>
        find_country f (V6 a6) = Some (named_country (country_list cs ! block_lookup bs6 a6))"
  unfolding Let_def
proof
  define f where "f = \<lparr>finder_countries = cs, finder_ipv4 = map (span_block ipv4_ops cs) bs4,
    finder_ipv6 = map (span_block ipv6_ops cs) bs6\<rparr>"
  show "find_country \<lparr>finder_countries = cs, finder_ipv4 = map (span_block ipv4_ops cs) bs4,
      finder_ipv6 = map (span_block ipv6_ops cs) bs6\<rparr> (V4 a4) =
    Some (named_country (country_list cs ! block_lookup bs4 a4))"
    by (rule find_country_general [OF assms(1,2), where ops = ipv4_ops])
      (auto simp: span_block_def ipv4_ops_def)
  show "find_country \<lparr>finder_countries = cs, finder_ipv4 = map (span_block ipv4_ops cs) bs4,
      finder_ipv6 = map (span_block ipv6_ops cs) bs6\<rparr> (V6 a6) =
    Some (named_country (country_list cs ! block_lookup bs6 a6))"
    by (rule find_country_general [OF assms(1,3), where ops = ipv6_ops])
      (auto simp: span_block_def ipv6_ops_def)
qed

theorem find_country_correct_witness:
  "let cs = countries_new [(''FR'', ''France'')];
       f = \<lparr>finder_countries = cs, finder_ipv4 = map (span_block ipv4_ops cs) [(5, 9, 1)], finder_ipv6 = []\<rparr>
   in find_country f (V4 7) = Some (Some (country_new 1 ''FR'' ''France'')) \<and> find_country f (V6 7) = Some None"
proof -
  have "country_list (countries_new [(''FR'', ''France'')]) = [sentinel, country_new 1 ''FR'' ''France'']"
    by (simp add: countries_new_list)
  then show ?thesis
    using find_country_correct [OF countries_new_ok, of "[(5, 9, 1)]" "[]" "[(''FR'', ''France'')]" 7 7]
    by (simp add: block_lookup_Cons named_country_def sentinel_def country_new_def)
qed

end
