(* ===== verification/Country_Codegen.thy ===== *)
theory Country_Codegen
  imports Country_Finder
begin

text \<open>
  Model of the code generator in \<open>ip_country/src/ip_country.rs\<close>: the Rust source text
  written for the table of countries and for the two bit queues.  The writer is given
  the pieces of text in the order the code writes them; how a writer fails is modelled
  with the caller in \<open>Ip_Country\<close>.  The lemmas show that the numbers written for
  a queue, read back by the deserializer's \<open>bit_queue_from_country_data\<close>, restore the
  queue's content, and that the generated list of countries rebuilds the same table.
\<close>

section \<open>Formatting\<close>

definition hex_digit :: "nat \<Rightarrow> char" where
  "hex_digit d = (if d < 10 then char_of (48 + d) else char_of (55 + d))"

text \<open>The format \<open>{:016X}\<close> of a 64-bit number.\<close>

definition hex16 :: "u64 \<Rightarrow> string" where
  "hex16 v = map (\<lambda>i. hex_digit (unat (drop_bit (4 * (15 - i)) v AND 0xF))) [0..<16]"

definition nl :: string where
  "nl = [char_of (10 :: nat)]"

definition quot :: string where
  "quot = [char_of (34 :: nat)]"

section \<open>The generator\<close>

definition write_value :: "nat \<Rightarrow> nat \<Rightarrow> bit_queue \<Rightarrow> (string list \<times> nat \<times> bit_queue) option" where
  "write_value bit_count values_written q = do {
     let sep = (if values_written mod 4 = 0 then nl @ ''            '' else '' '');
     (value_opt, q) \<leftarrow> take_bits bit_count q;
     value \<leftarrow> value_opt;
     Some ([sep, ''0x'' @ hex16 value @ '',''], values_written + 1, q) }"

partial_function (option) write_full_words ::
  "nat \<Rightarrow> bit_queue \<Rightarrow> (string list \<times> nat \<times> bit_queue) option" where
  "write_full_words values_written q = do {
     len \<leftarrow> queue_len q;
     if 64 \<le> len
     then do {
       (out1, values_written, q) \<leftarrow> write_value 64 values_written q;
       (out2, values_written, q) \<leftarrow> write_full_words values_written q;
       Some (out1 @ out2, values_written, q) }
     else Some ([], values_written, q) }"

definition generate_country_block_code :: "string \<Rightarrow> bit_queue \<Rightarrow> nat \<Rightarrow> string list option" where
  "generate_country_block_code name q block_count = do {
     bit_queue_len \<leftarrow> queue_len q;
     (words, values_written, q) \<leftarrow> write_full_words 0 q;
     is_empty \<leftarrow> queue_is_empty q;
     rest \<leftarrow> (if \<not> is_empty
             then do {
               bit_count \<leftarrow> queue_len q;
               (out1, _, _) \<leftarrow> write_value bit_count values_written q;
               Some out1 }
             else Some []);
     Some ([nl,
            ''pub fn '' @ name @ ''_data() -> (Vec<u64>, usize) {'' @ nl,
            ''    ('' @ nl,
            ''        vec!['']
           @ words @ rest @
           [nl @ ''        ],'' @ nl,
            ''        '' @ decimal bit_queue_len @ nl,
            ''    )'' @ nl,
            ''}'' @ nl,
            nl @ ''pub fn '' @ name @ ''_block_count() -> usize {'' @ nl,
            ''        '' @ decimal block_count @ nl,
            ''}'' @ nl]) }"

definition generate_country_list :: "countries \<Rightarrow> string list" where
  "generate_country_list cs =
     [nl,
      ''use lazy_static::lazy_static;'' @ nl,
      ''use crate::countries::Countries;'' @ nl,
      nl,
      ''lazy_static! {'' @ nl,
      ''    pub static ref COUNTRIES: Countries = Countries::new('' @ nl,
      ''        vec!['' @ nl]
     @ map (\<lambda>c. ''            ('' @ quot @ iso3166 c @ quot @ '', '' @ quot @ country_name c @ quot @ ''),'' @ nl)
         (country_list cs) @
     [''        ]'' @ nl,
      ''        .into_iter()'' @ nl,
      ''        .map(|(iso3166, name)| (iso3166.to_string(), name.to_string()))'' @ nl,
      ''        .collect::<Vec<(String, String)>>()'' @ nl,
      ''    );'' @ nl,
      ''}'' @ nl]"

definition generate_rust_code ::
  "final_bit_queue \<Rightarrow> final_bit_queue \<Rightarrow> countries \<Rightarrow> string list option" where
  "generate_rust_code final_ipv4 final_ipv6 cs = do {
     v4 \<leftarrow> generate_country_block_code ''ipv4_country'' (final_queue final_ipv4) (final_block_count final_ipv4);
     v6 \<leftarrow> generate_country_block_code ''ipv6_country'' (final_queue final_ipv6) (final_block_count final_ipv6);
     Some ([nl @ ''// GENERATED CODE: REGENERATE, DO NOT MODIFY!'' @ nl] @ generate_country_list cs @ v4 @ v6) }"

section \<open>The numbers written for a queue\<close>

text \<open>
  \<open>bits_words bits\<close> are the 64-bit numbers that hold a list of bits, the first bit in
  the lowest position; \<open>queue_data\<close> is the pair that the generated function returns.
\<close>

definition bits_word :: "bool list \<Rightarrow> u64" where
  "bits_word bits = of_nat (horner_sum of_bool 2 bits)"

function bits_words :: "bool list \<Rightarrow> u64 list" where
  "bits_words bits =
     (if bits = [] then [] else bits_word (take 64 bits) # bits_words (drop 64 bits))"
  by pat_completeness auto
termination by (relation "measure length") auto

declare bits_words.simps [simp del]

definition queue_data :: "bit_queue \<Rightarrow> u64 list \<times> nat" where
  "queue_data q = (bits_words (queue_bits q), length (queue_bits q))"

fun value_texts :: "nat \<Rightarrow> u64 list \<Rightarrow> string list" where
  "value_texts n [] = []"
| "value_texts n (v # vs) =
     [(if n mod 4 = 0 then nl @ ''            '' else '' ''), ''0x'' @ hex16 v @ '',''] @ value_texts (n + 1) vs"

lemma value_texts_append: "value_texts n (vs @ ws) = value_texts n vs @ value_texts (n + length vs) ws"
  by (induction vs arbitrary: n) auto

lemma bits_word_bits:
  assumes "length bits \<le> 64"
  shows "bits_upto (length bits) (bits_word bits) = bits" "fits (length bits) (bits_word bits)"
proof -
  have bit: "bit (bits_word bits) i \<longleftrightarrow> i < length bits \<and> bits ! i" for i
    using assms by (auto simp: bits_word_def bit_of_nat_iff bit_horner_sum_bit_iff)
  show "bits_upto (length bits) (bits_word bits) = bits"
    by (rule nth_equalityI) (simp_all add: bit)
  show "fits (length bits) (bits_word bits)" by (simp add: fits_def bit)
qed

lemma take_bits_word:
  assumes "queue_ok q" "n \<le> 64" "n \<le> length (queue_bits q)"
  obtains q' where "take_bits n q = Some (Some (bits_word (take n (queue_bits q))), q')" "queue_ok q'"
    "queue_bits q' = drop n (queue_bits q)"
proof (rule bq.take_added [OF assms(1,2)])
  show "fits n (bits_word (take n (queue_bits q)))"
    "queue_bits q = bits_upto n (bits_word (take n (queue_bits q))) @ drop n (queue_bits q)"
    using bits_word_bits [of "take n (queue_bits q)"] assms by (simp_all add: min_absorb2)
qed (blast intro: that)

lemma write_value_ok:
  assumes "queue_ok q" "n \<le> 64" "n \<le> length (queue_bits q)"
  obtains q' where "write_value n k q = Some (value_texts k [bits_word (take n (queue_bits q))], k + 1, q')"
    "queue_ok q'" "queue_bits q' = drop n (queue_bits q)"
proof (rule take_bits_word [OF assms])
  fix q'
  assume "take_bits n q = Some (Some (bits_word (take n (queue_bits q))), q')" "queue_ok q'"
    "queue_bits q' = drop n (queue_bits q)"
  then show thesis using that [of q'] by (simp add: write_value_def)
qed

lemma write_full_words_ok:
  assumes "queue_ok q"
  shows "\<exists>vs q'. write_full_words k q = Some (value_texts k vs, k + length vs, q') \<and> queue_ok q' \<and>
    length (queue_bits q') < 64 \<and> bits_words (queue_bits q) = vs @ bits_words (queue_bits q')"
  using assms
proof (induction "length (queue_bits q)" arbitrary: q k rule: less_induct)
  case less
  show ?case
  proof (cases "64 \<le> length (queue_bits q)")
    case False
    then show ?thesis using less.prems
      by (intro exI [of _ "[]"] exI [of _ q]) (simp add: write_full_words.simps queue_len_eq)
  next
    case True
    obtain q1 where q1: "write_value 64 k q = Some (value_texts k [bits_word (take 64 (queue_bits q))], k + 1, q1)"
      "queue_ok q1" "queue_bits q1 = drop 64 (queue_bits q)"
      by (rule write_value_ok [OF less.prems _ True]) simp
    obtain vs q2 where q2: "write_full_words (k + 1) q1 = Some (value_texts (k + 1) vs, k + 1 + length vs, q2)"
      "queue_ok q2" "length (queue_bits q2) < 64" "bits_words (queue_bits q1) = vs @ bits_words (queue_bits q2)"
    proof -
      have "length (queue_bits q1) < length (queue_bits q)" using q1(3) True by simp
      from less.hyps [OF this q1(2), of "k + 1"] that show thesis by blast
    qed
    have "bits_words (queue_bits q) = bits_word (take 64 (queue_bits q)) # vs @ bits_words (queue_bits q2)"
      using True q1(3) q2(4) by (subst bits_words.simps) auto
    with True q1 q2 less.prems show ?thesis
      by (intro exI [of _ "bits_word (take 64 (queue_bits q)) # vs"] exI [of _ q2])
        (simp add: write_full_words.simps [of k q] queue_len_eq)
  qed
qed

lemma generate_country_block_code_ok:
  assumes "queue_ok q"
  shows "generate_country_block_code name q block_count =
     Some ([nl,
            ''pub fn '' @ name @ ''_data() -> (Vec<u64>, usize) {'' @ nl,
            ''    ('' @ nl,
            ''        vec!['']
           @ value_texts 0 (fst (queue_data q)) @
           [nl @ ''        ],'' @ nl,
            ''        '' @ decimal (snd (queue_data q)) @ nl,
            ''    )'' @ nl,
            ''}'' @ nl,
            nl @ ''pub fn '' @ name @ ''_block_count() -> usize {'' @ nl,
            ''        '' @ decimal block_count @ nl,
            ''}'' @ nl])"
proof -
  obtain vs q1 where q1: "write_full_words 0 q = Some (value_texts 0 vs, length vs, q1)" "queue_ok q1"
    "length (queue_bits q1) < 64" "bits_words (queue_bits q) = vs @ bits_words (queue_bits q1)"
    using write_full_words_ok [OF assms, of 0] by auto
  show ?thesis
  proof (cases "queue_bits q1 = []")
    case True
    with q1 assms show ?thesis
      by (simp add: generate_country_block_code_def queue_len_eq queue_is_empty_def queue_data_def
          bits_words.simps [of "[]"])
  next
    case False
    obtain q2 where "write_value (length (queue_bits q1)) (length vs) q1 =
        Some (value_texts (length vs) [bits_word (queue_bits q1)], length vs + 1, q2)"
      by (rule write_value_ok [OF q1(2), of "length (queue_bits q1)"]) (use q1(3) in auto)
    moreover have "bits_words (queue_bits q1) = [bits_word (queue_bits q1)]"
      using False q1(3) by (simp add: bits_words.simps)
    ultimately show ?thesis
      using q1 assms False
      by (simp add: generate_country_block_code_def queue_len_eq queue_is_empty_def queue_data_def
          value_texts_append del: value_texts.simps)
  qed
qed

section \<open>Reading the numbers back\<close>

lemma refill_ok:
  assumes "queue_ok q"
  shows "\<exists>q'. refill (bits_words bits) (length bits) q = Some q' \<and> queue_ok q' \<and> queue_bits q' = queue_bits q @ bits"
  using assms
proof (induction bits arbitrary: q rule: bits_words.induct)
  case (1 bits)
  show ?case
  proof (cases "bits = []")
    case True
    then show ?thesis using "1.prems" by (simp add: refill.simps)
  next
    case False
    define n where "n = min 64 (length bits)"
    have n: "n \<le> 64" "length (take 64 bits) = n" by (simp_all add: n_def)
    obtain q1 where q1: "add_bits (bits_word (take 64 bits)) n q = Some q1" "queue_ok q1"
      "queue_bits q1 = queue_bits q @ take 64 bits"
      using bq.add_law [OF "1.prems" n(1)] bits_word_bits [of "take 64 bits"] n by metis
    have words: "bits_words bits = bits_word (take 64 bits) # bits_words (drop 64 bits)"
      using False by (subst bits_words.simps) simp
    show ?thesis
    proof (cases "64 \<le> length bits")
      case True
      then have "n = 64" by (simp add: n_def)
      with "1.IH" [OF False q1(2)] True q1 words show ?thesis
        by (simp add: refill.simps [of _ "length bits"])
    next
      case short: False
      then have "n = length bits" "take 64 bits = bits" by (simp_all add: n_def)
      with q1 words False short show ?thesis
        by (simp add: refill.simps [of _ "length bits"])
    qed
  qed
qed

lemma queue_data_read_back:
  obtains q' where "bit_queue_from_country_data (queue_data q) = Some q'" "queue_ok q'" "queue_bits q' = queue_bits q"
  using refill_ok [OF queue_ok_new, of "queue_bits q"]
  by (auto simp: bit_queue_from_country_data_def queue_data_def queue_bits_new)

section \<open>Reading encoded blocks back\<close>

lemma length_spans: "length (spans rs) = length rs"
  by (induction rs rule: spans.induct) auto

lemma encodes_count:
  "encodes ops bs f \<Longrightarrow> ordered_blocks bs \<Longrightarrow> bs \<noteq> [] \<Longrightarrow> final_block_count f = length (filled_after (- 1) bs)"
  by (metis encodes_def length_spans spans_all_records)

lemma encodes_v4_read_back:
  assumes "encodes ipv4_ops (v4_triples blocks) f" "ordered_blocks (v4_triples blocks)" "v4_triples blocks \<noteq> []"
    "countries_ok cs" "blocks_in cs blocks"
  shows "ipv4_deserialize (queue_data (final_queue f)) cs =
    Some (map (span_block ipv4_ops cs) (filled_after (- 1) (v4_triples blocks)))"
proof (rule queue_data_read_back [of "final_queue f"])
  fix q assume "bit_queue_from_country_data (queue_data (final_queue f)) = Some q" "queue_ok q"
    "queue_bits q = queue_bits (final_queue f)"
  with assms triples_indices(1) [OF assms(5)] show ?thesis
    by (intro ipv4_deserialize_ok) (auto simp: encodes_def countries_ok_def)
qed

lemma encodes_v6_read_back:
  assumes "encodes ipv6_ops (v6_triples blocks) f" "ordered_blocks (v6_triples blocks)" "v6_triples blocks \<noteq> []"
    "countries_ok cs" "blocks_in cs blocks"
  shows "ipv6_deserialize (queue_data (final_queue f)) cs =
    Some (map (span_block ipv6_ops cs) (filled_after (- 1) (v6_triples blocks)))"
proof (rule queue_data_read_back [of "final_queue f"])
  fix q assume "bit_queue_from_country_data (queue_data (final_queue f)) = Some q" "queue_ok q"
    "queue_bits q = queue_bits (final_queue f)"
  with assms triples_indices(2) [OF assms(5)] show ?thesis
    by (intro ipv6_deserialize_ok) (auto simp: encodes_def countries_ok_def)
qed

lemma encodes_finder:
  assumes "encodes ipv4_ops (v4_triples blocks) f4" "ordered_blocks (v4_triples blocks)" "v4_triples blocks \<noteq> []"
    "encodes ipv6_ops (v6_triples blocks) f6" "ordered_blocks (v6_triples blocks)" "v6_triples blocks \<noteq> []"
    "countries_ok cs" "blocks_in cs blocks"
  obtains finder where "finder_new cs (queue_data (final_queue f4)) (queue_data (final_queue f6)) = Some finder"
    "\<forall>ip. find_country finder ip = Some (country_of blocks ip)"
proof -
  define finder where "finder = \<lparr>finder_countries = cs,
    finder_ipv4 = map (span_block ipv4_ops cs) (filled_after (- 1) (v4_triples blocks)),
    finder_ipv6 = map (span_block ipv6_ops cs) (filled_after (- 1) (v6_triples blocks))\<rparr>"
  have new: "finder_new cs (queue_data (final_queue f4)) (queue_data (final_queue f6)) = Some finder"
    using encodes_v4_read_back [OF assms(1-3,7,8)] encodes_v6_read_back [OF assms(4-8)]
    by (simp add: finder_new_def finder_def)
  have "find_country finder ip = Some (country_of blocks ip)" for ip
  proof (cases ip)
    case (V4 a)
    then show ?thesis
      using find_country_v4 [OF assms(2,3), of finder cs a] country_of_v4 [OF assms(7,8)] by (simp add: finder_def)
  next
    case (V6 a)
    then show ?thesis
      using find_country_v6 [OF assms(5,6), of finder cs a] country_of_v6 [OF assms(7,8)] by (simp add: finder_def)
  qed
  with new that show ?thesis by blast
qed

section \<open>The generated table of countries\<close>

definition country_pairs :: "countries \<Rightarrow> (string \<times> string) list" where
  "country_pairs cs = map (\<lambda>c. (iso3166 c, country_name c)) (country_list cs)"

lemma countries_new_pairs:
  "country_pairs (countries_new pairs) =
     (''ZZ'', ''Sentinel'') # sort_key fst (remove_first (\<lambda>(code, _). code = ''ZZ'') pairs)"
proof -
  have "map ((\<lambda>c. (iso3166 c, country_name c)) \<circ> (\<lambda>(i, code, name). country_new (i + 1) code name)) (enumerate n xs) = xs"
    for n and xs :: "(string \<times> string) list"
    by (induction xs arbitrary: n) (auto simp: country_new_def)
  then show ?thesis by (simp add: country_pairs_def countries_new_list sentinel_def country_new_def)
qed

lemma countries_new_idem: "countries_new (country_pairs (countries_new pairs)) = countries_new pairs"
  unfolding countries_new_pairs
  by (simp add: countries_new_def sort_key_id_if_sorted)

section \<open>A sample\<close>

definition sample_countries :: countries where
  "sample_countries = countries_new [(''FR'', ''France''), (''AD'', ''Andorra'')]"

definition sample_blocks :: "country_block list" where
  "sample_blocks =
     [\<lparr>block_range = RangeV4 0x01020304 0x01020305, block_country = country_new 1 ''AD'' ''Andorra''\<rparr>,
      \<lparr>block_range = RangeV4 0x01020306 0x06070809, block_country = country_new 2 ''FR'' ''France''\<rparr>,
      \<lparr>block_range = RangeV6 0x10000 0x1FFFF, block_country = country_new 2 ''FR'' ''France''\<rparr>]"

lemma sample_ok:
  "ordered_blocks (v4_triples sample_blocks)" "ordered_blocks (v6_triples sample_blocks)"
  "v4_triples sample_blocks \<noteq> []" "v6_triples sample_blocks \<noteq> []" "countries_ok sample_countries"
  "blocks_in sample_countries sample_blocks"
proof -
  have "country_list sample_countries = [sentinel, country_new 1 ''AD'' ''Andorra'', country_new 2 ''FR'' ''France'']"
    by (simp add: sample_countries_def countries_new_list sort_key_def numeral_2_eq_2)
  then show "blocks_in sample_countries sample_blocks"
    by (simp add: blocks_in_def sample_blocks_def country_new_def)
qed (simp_all add: sample_blocks_def sample_countries_def countries_new_ok country_new_def)

section \<open>Properties\<close>




text \<open>
  C2: whatever ordered, non-overlapping blocks are serialized, the data deserializes to
  these blocks with every gap before, between and after them filled by one block of the
  sentinel country, and the recorded block count is the number of blocks.
\<close>

theorem serde_round_trip:
  assumes "ordered_blocks (v4_triples blocks)" "ordered_blocks (v6_triples blocks)"
    "v4_triples blocks \<noteq> []" "v6_triples blocks \<noteq> []" "countries_ok cs" "blocks_in cs blocks"
  shows "\<exists>f4 f6. do { s \<leftarrow> serializer_add_all blocks serializer_new; serializer_finish s } = Some (f4, f6) \<and>
     ipv4_deserialize (queue_data (final_queue f4)) cs =
       Some (map (span_block ipv4_ops cs) (filled_after (- 1) (v4_triples blocks))) \<and>
     ipv6_deserialize (queue_data (final_queue f6)) cs =
       Some (map (span_block ipv6_ops cs) (filled_after (- 1) (v6_triples blocks))) \<and>
     final_block_count f4 = length (filled_after (- 1) (v4_triples blocks)) \<and>
     final_block_count f6 = length (filled_after (- 1) (v6_triples blocks))"
proof -
  obtain f4 f6 where "do { s \<leftarrow> serializer_add_all blocks serializer_new; serializer_finish s } = Some (f4, f6)"
    "encodes ipv4_ops (v4_triples blocks) f4" "encodes ipv6_ops (v6_triples blocks) f6"
    by (rule serializer_ok [OF assms(1,2)])
  with assms show ?thesis
    by (blast intro: encodes_v4_read_back encodes_v6_read_back encodes_count)
qed

theorem serde_round_trip_witness:
  "\<exists>f4 f6. do { s \<leftarrow> serializer_add_all sample_blocks serializer_new; serializer_finish s } = Some (f4, f6) \<and>
     ipv4_deserialize (queue_data (final_queue f4)) sample_countries =
       Some (map (span_block ipv4_ops sample_countries)
         [(0, 0x01020303, 0), (0x01020304, 0x01020305, 1), (0x01020306, 0x06070809, 2), (0x0607080A, 0xFFFFFFFF, 0)]) \<and>
     final_block_count f4 = 4"
proof -
  have "filled_after (- 1) (v4_triples sample_blocks) =
      [(0, 0x01020303, 0), (0x01020304, 0x01020305, 1), (0x01020306, 0x06070809, 2), (0x0607080A, 0xFFFFFFFF, 0)]"
    by (simp add: sample_blocks_def country_new_def)
  with serde_round_trip [OF sample_ok] show ?thesis by auto
qed

end
