(* ===== verification/Std_Net.thy ===== *)
theory Std_Net
  imports Country_Serde
begin

text \<open>
  The part of the Rust standard library's \<open>std::net\<close> parser that the sources use
  through \<open>IpAddr::from_str\<close>.  A parser takes the remaining text and returns a value
  and the rest of the text; it fails without consuming anything.
\<close>

type_synonym 'a parser = "string \<Rightarrow> ('a \<times> string) option"

definition digit_value :: "char \<Rightarrow> nat option" where
  "digit_value c =
     (let n = of_char c :: nat in
      if 48 \<le> n \<and> n \<le> 57 then Some (n - 48)
      else if 97 \<le> n \<and> n \<le> 102 then Some (n - 87)
      else if 65 \<le> n \<and> n \<le> 70 then Some (n - 55)
      else None)"

definition to_digit :: "nat \<Rightarrow> char \<Rightarrow> nat option" where
  "to_digit radix c = (case digit_value c of Some d \<Rightarrow> if d < radix then Some d else None | None \<Rightarrow> None)"

definition read_given_char :: "char \<Rightarrow> unit parser" where
  "read_given_char target s = (case s of c # r \<Rightarrow> if c = target then Some ((), r) else None | [] \<Rightarrow> None)"

definition read_separator :: "char \<Rightarrow> nat \<Rightarrow> 'a parser \<Rightarrow> 'a parser" where
  "read_separator sep index inner s =
     (if 0 < index then do { (_, s) \<leftarrow> read_given_char sep s; inner s } else inner s)"

fun read_digits :: "nat \<Rightarrow> nat \<Rightarrow> nat \<Rightarrow> nat \<Rightarrow> (nat \<times> nat) parser" where
  "read_digits radix max_digits result digit_count [] = Some ((result, digit_count), [])"
| "read_digits radix max_digits result digit_count (c # s) =
     (case to_digit radix c of
        None \<Rightarrow> Some ((result, digit_count), c # s)
      | Some d \<Rightarrow>
          if max_digits < digit_count + 1 then None
          else read_digits radix max_digits (result * radix + d) (digit_count + 1) s)"

definition read_number :: "nat \<Rightarrow> nat \<Rightarrow> bool \<Rightarrow> 'w::len word parser" where
  "read_number radix max_digits allow_zero_prefix s = do {
     let has_leading_zero = (case s of c # _ \<Rightarrow> c = CHR ''0'' | [] \<Rightarrow> False);
     ((result, digit_count), rest) \<leftarrow> read_digits radix max_digits 0 0 s;
     if digit_count = 0 then None
     else if \<not> allow_zero_prefix \<and> has_leading_zero \<and> 1 < digit_count then None
     else if result < 2 ^ LENGTH('w) then Some (of_nat result, rest) else None }"

fun read_octets :: "nat \<Rightarrow> nat \<Rightarrow> u8 list parser" where
  "read_octets i 0 s = Some ([], s)"
| "read_octets i (Suc n) s = do {
     (g, s) \<leftarrow> read_separator (CHR ''.'') i (read_number 10 3 False) s;
     (gs, s) \<leftarrow> read_octets (i + 1) n s;
     Some (g # gs, s) }"

definition read_ipv4_addr :: "u32 parser" where
  "read_ipv4_addr s = do { (gs, s) \<leftarrow> read_octets 0 4 s; Some (parts_word gs, s) }"

function read_groups :: "nat \<Rightarrow> nat \<Rightarrow> string \<Rightarrow> u16 list \<times> bool \<times> string" where
  "read_groups i limit s =
     (if i < limit
      then
        (case (if i < limit - 1 then read_separator (CHR '':'') i read_ipv4_addr s else None) of
           Some (v4, s) \<Rightarrow> (word_parts 2 v4, True, s)
         | None \<Rightarrow>
             (case read_separator (CHR '':'') i (read_number 16 4 True) s of
                Some (g, s) \<Rightarrow>
                  (case read_groups (i + 1) limit s of (gs, v4, s) \<Rightarrow> (g # gs, v4, s))
              | None \<Rightarrow> ([], False, s)))
      else ([], False, s))"
  by pat_completeness auto
termination by (relation "measure (\<lambda>(i, limit, _). limit - i)") auto

declare read_groups.simps [simp del]

definition read_ipv6_addr :: "u128 parser" where
  "read_ipv6_addr s =
     (case read_groups 0 8 s of (head, head_ipv4, s) \<Rightarrow>
        if length head = 8 then Some (parts_word head, s)
        else if head_ipv4 then None
        else do {
          (_, s) \<leftarrow> read_given_char (CHR '':'') s;
          (_, s) \<leftarrow> read_given_char (CHR '':'') s;
          case read_groups 0 (8 - (length head + 1)) s of (tail, _, s) \<Rightarrow>
            Some (parts_word (head @ replicate (8 - length head - length tail) 0 @ tail), s) })"

definition read_ip_addr :: "ip_addr parser" where
  "read_ip_addr s =
     (case read_ipv4_addr s of
        Some (a, s) \<Rightarrow> Some (V4 a, s)
      | None \<Rightarrow> map_option (apfst V6) (read_ipv6_addr s))"

definition ip_addr_from_str :: "string \<Rightarrow> ip_addr option" where
  "ip_addr_from_str s =
     (case read_ip_addr s of Some (a, []) \<Rightarrow> Some a | _ \<Rightarrow> None)"

section \<open>Printing and parsing an IPv4 address\<close>

text \<open>The \<open>Display\<close> form of an \<open>Ipv4Addr\<close>.\<close>

definition show_ipv4 :: "u32 \<Rightarrow> string" where
  "show_ipv4 ip =
     (case octets4 ip of
        [a, b, c, d] \<Rightarrow> decimal (unat a) @ ''.'' @ decimal (unat b) @ ''.'' @ decimal (unat c) @ ''.'' @ decimal (unat d)
      | _ \<Rightarrow> [])"

lemma to_digit_decimal [simp]: "d < 10 \<Longrightarrow> to_digit 10 (char_of (48 + d)) = Some d"
  by (simp add: to_digit_def digit_value_def)

lemma read_digits_stop:
  "(case rest of [] \<Rightarrow> True | c # _ \<Rightarrow> to_digit radix c = None) \<Longrightarrow>
   read_digits radix m r k rest = Some ((r, k), rest)"
  by (cases rest) auto

lemma digit_not_zero: "0 < d \<Longrightarrow> d < 10 \<Longrightarrow> char_of (48 + d) \<noteq> CHR ''0''" for d :: nat
proof
  assume d: "0 < d" "d < 10" and eq: "char_of (48 + d) = CHR ''0''"
  from eq have "of_char (char_of (48 + d)) = (of_char (CHR ''0'') :: nat)" by simp
  with d show False by simp
qed

lemma read_number_octet:
  assumes "n < 256" "case rest of [] \<Rightarrow> True | c # _ \<Rightarrow> to_digit 10 c = None"
  shows "read_number 10 3 False (decimal n @ rest) = Some (of_nat n :: u8, rest)"
proof -
  note eval = read_number_def read_digits_stop [OF assms(2)] digit_not_zero decimal.simps [of n]
  consider "n < 10" | "10 \<le> n" "n < 100" | "100 \<le> n" by linarith
  then show ?thesis
  proof cases
    case 1
    then show ?thesis using assms(1) by (simp add: eval)
  next
    case 2
    then have "n div 10 < 10" "0 < n div 10" by (simp_all add: div_greater_zero_iff)
    with 2 show ?thesis
      using assms(1) by (simp add: eval decimal.simps [of "n div 10"])
  next
    case 3
    define a b where "a = n div 10 div 10" and "b = n div 10 mod 10"
    have "n div 10 < 100" "10 \<le> n div 10" "0 < a" "a < 10" "b < 10"
      using 3 assms(1) by (auto simp: a_def b_def)
    moreover have "(a * 10 + b) * 10 + n mod 10 = n" by (simp add: a_def b_def)
    ultimately show ?thesis
      using assms(1) 3
      by (simp add: eval decimal.simps [of "n div 10"] decimal.simps [of a] flip: a_def b_def)
  qed
qed

lemma to_digit_dot [simp]: "to_digit 10 (CHR ''.'') = None"
  by (simp add: to_digit_def digit_value_def)

lemma ip_addr_from_str_show_ipv4: "ip_addr_from_str (show_ipv4 ip) = Some (V4 ip)"
proof -
  have "length (octets4 ip) = Suc (Suc (Suc (Suc 0)))" by simp
  then obtain a b c d where parts: "octets4 ip = [a, b, c, d]" unfolding length_Suc_conv by auto
  have "unat v < 256" for v :: u8 using unsigned_less [of v, where ?'a = nat] by simp
  then have "read_octets 0 (Suc (Suc (Suc (Suc 0)))) (show_ipv4 ip) = Some ([a, b, c, d], [])"
    by (simp add: show_ipv4_def parts read_separator_def read_given_char_def read_number_octet
        read_number_octet [where rest = "[]", simplified])
  then have "read_octets 0 4 (show_ipv4 ip) = Some ([a, b, c, d], [])"
    by (simp add: eval_nat_numeral del: read_octets.simps)
  moreover have "parts_word [a, b, c, d] = ip"
    using parts_word_parts [where 'a = 32 and 'b = 8, of 4 ip] parts by (simp add: octets4_def)
  ultimately show ?thesis by (simp add: ip_addr_from_str_def read_ip_addr_def read_ipv4_addr_def)
qed

end
