(* ===== verification/Ip_Country_Csv.thy ===== *)
theory Ip_Country_Csv
  imports Country_Codegen Std_Net
begin

text \<open>
  Model of \<open>ip_country/src/ip_country_csv.rs\<close>: the table of countries compiled into the
  program and the parser of comma-separated input.  Splitting the input into records is
  the \<open>csv\<close> crate's work: the parser is given the list of results its reader yields.
  Error messages are values of \<open>csv_error\<close>; \<^term>\<open>None\<close> is a panic.  The lemmas
  show that the table is consistent and fits the nine bits of the format, and that
  parsing encodes exactly the well-formed lines and reports exactly the others.
\<close>

section \<open>The compiled table of countries\<close>

definition hard_coded_country_pairs :: "(string \<times> string) list" where
  "hard_coded_country_pairs =
     [(''ZZ'', ''Sentinel''),
      (''AD'', ''Andorra''),
      (''AE'', ''United Arab Emirates''),
      (''AF'', ''Afghanistan''),
      (''AG'', ''Antigua and Barbuda''),
      (''AI'', ''Anguilla''),
      (''AL'', ''Albania''),
      (''AM'', ''Armenia''),
      (''AO'', ''Angola''),
      (''AQ'', ''Antarctica''),
      (''AR'', ''Argentina''),
      (''AS'', ''American Samoa''),
      (''AT'', ''Austria''),
      (''AU'', ''Australia''),
      (''AW'', ''Aruba''),
      (''AX'', ''Aland Islands''),
      (''AZ'', ''Azerbaijan''),
      (''BA'', ''Bosnia and Herzegovina''),
      (''BB'', ''Barbados''),
      (''BD'', ''Bangladesh''),
      (''BE'', ''Belgium''),
      (''BF'', ''Burkina Faso''),
      (''BG'', ''Bulgaria''),
      (''BH'', ''Bahrain''),
      (''BI'', ''Burundi''),
      (''BJ'', ''Benin''),
      (''BL'', ''Saint Barthelemy''),
      (''BM'', ''Bermuda''),
      (''BN'', ''Brunei''),
      (''BO'', ''Bolivia''),
      (''BQ'', ''Bonaire, Saint Eustatius and Saba ''),
      (''BR'', ''Brazil''),
      (''BS'', ''Bahamas''),
      (''BT'', ''Bhutan''),
      (''BV'', ''Bouvet Island''),
      (''BW'', ''Botswana''),
      (''BY'', ''Belarus''),
      (''BZ'', ''Belize''),
      (''CA'', ''Canada''),
      (''CC'', ''Cocos Islands''),
      (''CD'', ''Democratic Republic of the Congo''),
      (''CF'', ''Central African Republic''),
      (''CG'', ''Republic of the Congo''),
      (''CH'', ''Switzerland''),
      (''CI'', ''Ivory Coast''),
      (''CK'', ''Cook Islands''),
      (''CL'', ''Chile''),
      (''CM'', ''Cameroon''),
      (''CN'', ''China''),
      (''CO'', ''Colombia''),
      (''CR'', ''Costa Rica''),
      (''CU'', ''Cuba''),
      (''CV'', ''Cabo Verde''),
      (''CW'', ''Curacao''),
      (''CX'', ''Christmas Island''),
      (''CY'', ''Cyprus''),
      (''CZ'', ''Czechia''),
      (''DE'', ''Germany''),
      (''DJ'', ''Djibouti''),
      (''DK'', ''Denmark''),
      (''DM'', ''Dominica''),
      (''DO'', ''Dominican Republic''),
      (''DZ'', ''Algeria''),
      (''EC'', ''Ecuador''),
      (''EE'', ''Estonia''),
      (''EG'', ''Egypt''),
      (''EH'', ''Western Sahara''),
      (''ER'', ''Eritrea''),
      (''ES'', ''Spain''),
      (''ET'', ''Ethiopia''),
      (''FI'', ''Finland''),
      (''FJ'', ''Fiji''),
      (''FK'', ''Falkland Islands''),
      (''FM'', ''Micronesia''),
      (''FO'', ''Faroe Islands''),
      (''FR'', ''France''),
      (''GA'', ''Gabon''),
      (''GB'', ''United Kingdom''),
      (''GD'', ''Grenada''),
      (''GE'', ''Georgia''),
      (''GF'', ''French Guiana''),
      (''GG'', ''Guernsey''),
      (''GH'', ''Ghana''),
      (''GI'', ''Gibraltar''),
      (''GL'', ''Greenland''),
      (''GM'', ''Gambia''),
      (''GN'', ''Guinea''),
      (''GP'', ''Guadeloupe''),
      (''GQ'', ''Equatorial Guinea''),
      (''GR'', ''Greece''),
      (''GS'', ''South Georgia and the South Sandwich Islands''),
      (''GT'', ''Guatemala''),
      (''GU'', ''Guam''),
      (''GW'', ''Guinea-Bissau''),
      (''GY'', ''Guyana''),
      (''HK'', ''Hong Kong''),
      (''HM'', ''Heard Island and McDonald Islands''),
      (''HN'', ''Honduras''),
      (''HR'', ''Croatia''),
      (''HT'', ''Haiti''),
      (''HU'', ''Hungary''),
      (''ID'', ''Indonesia''),
      (''IE'', ''Ireland''),
      (''IL'', ''Israel''),
      (''IM'', ''Isle of Man''),
      (''IN'', ''India''),
      (''IO'', ''British Indian Ocean Territory''),
      (''IQ'', ''Iraq''),
      (''IR'', ''Iran''),
      (''IS'', ''Iceland''),
      (''IT'', ''Italy''),
      (''JE'', ''Jersey''),
      (''JM'', ''Jamaica''),
      (''JO'', ''Jordan''),
      (''JP'', ''Japan''),
      (''KE'', ''Kenya''),
      (''KG'', ''Kyrgyzstan''),
      (''KH'', ''Cambodia''),
      (''KI'', ''Kiribati''),
      (''KM'', ''Comoros''),
      (''KN'', ''Saint Kitts and Nevis''),
      (''KP'', ''North Korea''),
      (''KR'', ''South Korea''),
      (''KW'', ''Kuwait''),
      (''KY'', ''Cayman Islands''),
      (''KZ'', ''Kazakhstan''),
      (''LA'', ''Laos''),
      (''LB'', ''Lebanon''),
      (''LC'', ''Saint Lucia''),
      (''LI'', ''Liechtenstein''),
      (''LK'', ''Sri Lanka''),
      (''LR'', ''Liberia''),
      (''LS'', ''Lesotho''),
      (''LT'', ''Lithuania''),
      (''LU'', ''Luxembourg''),
      (''LV'', ''Latvia''),
      (''LY'', ''Libya''),
      (''MA'', ''Morocco''),
      (''MC'', ''Monaco''),
      (''MD'', ''Moldova''),
      (''ME'', ''Montenegro''),
      (''MF'', ''Saint Martin''),
      (''MG'', ''Madagascar''),
      (''MH'', ''Marshall Islands''),
      (''MK'', ''North Macedonia''),
      (''ML'', ''Mali''),
      (''MM'', ''Myanmar''),
      (''MN'', ''Mongolia''),
      (''MO'', ''Macao''),
      (''MP'', ''Northern Mariana Islands''),
      (''MQ'', ''Martinique''),
      (''MR'', ''Mauritania''),
      (''MS'', ''Montserrat''),
      (''MT'', ''Malta''),
      (''MU'', ''Mauritius''),
      (''MV'', ''Maldives''),
      (''MW'', ''Malawi''),
      (''MX'', ''Mexico''),
      (''MY'', ''Malaysia''),
      (''MZ'', ''Mozambique''),
      (''NA'', ''Namibia''),
      (''NC'', ''New Caledonia''),
      (''NE'', ''Niger''),
      (''NF'', ''Norfolk Island''),
      (''NG'', ''Nigeria''),
      (''NI'', ''Nicaragua''),
      (''NL'', ''The Netherlands''),
      (''NO'', ''Norway''),
      (''NP'', ''Nepal''),
      (''NR'', ''Nauru''),
      (''NU'', ''Niue''),
      (''NZ'', ''New Zealand''),
      (''OM'', ''Oman''),
      (''PA'', ''Panama''),
      (''PE'', ''Peru''),
      (''PF'', ''French Polynesia''),
      (''PG'', ''Papua New Guinea''),
      (''PH'', ''Philippines''),
      (''PK'', ''Pakistan''),
      (''PL'', ''Poland''),
      (''PM'', ''Saint Pierre and Miquelon''),
      (''PN'', ''Pitcairn''),
      (''PR'', ''Puerto Rico''),
      (''PS'', ''Palestinian Territory''),
      (''PT'', ''Portugal''),
      (''PW'', ''Palau''),
      (''PY'', ''Paraguay''),
      (''QA'', ''Qatar''),
      (''RE'', ''Reunion''),
      (''RO'', ''Romania''),
      (''RS'', ''Serbia''),
      (''RU'', ''Russia''),
      (''RW'', ''Rwanda''),
      (''SA'', ''Saudi Arabia''),
      (''SB'', ''Solomon Islands''),
      (''SC'', ''Seychelles''),
      (''SD'', ''Sudan''),
      (''SE'', ''Sweden''),
      (''SG'', ''Singapore''),
      (''SH'', ''Saint Helena''),
      (''SI'', ''Slovenia''),
      (''SJ'', ''Svalbard and Jan Mayen''),
      (''SK'', ''Slovakia''),
      (''SL'', ''Sierra Leone''),
      (''SM'', ''San Marino''),
      (''SN'', ''Senegal''),
      (''SO'', ''Somalia''),
      (''SR'', ''Suriname''),
      (''SS'', ''South Sudan''),
      (''ST'', ''Sao Tome and Principe''),
      (''SV'', ''El Salvador''),
      (''SX'', ''Sint Maarten''),
      (''SY'', ''Syria''),
      (''SZ'', ''Eswatini''),
      (''TC'', ''Turks and Caicos Islands''),
      (''TD'', ''Chad''),
      (''TF'', ''French Southern Territories''),
      (''TG'', ''Togo''),
      (''TH'', ''Thailand''),
      (''TJ'', ''Tajikistan''),
      (''TK'', ''Tokelau''),
      (''TL'', ''Timor Leste''),
      (''TM'', ''Turkmenistan''),
      (''TN'', ''Tunisia''),
      (''TO'', ''Tonga''),
      (''TR'', ''Turkey''),
      (''TT'', ''Trinidad and Tobago''),
      (''TV'', ''Tuvalu''),
      (''TW'', ''Taiwan''),
      (''TZ'', ''Tanzania''),
      (''UA'', ''Ukraine''),
      (''UG'', ''Uganda''),
      (''UM'', ''United States Minor Outlying Islands''),
      (''US'', ''United States''),
      (''UY'', ''Uruguay''),
      (''UZ'', ''Uzbekistan''),
      (''VA'', ''Vatican''),
      (''VC'', ''Saint Vincent and the Grenadines''),
      (''VE'', ''Venezuela''),
      (''VG'', ''British Virgin Islands''),
      (''VI'', ''U.S. Virgin Islands''),
      (''VN'', ''Vietnam''),
      (''VU'', ''Vanuatu''),
      (''WF'', ''Wallis and Futuna''),
      (''WS'', ''Samoa''),
      (''XK'', ''Kosovo''),
      (''YE'', ''Yemen''),
      (''YT'', ''Mayotte''),
      (''ZA'', ''South Africa''),
      (''ZM'', ''Zambia''),
      (''ZW'', ''Zimbabwe'')]"

definition HARD_CODED_COUNTRIES :: countries where
  "HARD_CODED_COUNTRIES = countries_new hard_coded_country_pairs"

section \<open>Parsing one record\<close>

datatype csv_error =
    MissingIpAddress
  | InvalidIpAddress string
  | MissingCountryCode
  | WrongElementCount nat
  | EndBeforeStart ip_addr ip_addr
  | MixedVersions ip_addr ip_addr
  | BadCountryCode country_error
  | CsvFormatError string

definition ip_addr_from_iter :: "string list \<Rightarrow> csv_error + ip_addr \<times> string list" where
  "ip_addr_from_iter iter =
     (case iter of
        [] \<Rightarrow> Inl MissingIpAddress
      | ip_string # rest \<Rightarrow>
          (case ip_addr_from_str ip_string of
             None \<Rightarrow> Inl (InvalidIpAddress ip_string)
           | Some ip \<Rightarrow> Inr (ip, rest)))"

fun validate_ip_range :: "ip_addr \<Rightarrow> ip_addr \<Rightarrow> csv_error + unit" where
  "validate_ip_range (V4 s) (V4 e) = (if e < s then Inl (EndBeforeStart (V4 s) (V4 e)) else Inr ())"
| "validate_ip_range (V6 s) (V6 e) = (if e < s then Inl (EndBeforeStart (V6 s) (V6 e)) else Inr ())"
| "validate_ip_range s e = Inl (MixedVersions s e)"

definition block_try_from :: "countries \<Rightarrow> string list \<Rightarrow> (csv_error + country_block) option" where
  "block_try_from cs string_record =
     (case ip_addr_from_iter string_record of
        Inl e \<Rightarrow> Some (Inl e)
      | Inr (start_ip, iter) \<Rightarrow>
     (case ip_addr_from_iter iter of
        Inl e \<Rightarrow> Some (Inl e)
      | Inr (end_ip, iter) \<Rightarrow>
     (case iter of
        [] \<Rightarrow> Some (Inl MissingCountryCode)
      | code # iter \<Rightarrow>
          if iter \<noteq> [] then Some (Inl (WrongElementCount (length string_record)))
          else
     (case validate_ip_range start_ip end_ip of
        Inl e \<Rightarrow> Some (Inl e)
      | Inr _ \<Rightarrow>
     (case country_from_code cs code of
        None \<Rightarrow> None
      | Some (Inl e) \<Rightarrow> Some (Inl (BadCountryCode e))
      | Some (Inr c) \<Rightarrow>
          (case (start_ip, end_ip) of
             (V4 s, V4 e) \<Rightarrow> Some (Inr \<lparr>block_range = RangeV4 s e, block_country = c\<rparr>)
           | (V6 s, V6 e) \<Rightarrow> Some (Inr \<lparr>block_range = RangeV6 s e, block_country = c\<rparr>)
           | _ \<Rightarrow> None))))))"

section \<open>Parsing the input\<close>

fun parse_records ::
  "countries \<Rightarrow> nat \<Rightarrow> (string + string list) list \<Rightarrow> country_block_serializer \<Rightarrow>
   ((nat \<times> csv_error) list \<times> country_block_serializer) option" where
  "parse_records cs idx [] s = Some ([], s)"
| "parse_records cs idx (r # rs) s = do {
     result \<leftarrow> (case r of Inr string_record \<Rightarrow> block_try_from cs string_record
                       | Inl e \<Rightarrow> Some (Inl (CsvFormatError e)));
     case result of
       Inr block \<Rightarrow> do { s \<leftarrow> serializer_add block s; parse_records cs (idx + 1) rs s }
     | Inl e \<Rightarrow> do { (es, s) \<leftarrow> parse_records cs (idx + 1) rs s; Some ((idx + 1, e) # es, s) } }"

definition csv_parse ::
  "(string + string list) list \<Rightarrow>
   ((final_bit_queue \<times> final_bit_queue \<times> countries) \<times> (nat \<times> csv_error) list) option" where
  "csv_parse records = do {
     (local_errors, serializer) \<leftarrow> parse_records HARD_CODED_COUNTRIES 0 records serializer_new;
     (final_ipv4, final_ipv6) \<leftarrow> serializer_finish serializer;
     Some ((final_ipv4, final_ipv6, HARD_CODED_COUNTRIES), local_errors) }"

section \<open>Properties of the table\<close>

lemma length_remove_first:
  "length (remove_first P xs) = (if list_ex P xs then length xs - 1 else length xs)"
proof (induction xs)
  case (Cons x xs)
  then show ?case by (cases xs) auto
qed simp

lemma list_ex_head: "P x \<Longrightarrow> list_ex P (x # xs)"
  by simp

lemma hard_coded_pairs_length: "length hard_coded_country_pairs = 251"
  by (simp only: hard_coded_country_pairs_def list.size)

lemma hard_coded_length: "length (country_list HARD_CODED_COUNTRIES) = 251"
proof -
  have "list_ex (\<lambda>(code, _). code = ''ZZ'') hard_coded_country_pairs"
    unfolding hard_coded_country_pairs_def by (rule list_ex_head) simp
  then show ?thesis
    by (simp add: HARD_CODED_COUNTRIES_def countries_new_list length_remove_first hard_coded_pairs_length)
qed

lemma hard_coded_ok: "countries_ok HARD_CODED_COUNTRIES"
  by (simp add: HARD_CODED_COUNTRIES_def countries_new_ok)

section \<open>Properties of the parser\<close>

definition record_result :: "countries \<Rightarrow> string + string list \<Rightarrow> (csv_error + country_block) option" where
  "record_result cs r =
     (case r of Inr string_record \<Rightarrow> block_try_from cs string_record | Inl e \<Rightarrow> Some (Inl (CsvFormatError e)))"

fun good_blocks :: "countries \<Rightarrow> (string + string list) list \<Rightarrow> country_block list" where
  "good_blocks cs [] = []"
| "good_blocks cs (r # rs) =
     (case record_result cs r of Some (Inr b) \<Rightarrow> b # good_blocks cs rs | _ \<Rightarrow> good_blocks cs rs)"

fun bad_lines :: "countries \<Rightarrow> nat \<Rightarrow> (string + string list) list \<Rightarrow> (nat \<times> csv_error) list" where
  "bad_lines cs n [] = []"
| "bad_lines cs n (r # rs) =
     (case record_result cs r of Some (Inl e) \<Rightarrow> (n, e) # bad_lines cs (n + 1) rs | _ \<Rightarrow> bad_lines cs (n + 1) rs)"

lemma block_try_from_total: "countries_ok cs \<Longrightarrow> block_try_from cs string_record \<noteq> None"
  by (auto simp: block_try_from_def country_from_code_ok
      split: sum.split list.split option.split ip_addr.split prod.split)

lemma block_try_from_block:
  assumes "countries_ok cs" "block_try_from cs string_record = Some (Inr b)"
  shows "country_index (block_country b) < length (country_list cs)"
    "country_list cs ! country_index (block_country b) = block_country b"
    "case block_range b of RangeV4 s e \<Rightarrow> s \<le> e | RangeV6 s e \<Rightarrow> s \<le> e"
proof -
  obtain code where code: "country_from_code cs code = Some (Inr (block_country b))"
    and r: "case block_range b of RangeV4 s e \<Rightarrow> s \<le> e | RangeV6 s e \<Rightarrow> s \<le> e"
    using assms(2)
    by (auto simp: block_try_from_def split: sum.splits list.splits option.splits ip_addr.splits if_splits)
  show "country_index (block_country b) < length (country_list cs)"
    "country_list cs ! country_index (block_country b) = block_country b"
    using country_from_code_index [OF assms(1) code] .
  show "case block_range b of RangeV4 s e \<Rightarrow> s \<le> e | RangeV6 s e \<Rightarrow> s \<le> e" by (fact r)
qed

lemma good_blocks_in: "countries_ok cs \<Longrightarrow> blocks_in cs (good_blocks cs rs)"
  using block_try_from_block
  by (induction rs) (auto simp: blocks_in_def record_result_def split: option.split sum.split)

lemma parse_records_eq:
  assumes "countries_ok cs"
  shows "parse_records cs n rs s =
    map_option (\<lambda>s. (bad_lines cs (n + 1) rs, s)) (serializer_add_all (good_blocks cs rs) s)"
proof (induction rs arbitrary: n s)
  case (Cons r rs)
  obtain res where res: "record_result cs r = Some res"
    using block_try_from_total [OF assms, of "projr r"] by (cases r) (auto simp: record_result_def)
  show ?case
  proof (cases res)
    case (Inl e)
    with res Cons show ?thesis
      by (cases "serializer_add_all (good_blocks cs rs) s") (auto simp: record_result_def)
  next
    case (Inr b)
    with res Cons show ?thesis
      by (cases "serializer_add b s") (auto simp: record_result_def)
  qed
qed simp

lemma csv_parse_ok:
  assumes "ordered_blocks (v4_triples (good_blocks HARD_CODED_COUNTRIES rs))"
    "ordered_blocks (v6_triples (good_blocks HARD_CODED_COUNTRIES rs))"
  obtains f4 f6 where
    "csv_parse rs = Some ((f4, f6, HARD_CODED_COUNTRIES), bad_lines HARD_CODED_COUNTRIES 1 rs)"
    "encodes ipv4_ops (v4_triples (good_blocks HARD_CODED_COUNTRIES rs)) f4"
    "encodes ipv6_ops (v6_triples (good_blocks HARD_CODED_COUNTRIES rs)) f6"
proof -
  obtain f4 f6 where f: "do { s \<leftarrow> serializer_add_all (good_blocks HARD_CODED_COUNTRIES rs) serializer_new;
      serializer_finish s } = Some (f4, f6)"
    "encodes ipv4_ops (v4_triples (good_blocks HARD_CODED_COUNTRIES rs)) f4"
    "encodes ipv6_ops (v6_triples (good_blocks HARD_CODED_COUNTRIES rs)) f6"
    by (rule serializer_ok [OF assms])
  from f(1) obtain s where "serializer_add_all (good_blocks HARD_CODED_COUNTRIES rs) serializer_new = Some s"
    "serializer_finish s = Some (f4, f6)" by (auto simp: bind_eq_Some_conv)
  with f(2,3) that show ?thesis
    by (simp add: csv_parse_def parse_records_eq [OF hard_coded_ok])
qed

section \<open>Properties\<close>



text \<open>
  The compiled table of countries has 251 entries, so every index fits the nine bits
  of the format, and every lookup by index returns the country with that index.
\<close>

theorem hard_coded_countries_correct:
  "countries_len HARD_CODED_COUNTRIES = 251 \<and> countries_len HARD_CODED_COUNTRIES \<le> 2 ^ 9 \<and>
   countries_ok HARD_CODED_COUNTRIES"
  by (simp add: countries_len_def hard_coded_length hard_coded_ok)

text \<open>
  An address field holding the text of an IPv4 address is read as that address.
\<close>

theorem ipv4_field_round_trip: "ip_addr_from_iter (show_ipv4 ip # rest) = Inr (V4 ip, rest)"
  by (simp add: ip_addr_from_iter_def ip_addr_from_str_show_ipv4)

end
