(* ===== verification/Ip_Country_Mmdb.thy ===== *)
theory Ip_Country_Mmdb
  imports Country_Codegen "HOL-Library.Multiset"
begin

text \<open>
  Model of \<open>ip_country/src/ip_country_mmdb.rs\<close>: building the country data from a
  MaxMind database.  Opening the database and iterating over its networks is the
  \<open>maxminddb\<close> crate's work and the first and last address of a network the
  \<open>ipnetwork\<close> crate's: both are parameters.  The order in which a \<open>HashSet\<close>
  yields its elements is a parameter too.  The lemmas show that coalescing adjacent
  ranges keeps which code covers which address, and that every code found is in the
  table that is built.
\<close>

section \<open>What the libraries provide\<close>

datatype ('n4, 'n6) ip_network = NetV4 'n4 | NetV6 'n6

record ('n4, 'n6) ipnetwork_ops =
  network4 :: "'n4 \<Rightarrow> u32"
  broadcast4 :: "'n4 \<Rightarrow> u32"
  network6 :: "'n6 \<Rightarrow> u128"
  broadcast6 :: "'n6 \<Rightarrow> u128"

record city_country =
  city_iso_code :: "string option"
  city_names :: "(string \<times> string) list option"

record ('n4, 'n6) within_item =
  ip_net :: "('n4, 'n6) ip_network"
  item_country :: "city_country option"

datatype ('n4, 'n6) mmdb_error =
    StdinError string
  | OpenError string
  | WithinError string
  | ItemError string
  | NoName string
  | NoCode string
  | NoCodeNoName "('n4, 'n6) ip_network"
  | NoCountry "('n4, 'n6) ip_network"
  | CountryNotFound string ip_range country_error

section \<open>Extraction\<close>

definition ipn_to_range :: "('n4, 'n6) ipnetwork_ops \<Rightarrow> ('n4, 'n6) ip_network \<Rightarrow> ip_range" where
  "ipn_to_range nets ipn =
     (case ipn of
        NetV4 n \<Rightarrow> RangeV4 (network4 nets n) (broadcast4 nets n)
      | NetV6 n \<Rightarrow> RangeV6 (network6 nets n) (broadcast6 nets n))"

definition add_or_coalesce ::
  "string \<Rightarrow> ip_range \<Rightarrow> (string \<times> ip_range) list \<Rightarrow> (string \<times> ip_range) list option" where
  "add_or_coalesce cur_code cur_range coded_ranges = do {
     new_range_opt \<leftarrow> (case last_opt coded_ranges of
        None \<Rightarrow> Some None
      | Some (last_code, last_range) \<Rightarrow>
          if last_code = cur_code
          then do {
            consecutive \<leftarrow> are_consecutive (range_end last_range) (range_start cur_range);
            if consecutive
            then do { r \<leftarrow> ip_range_new (range_start last_range) (range_end cur_range); Some (Some r) }
            else Some None }
          else Some None);
     case new_range_opt of
       Some new_range \<Rightarrow> Some (butlast coded_ranges @ [(cur_code, new_range)])
     | None \<Rightarrow> Some (coded_ranges @ [(cur_code, cur_range)]) }"

record ('n4, 'n6) extraction =
  ext_ranges :: "(string \<times> ip_range) list"
  ext_pairs :: "(string \<times> string) list"
  ext_errors :: "('n4, 'n6) mmdb_error list"

definition extract_item ::
  "('n4, 'n6) ipnetwork_ops \<Rightarrow> string + ('n4, 'n6) within_item \<Rightarrow> ('n4, 'n6) extraction \<Rightarrow>
   ('n4, 'n6) extraction option" where
  "extract_item nets item_result x =
     (case item_result of
        Inl e \<Rightarrow> Some (x\<lparr>ext_errors := ext_errors x @ [ItemError e]\<rparr>)
      | Inr item \<Rightarrow>
          let r = ipn_to_range nets (ip_net item);
              found = (\<lambda>code name errs. do {
                ranges \<leftarrow> add_or_coalesce code r (ext_ranges x);
                Some (x\<lparr>ext_ranges := ranges, ext_pairs := List.insert (code, name) (ext_pairs x),
                        ext_errors := ext_errors x @ errs\<rparr>) })
          in (case item_country item of
                Some c \<Rightarrow>
                  (case (city_iso_code c, map_option (\<lambda>ns. map_of ns ''en'') (city_names c)) of
                     (Some code, Some (Some name)) \<Rightarrow> found code name []
                   | (Some code, _) \<Rightarrow> found code ''Unknown'' [NoName code]
                   | (None, Some (Some name)) \<Rightarrow> found ''ZZ'' ''Sentinel'' [NoCode name]
                   | (None, _) \<Rightarrow> found ''ZZ'' ''Sentinel'' [NoCodeNoName (ip_net item)])
              | None \<Rightarrow> found ''ZZ'' ''Sentinel'' [NoCountry (ip_net item)]))"

fun extract_data ::
  "('n4, 'n6) ipnetwork_ops \<Rightarrow> (string + ('n4, 'n6) within_item) list \<Rightarrow> ('n4, 'n6) extraction \<Rightarrow>
   ('n4, 'n6) extraction option" where
  "extract_data nets [] x = Some x"
| "extract_data nets (i # is) x = do { x \<leftarrow> extract_item nets i x; extract_data nets is x }"

section \<open>Parsing\<close>

fun make_country_blocks ::
  "countries \<Rightarrow> (string \<times> ip_range) list \<Rightarrow> (country_block list \<times> ('n4, 'n6) mmdb_error list) option" where
  "make_country_blocks cs [] = Some ([], [])"
| "make_country_blocks cs ((code, r) # rest) = do {
     found \<leftarrow> country_from_code cs code;
     (blocks, errors) \<leftarrow> make_country_blocks cs rest;
     case found of
       Inr c \<Rightarrow> Some (\<lparr>block_range = r, block_country = c\<rparr> # blocks, errors)
     | Inl e \<Rightarrow> Some (\<lparr>block_range = r, block_country = country_new 0 ''ZZ'' ''Unknown''\<rparr> # blocks,
                     CountryNotFound code r e # errors) }"

definition mmdb_parse ::
  "('n4, 'n6) ipnetwork_ops \<Rightarrow> ((string \<times> string) list \<Rightarrow> (string \<times> string) list) \<Rightarrow>
   (u8 list \<Rightarrow> string + 'r) \<Rightarrow> ('r \<Rightarrow> string + (string + ('n4, 'n6) within_item) list) \<Rightarrow>
   string option \<times> u8 list \<Rightarrow>
   ((final_bit_queue \<times> final_bit_queue \<times> countries) \<times> ('n4, 'n6) mmdb_error list) option" where
  "mmdb_parse nets hash_order from_source within stdin =
     (let (read_error, bytes) = stdin;
          errors = (case read_error of None \<Rightarrow> [] | Some e \<Rightarrow> [StdinError e])
      in (case from_source bytes of
            Inl e \<Rightarrow> Some ((final_default, final_default, countries_new []), errors @ [OpenError e])
          | Inr reader \<Rightarrow> do {
              x \<leftarrow> (case within reader of
                 Inr items \<Rightarrow> extract_data nets items \<lparr>ext_ranges = [], ext_pairs = [], ext_errors = errors\<rparr>
               | Inl e \<Rightarrow> Some \<lparr>ext_ranges = [], ext_pairs = [], ext_errors = errors @ [WithinError e]\<rparr>);
              let cs = countries_new (hash_order (ext_pairs x));
              (blocks, block_errors) \<leftarrow> make_country_blocks cs (ext_ranges x);
              serializer \<leftarrow> serializer_add_all blocks serializer_new;
              (ipv4_bit_queue, ipv6_bit_queue) \<leftarrow> serializer_finish serializer;
              Some ((ipv4_bit_queue, ipv6_bit_queue, cs), ext_errors x @ block_errors) }))"

section \<open>Coalescing keeps the coverage\<close>

definition range_nonempty :: "ip_range \<Rightarrow> bool" where
  "range_nonempty r \<longleftrightarrow> (case r of RangeV4 s e \<Rightarrow> s \<le> e | RangeV6 s e \<Rightarrow> s \<le> e)"

definition covers :: "(string \<times> ip_range) list \<Rightarrow> string \<Rightarrow> ip_addr \<Rightarrow> bool" where
  "covers rs code ip \<longleftrightarrow> (\<exists>r. (code, r) \<in> set rs \<and> range_contains r ip)"

lemma covers_append [simp]: "covers (xs @ ys) c ip \<longleftrightarrow> covers xs c ip \<or> covers ys c ip"
  by (auto simp: covers_def)

lemma covers_single [simp]: "covers [(code, r)] c ip \<longleftrightarrow> c = code \<and> range_contains r ip"
  by (auto simp: covers_def)

lemma word_between_join:
  "a \<le> b \<Longrightarrow> b \<noteq> - 1 \<Longrightarrow> b + 1 \<le> c \<Longrightarrow> a \<le> x \<and> x \<le> c \<longleftrightarrow> (a \<le> x \<and> x \<le> b) \<or> (b + 1 \<le> x \<and> x \<le> c)"
  for a b c x :: "'a::len word"
  using word_less_plus_one [of b] inc_le [of b x]
  by (meson leD le_less_trans less_le_trans linorder_le_cases not_le order_less_imp_le order_trans)

lemma join_ranges:
  assumes "are_consecutive (range_end r1) (range_start r2) = Some True" "range_nonempty r1" "range_nonempty r2"
  obtains r where "ip_range_new (range_start r1) (range_end r2) = Some r" "range_nonempty r"
    "\<And>ip. range_contains r ip \<longleftrightarrow> range_contains r1 ip \<or> range_contains r2 ip"
proof (cases r1)
  case (RangeV4 a b)
  with assms obtain c where r2: "r2 = RangeV4 (b + 1) c" "b \<noteq> - 1"
    by (cases r2) (auto simp: next_of_def split: if_splits)
  show ?thesis
  proof (rule that [of "RangeV4 a c"])
    show "range_nonempty (RangeV4 a c)"
      using assms RangeV4 r2 word_less_plus_one [of b] by (auto simp: range_nonempty_def)
    show "range_contains (RangeV4 a c) ip \<longleftrightarrow> range_contains r1 ip \<or> range_contains r2 ip" for ip
      using assms RangeV4 r2 word_between_join [of a b c]
      by (cases ip) (simp_all add: contains_inner_def range_nonempty_def)
  qed (simp add: RangeV4 r2 ip_range_new_def)
next
  case (RangeV6 a b)
  with assms obtain c where r2: "r2 = RangeV6 (b + 1) c" "b \<noteq> - 1"
    by (cases r2) (auto simp: next_of_def split: if_splits)
  show ?thesis
  proof (rule that [of "RangeV6 a c"])
    show "range_nonempty (RangeV6 a c)"
      using assms RangeV6 r2 word_less_plus_one [of b] by (auto simp: range_nonempty_def)
    show "range_contains (RangeV6 a c) ip \<longleftrightarrow> range_contains r1 ip \<or> range_contains r2 ip" for ip
      using assms RangeV6 r2 word_between_join [of a b c]
      by (cases ip) (simp_all add: contains_inner_def range_nonempty_def)
  qed (simp add: RangeV6 r2 ip_range_new_def)
qed

lemma add_or_coalesce_covers:
  assumes "add_or_coalesce code r rs = Some rs'" "range_nonempty r" "\<forall>x \<in> set rs. range_nonempty (snd x)"
  shows "covers rs' c ip \<longleftrightarrow> covers rs c ip \<or> c = code \<and> range_contains r ip"
    "\<forall>x \<in> set rs'. range_nonempty (snd x)" "fst ` set rs' = insert code (fst ` set rs)"
proof -
  consider "rs' = rs @ [(code, r)]"
    | xs l where "rs = xs @ [(code, l)]" "are_consecutive (range_end l) (range_start r) = Some True"
      "map_option (\<lambda>n. xs @ [(code, n)]) (ip_range_new (range_start l) (range_end r)) = Some rs'"
    using assms(1)
    by (cases rs rule: rev_cases)
      (auto simp: add_or_coalesce_def last_opt_def bind_eq_Some_conv split: if_splits option.splits)
  then have "(covers rs' c ip \<longleftrightarrow> covers rs c ip \<or> c = code \<and> range_contains r ip) \<and>
    (\<forall>x \<in> set rs'. range_nonempty (snd x)) \<and> fst ` set rs' = insert code (fst ` set rs)"
  proof cases
    case 1
    then show ?thesis using assms(2,3) by auto
  next
    case 2
    then have "range_nonempty l" using assms(3) by auto
    from join_ranges [OF 2(2) this assms(2)] obtain n where
      "ip_range_new (range_start l) (range_end r) = Some n" "range_nonempty n"
      "\<And>ip. range_contains n ip \<longleftrightarrow> range_contains l ip \<or> range_contains r ip" by blast
    with 2 assms(2,3) show ?thesis by auto
  qed
  then show "covers rs' c ip \<longleftrightarrow> covers rs c ip \<or> c = code \<and> range_contains r ip"
    "\<forall>x \<in> set rs'. range_nonempty (snd x)" "fst ` set rs' = insert code (fst ` set rs)" by auto
qed

text \<open>The code an item stands for, and the items that have one.\<close>

definition item_code :: "('n4, 'n6) within_item \<Rightarrow> string" where
  "item_code item =
     (case item_country item of
        Some c \<Rightarrow> (case city_iso_code c of Some code \<Rightarrow> code | None \<Rightarrow> ''ZZ'')
      | None \<Rightarrow> ''ZZ'')"

definition item_covers ::
  "('n4, 'n6) ipnetwork_ops \<Rightarrow> (string + ('n4, 'n6) within_item) list \<Rightarrow> string \<Rightarrow> ip_addr \<Rightarrow> bool" where
  "item_covers nets items code ip \<longleftrightarrow>
     (\<exists>item. Inr item \<in> set items \<and> item_code item = code \<and> range_contains (ipn_to_range nets (ip_net item)) ip)"

definition networks_ok :: "('n4, 'n6) ipnetwork_ops \<Rightarrow> bool" where
  "networks_ok nets \<longleftrightarrow> (\<forall>n. network4 nets n \<le> broadcast4 nets n) \<and> (\<forall>n. network6 nets n \<le> broadcast6 nets n)"

lemma ipn_to_range_nonempty: "networks_ok nets \<Longrightarrow> range_nonempty (ipn_to_range nets n)"
  by (cases n) (simp_all add: ipn_to_range_def range_nonempty_def networks_ok_def)

definition item_name :: "('n4, 'n6) within_item \<Rightarrow> string" where
  "item_name item =
     (case item_country item of
        Some c \<Rightarrow>
          if city_iso_code c = None then ''Sentinel''
          else (case map_option (\<lambda>ns. map_of ns ''en'') (city_names c) of
                  Some (Some name) \<Rightarrow> name | _ \<Rightarrow> ''Unknown'')
      | None \<Rightarrow> ''Sentinel'')"

definition item_errors :: "('n4, 'n6) within_item \<Rightarrow> ('n4, 'n6) mmdb_error list" where
  "item_errors item =
     (case item_country item of
        Some c \<Rightarrow>
          (case (city_iso_code c, map_option (\<lambda>ns. map_of ns ''en'') (city_names c)) of
             (Some code, Some (Some name)) \<Rightarrow> []
           | (Some code, _) \<Rightarrow> [NoName code]
           | (None, Some (Some name)) \<Rightarrow> [NoCode name]
           | (None, _) \<Rightarrow> [NoCodeNoName (ip_net item)])
      | None \<Rightarrow> [NoCountry (ip_net item)])"

lemma extract_item_found:
  "extract_item nets (Inr item) x = do {
     ranges \<leftarrow> add_or_coalesce (item_code item) (ipn_to_range nets (ip_net item)) (ext_ranges x);
     Some (x\<lparr>ext_ranges := ranges, ext_pairs := List.insert (item_code item, item_name item) (ext_pairs x),
             ext_errors := ext_errors x @ item_errors item\<rparr>) }"
  by (simp add: extract_item_def Let_def item_code_def item_name_def item_errors_def split: option.split)

definition extraction_ok :: "('n4, 'n6) extraction \<Rightarrow> bool" where
  "extraction_ok x \<longleftrightarrow>
     (\<forall>r \<in> set (ext_ranges x). range_nonempty (snd r)) \<and> distinct (ext_pairs x) \<and>
     fst ` set (ext_ranges x) \<subseteq> fst ` set (ext_pairs x)"

lemma extract_item_ok:
  assumes "extract_item nets i x = Some x'" "networks_ok nets" "extraction_ok x"
  shows "extraction_ok x'"
    "covers (ext_ranges x') code ip \<longleftrightarrow> covers (ext_ranges x) code ip \<or> item_covers nets [i] code ip"
proof -
  have "extraction_ok x' \<and>
    (covers (ext_ranges x') code ip \<longleftrightarrow> covers (ext_ranges x) code ip \<or> item_covers nets [i] code ip)"
  proof (cases i)
    case (Inl e)
    then have "x' = x\<lparr>ext_errors := ext_errors x @ [ItemError e]\<rparr>" using assms(1) by (simp add: extract_item_def)
    with Inl assms(3) show ?thesis by (simp add: extraction_ok_def item_covers_def)
  next
    case (Inr item)
    from assms(1) obtain ranges where
      ranges: "add_or_coalesce (item_code item) (ipn_to_range nets (ip_net item)) (ext_ranges x) = Some ranges" and
      x': "x' = x\<lparr>ext_ranges := ranges, ext_pairs := List.insert (item_code item, item_name item) (ext_pairs x),
            ext_errors := ext_errors x @ item_errors item\<rparr>"
      unfolding Inr extract_item_found by (auto simp: bind_eq_Some_conv)
    have "\<forall>r \<in> set (ext_ranges x). range_nonempty (snd r)" using assms(3) by (simp add: extraction_ok_def)
    note cov = add_or_coalesce_covers [OF ranges ipn_to_range_nonempty [OF assms(2)] this]
    have "item_covers nets [i] code ip \<longleftrightarrow> code = item_code item \<and> range_contains (ipn_to_range nets (ip_net item)) ip"
      using Inr by (auto simp: item_covers_def)
    with assms(3) cov x' show ?thesis by (auto simp: extraction_ok_def)
  qed
  then show "extraction_ok x'"
    "covers (ext_ranges x') code ip \<longleftrightarrow> covers (ext_ranges x) code ip \<or> item_covers nets [i] code ip" by auto
qed

lemma extract_data_ok:
  assumes "extract_data nets items x = Some x'" "networks_ok nets" "extraction_ok x"
  shows "extraction_ok x' \<and>
    (covers (ext_ranges x') code ip \<longleftrightarrow> covers (ext_ranges x) code ip \<or> item_covers nets items code ip)"
  using assms
proof (induction items arbitrary: x)
  case Nil
  then show ?case by (simp add: item_covers_def)
next
  case (Cons i items)
  from Cons.prems(1) obtain x1 where x1: "extract_item nets i x = Some x1" "extract_data nets items x1 = Some x'"
    by (auto simp: bind_eq_Some_conv)
  from Cons.IH [OF x1(2) Cons.prems(2) extract_item_ok(1) [OF x1(1) Cons.prems(2,3)]]
    extract_item_ok(2) [OF x1(1) Cons.prems(2,3), of code ip]
  show ?case by (auto simp: item_covers_def)
qed

section \<open>Every code is in the table\<close>

lemma set_remove_first: "x \<in> set xs \<Longrightarrow> \<not> P x \<Longrightarrow> x \<in> set (remove_first P xs)"
  by (induction xs) auto

lemma countries_new_codes:
  assumes "(code, name) \<in> set pairs" "to_ascii_uppercase code = code"
  obtains c where "country_from_code (countries_new pairs) code = Some (Inr c)" "iso3166 c = code"
proof -
  have "code \<in> iso3166 ` set (country_list (countries_new pairs))"
  proof (cases "code = ''ZZ''")
    case True
    then show ?thesis by (simp add: countries_new_list sentinel_def country_new_def)
  next
    case False
    then have "(code, name) \<in> set (country_pairs (countries_new pairs))"
      using assms(1) set_remove_first [of "(code, name)" pairs] by (simp add: countries_new_pairs)
    then show ?thesis by (force simp: country_pairs_def)
  qed
  moreover have "index_by_iso3166 (countries_new pairs) =
      collect_map (map (\<lambda>c. (iso3166 c, country_index c)) (country_list (countries_new pairs)))"
    using countries_new_ok [of pairs] by (simp add: countries_ok_def)
  ultimately have "index_by_iso3166 (countries_new pairs) code \<noteq> None"
    by (simp add: collect_map_def map_of_eq_None_iff image_image del: not_None_eq)
  then obtain i where "index_by_iso3166 (countries_new pairs) code = Some i" by auto
  then show ?thesis
    using that index_by_iso3166_sound [OF countries_new_ok] assms(2)
    by (simp add: country_from_code_ok [OF countries_new_ok])
qed

lemma make_country_blocks_ok:
  assumes "\<forall>x \<in> set ranges. fst x \<in> fst ` set pairs \<and> to_ascii_uppercase (fst x) = fst x"
  shows "\<exists>blocks. make_country_blocks (countries_new pairs) ranges = Some (blocks, [] :: ('n4, 'n6) mmdb_error list) \<and>
    map (\<lambda>b. (iso3166 (block_country b), block_range b)) blocks = ranges \<and> blocks_in (countries_new pairs) blocks"
  using assms
proof (induction ranges)
  case Nil
  then show ?case by (simp add: blocks_in_def)
next
  case (Cons x ranges)
  obtain code r where x: "x = (code, r)" by (cases x)
  with Cons.prems obtain name where "(code, name) \<in> set pairs" "to_ascii_uppercase code = code" by auto
  then obtain c where c: "country_from_code (countries_new pairs) code = Some (Inr c)" "iso3166 c = code"
    by (rule countries_new_codes)
  from Cons obtain blocks where "make_country_blocks (countries_new pairs) ranges = Some (blocks, [] :: ('n4, 'n6) mmdb_error list)"
    "map (\<lambda>b. (iso3166 (block_country b), block_range b)) blocks = ranges" "blocks_in (countries_new pairs) blocks"
    by auto
  with x c country_from_code_index [OF countries_new_ok c(1)] show ?case
    by (auto simp: blocks_in_def)
qed

section \<open>Properties\<close>

text \<open>
  C18: extracting a database, an address is covered by a coalesced range with some code
  exactly if one of the database's networks with that code (or without code, for the
  sentinel) contains it.
\<close>

theorem extract_data_coverage:
  assumes "networks_ok nets"
    "extract_data nets items \<lparr>ext_ranges = [], ext_pairs = [], ext_errors = errors\<rparr> = Some x"
  shows "covers (ext_ranges x) code ip \<longleftrightarrow> item_covers nets items code ip"
  using extract_data_ok [OF assms(2,1)] by (simp add: extraction_ok_def covers_def)

definition sample_nets :: "(u32 \<times> u32, u128 \<times> u128) ipnetwork_ops" where
  "sample_nets = \<lparr>network4 = (\<lambda>(a, b). min a b), broadcast4 = (\<lambda>(a, b). max a b),
     network6 = (\<lambda>(a, b). min a b), broadcast6 = (\<lambda>(a, b). max a b)\<rparr>"

definition sample_items :: "(string + (u32 \<times> u32, u128 \<times> u128) within_item) list" where
  "sample_items =
     [Inr \<lparr>ip_net = NetV4 (1, 2), item_country = Some \<lparr>city_iso_code = Some ''FR'', city_names = Some [(''en'', ''France'')]\<rparr>\<rparr>,
      Inr \<lparr>ip_net = NetV4 (3, 9), item_country = Some \<lparr>city_iso_code = Some ''FR'', city_names = None\<rparr>\<rparr>,
      Inr \<lparr>ip_net = NetV4 (12, 15), item_country = None\<rparr>]"

lemma sample_extraction:
  "extract_data sample_nets sample_items \<lparr>ext_ranges = [], ext_pairs = [], ext_errors = []\<rparr> =
     Some \<lparr>ext_ranges = [(''FR'', RangeV4 1 9), (''ZZ'', RangeV4 12 15)],
           ext_pairs = [(''ZZ'', ''Sentinel''), (''FR'', ''Unknown''), (''FR'', ''France'')],
           ext_errors = [NoName ''FR'', NoCountry (NetV4 (12, 15))]\<rparr>"
  by (simp add: sample_items_def sample_nets_def extract_item_def ipn_to_range_def add_or_coalesce_def
      last_opt_def next_of_def ip_range_new_def List.insert_def)

theorem extract_data_coverage_witness:
  "networks_ok sample_nets \<and> covers [(''FR'', RangeV4 1 9), (''ZZ'', RangeV4 12 15)] ''FR'' (V4 3) \<and>
   item_covers sample_nets sample_items ''FR'' (V4 3)"
proof -
  have nets: "networks_ok sample_nets" by (auto simp: networks_ok_def sample_nets_def min_def max_def)
  have "covers [(''FR'', RangeV4 1 9), (''ZZ'', RangeV4 12 15)] ''FR'' (V4 3)"
    by (auto simp: covers_def contains_inner_def)
  with extract_data_coverage [OF nets sample_extraction, of "''FR''" "V4 3"] nets show ?thesis by simp
qed

text \<open>
  C19: for every range whose code is in the set of country pairs and in capitals, the
  table built from these pairs, in whatever order the hash set yields them, finds a
  country with that code: no range is turned into the unknown country.
\<close>

theorem make_country_blocks_complete:
  assumes "mset (hash_order pairs) = mset pairs"
    "\<forall>x \<in> set ranges. fst x \<in> fst ` set pairs \<and> to_ascii_uppercase (fst x) = fst x"
  shows "\<exists>blocks. make_country_blocks (countries_new (hash_order pairs)) ranges =
       Some (blocks, [] :: ('n4, 'n6) mmdb_error list) \<and>
     map (\<lambda>b. (iso3166 (block_country b), block_range b)) blocks = ranges \<and>
     blocks_in (countries_new (hash_order pairs)) blocks"
  using make_country_blocks_ok [of ranges "hash_order pairs"] assms mset_eq_setD [OF assms(1)] by auto

theorem make_country_blocks_complete_witness:
  "mset (rev [(''FR'', ''France''), (''AD'', ''Andorra'')]) = mset [(''FR'', ''France''), (''AD'', ''Andorra'')] \<and>
   (\<exists>blocks. make_country_blocks (countries_new (rev [(''FR'', ''France''), (''AD'', ''Andorra'')]))
       [(''FR'', RangeV4 1 9)] = Some (blocks, [] :: (nat, nat) mmdb_error list) \<and>
     map (\<lambda>b. (iso3166 (block_country b), block_range b)) blocks = [(''FR'', RangeV4 1 9)])"
proof -
  have order: "mset (rev [(''FR'', ''France''), (''AD'', ''Andorra'')]) = mset [(''FR'', ''France''), (''AD'', ''Andorra'')]"
    by (rule mset_rev)
  have "\<forall>x \<in> set [(''FR'', RangeV4 1 9)]. fst x \<in> fst ` set [(''FR'', ''France''), (''AD'', ''Andorra'')] \<and>
      to_ascii_uppercase (fst x) = fst x"
    by (simp add: to_ascii_uppercase_def less_eq_char_def)
  from make_country_blocks_complete [where hash_order = rev and ?'n4.0 = nat and ?'n6.0 = nat, OF order this]
  show ?thesis using order by (elim exE conjE) (intro conjI exI; assumption)
qed

end
