(* ===== verification/Ip_Country.thy ===== *)
theory Ip_Country
  imports Ip_Country_Csv Ip_Country_Mmdb
begin

text \<open>
  Model of the top of \<open>ip_country/src/ip_country.rs\<close>: choosing the parser from the
  arguments, running it, writing the generated code and reporting errors.  A writer is
  a state and a function that appends a piece of text and tells whether that worked,
  as \<open>io::Write\<close> does.
\<close>

datatype parser_choice = CSVParser | MMDBParser

definition parser_make :: "string list \<Rightarrow> parser_choice" where
  "parser_make args = (if ''--csv'' \<in> set args then CSVParser else MMDBParser)"

type_synonym 'w writer = "'w \<Rightarrow> string \<Rightarrow> bool \<times> 'w"

fun write_all :: "'w writer \<Rightarrow> string list \<Rightarrow> 'w \<Rightarrow> bool \<times> 'w" where
  "write_all wr [] w = (True, w)"
| "write_all wr (s # ss) w =
     (case wr w s of (True, w) \<Rightarrow> write_all wr ss w | (False, w) \<Rightarrow> (False, w))"

datatype 'e run_error = ParserError 'e | GenerationError

fun join_lines :: "string list \<Rightarrow> string" where
  "join_lines [] = []"
| "join_lines [s] = s"
| "join_lines (s # ss) = s @ nl @ join_lines ss"

definition warning_text :: "string \<Rightarrow> string" where
  "warning_text error_list =
     nl @ ''            *** DO NOT USE THIS CODE ***'' @ nl @
     ''            It will produce incorrect results.'' @ nl @
     ''            The process that generated it found these errors:'' @ nl @ nl @
     error_list @ nl @ nl @
     ''            Fix the errors and regenerate the code.'' @ nl @
     ''            *** DO NOT USE THIS CODE ***'' @ nl"

definition ip_country ::
  "('i \<Rightarrow> ((final_bit_queue \<times> final_bit_queue \<times> countries) \<times> 'e list) option) \<Rightarrow>
   ('e run_error \<Rightarrow> string) \<Rightarrow> 'w writer \<Rightarrow> 'i \<Rightarrow> 'w \<Rightarrow> 'w \<Rightarrow> (nat \<times> 'w \<times> 'w) option" where
  "ip_country parse show_error wr stdin stdout stderr = do {
     ((final_ipv4, final_ipv6, cs), parse_errors) \<leftarrow> parse stdin;
     pieces \<leftarrow> generate_rust_code final_ipv4 final_ipv6 cs;
     let (ok, stdout) = write_all wr pieces stdout;
     let errors = map ParserError parse_errors @ (if ok then [] else [GenerationError]);
     if errors = [] then Some (0, stdout, stderr)
     else do {
       let error_list = join_lines (map show_error errors);
       let (ok1, stdout) = wr stdout (warning_text error_list);
       if \<not> ok1 then None
       else do {
         let (ok2, stderr) = wr stderr error_list;
         if \<not> ok2 then None else Some (1, stdout, stderr) } } }"

section \<open>A writer that never fails\<close>

definition buffer_write :: "string writer" where
  "buffer_write w s = (True, w @ s)"

lemma write_all_buffer: "write_all buffer_write ss w = (True, w @ concat ss)"
  by (induction ss arbitrary: w) (simp_all add: buffer_write_def)

lemma generate_rust_code_ok:
  assumes "queue_ok (final_queue f4)" "queue_ok (final_queue f6)"
  obtains pieces where "generate_rust_code f4 f6 cs = Some pieces"
  using assms by (simp add: generate_rust_code_def generate_country_block_code_ok)

section \<open>Properties\<close>



end
