(* ===== verification/Sequence_Buffer.thy ===== *)
theory Sequence_Buffer
  imports Country_Serde "HOL-Library.Sublist"
begin

text \<open>
  Model of \<open>node/src/sub_lib/sequence_buffer.rs\<close>: packets that arrive in any order are
  handed out in the order of their sequence numbers, and a packet is carried over the
  network as a string of bytes.  The lemmas show the round trip of the byte format, that
  the buffer's invariant is kept by every operation, and that whatever the arrival order
  the packets polled are numbered 0, 1, 2 and so on without gap or repetition.
\<close>

section \<open>Packets\<close>

record sequenced_packet =
  packet_data :: "u8 list"
  sequence_number :: u64
  last_data :: bool

definition sequenced_packet_new :: "u8 list \<Rightarrow> u64 \<Rightarrow> bool \<Rightarrow> sequenced_packet" where
  "sequenced_packet_new d n l = \<lparr>packet_data = d, sequence_number = n, last_data = l\<rparr>"

definition packet_cmp :: "sequenced_packet \<Rightarrow> sequenced_packet \<Rightarrow> ordering" where
  "packet_cmp self other =
     (if sequence_number other < sequence_number self then Less
      else if sequence_number self < sequence_number other then Greater
      else Equal)"

record transmit_data_msg =
  tdm_last_data :: bool
  tdm_sequence_number :: "u64 option"
  tdm_data :: "u8 list"

definition packet_from_tdm :: "transmit_data_msg \<Rightarrow> sequenced_packet" where
  "packet_from_tdm tdm =
     sequenced_packet_new (tdm_data tdm) (case tdm_sequence_number tdm of Some n \<Rightarrow> n | None \<Rightarrow> 0)
       (tdm_last_data tdm)"

section \<open>The byte format\<close>

datatype packet_error =
    BadBool u8
  | U64FromBytes nat
  | U64IntoBytes nat

definition u64_to_loop :: "u64 \<Rightarrow> u8 list \<Rightarrow> u8 list \<times> u64" where
  "u64_to_loop val buf =
     fold (\<lambda>idx (buf, remaining). (buf[7 - idx := ucast (remaining AND 0xFF)], drop_bit 8 remaining))
       [0..<8] (buf, val)"

definition u64_to :: "u64 \<Rightarrow> u8 list \<Rightarrow> packet_error + u8 list" where
  "u64_to val buf =
     (if length buf \<noteq> 8 then Inl (U64IntoBytes (length buf)) else Inr (fst (u64_to_loop val buf)))"

definition u64_from :: "u8 list \<Rightarrow> packet_error + u64" where
  "u64_from bytes =
     (if length bytes \<noteq> 8 then Inl (U64FromBytes (length bytes))
      else Inr (foldl (\<lambda>result byte. push_bit 8 result + ucast byte) 0 bytes))"

definition packet_serialize :: "sequenced_packet \<Rightarrow> packet_error + u8 list" where
  "packet_serialize p =
     (let bytes = replicate (length (packet_data p) + 9) 0;
          bytes = bytes[0 := (if last_data p then 1 else 0)]
      in (case u64_to (sequence_number p) (take 8 (drop 1 bytes)) of
            Inl e \<Rightarrow> Inl e
          | Inr number \<Rightarrow> Inr (take 1 bytes @ number @ packet_data p)))"

text \<open>Indexing and slicing a buffer that is too short panics.\<close>

definition visit_bytes :: "u8 list \<Rightarrow> (packet_error + sequenced_packet) option" where
  "visit_bytes v =
     (if length v < 1 then None
      else if v ! 0 \<noteq> 0 \<and> v ! 0 \<noteq> 1 then Some (Inl (BadBool (v ! 0)))
      else if length v < 9 then None
      else (case u64_from (take 8 (drop 1 v)) of
              Inl e \<Rightarrow> Some (Inl e)
            | Inr n \<Rightarrow> Some (Inr (sequenced_packet_new (drop 9 v) n (v ! 0 = 1)))))"

section \<open>Searching a list\<close>

text \<open>\<open>index_of\<close> and \<open>index_of_from\<close> of \<open>masq_lib/src/utils.rs\<close>.\<close>

definition index_of :: "'a list \<Rightarrow> 'a list \<Rightarrow> nat option" where
  "index_of haystack needles =
     (if needles = [] then None
      else find (\<lambda>h. \<not> (\<exists>n \<in> set [0..<length needles].
          length haystack \<le> h + n \<or> haystack ! (h + n) \<noteq> needles ! n)) [0..<length haystack])"

function index_of_from :: "'a list \<Rightarrow> 'a \<Rightarrow> nat \<Rightarrow> nat option" where
  "index_of_from haystack needle index =
     (if index < length haystack \<and> haystack ! index \<noteq> needle
      then index_of_from haystack needle (index + 1)
      else if length haystack \<le> index then None else Some index)"
  by pat_completeness auto
termination by (relation "measure (\<lambda>(haystack, _, index). length haystack - index)") auto

declare index_of_from.simps [simp del]

section \<open>The buffer\<close>

text \<open>
  \<open>BinaryHeap\<close> of the standard library, for the reversed order of the packets: the
  list of its elements, the lowest sequence number first.
\<close>

type_synonym packet_heap = "sequenced_packet list"

definition heap_push :: "sequenced_packet \<Rightarrow> packet_heap \<Rightarrow> packet_heap" where
  "heap_push p h = insort_key sequence_number p h"

record sequence_buffer =
  buffer :: packet_heap
  next_expected_sequence_number :: u64
  seen_sequence_numbers :: "u64 list"

definition buffer_new :: sequence_buffer where
  "buffer_new = \<lparr>buffer = [], next_expected_sequence_number = 0, seen_sequence_numbers = []\<rparr>"

definition push :: "sequenced_packet \<Rightarrow> sequence_buffer \<Rightarrow> sequence_buffer" where
  "push packet s =
     (if next_expected_sequence_number s \<le> sequence_number packet \<and>
         sequence_number packet \<notin> set (seen_sequence_numbers s)
      then s\<lparr>seen_sequence_numbers := seen_sequence_numbers s @ [sequence_number packet],
             buffer := heap_push packet (buffer s)\<rparr>
      else s)"

definition poll :: "sequence_buffer \<Rightarrow> (sequenced_packet option \<times> sequence_buffer) option" where
  "poll s =
     (case buffer s of
        [] \<Rightarrow> Some (None, s)
      | packet # rest \<Rightarrow>
          if sequence_number packet = next_expected_sequence_number s
          then do {
            n \<leftarrow> next_of (next_expected_sequence_number s);
            let seen = seen_sequence_numbers s;
            let seen = (case index_of seen [sequence_number packet] of
                          Some index \<Rightarrow> take index seen @ drop (index + 1) seen
                        | None \<Rightarrow> seen);
            Some (Some packet,
                  \<lparr>buffer = rest, next_expected_sequence_number = n, seen_sequence_numbers = seen\<rparr>) }
          else Some (None, s))"

definition repush :: "sequenced_packet \<Rightarrow> sequence_buffer \<Rightarrow> sequence_buffer option" where
  "repush packet s =
     (if next_expected_sequence_number s = 0 then None
      else if sequence_number packet \<noteq> next_expected_sequence_number s - 1 then None
      else Some \<lparr>buffer = heap_push packet (buffer s),
                 next_expected_sequence_number = sequence_number packet,
                 seen_sequence_numbers = seen_sequence_numbers s @ [sequence_number packet]\<rparr>)"

definition next_expected :: "sequence_buffer \<Rightarrow> u64" where
  "next_expected s = next_expected_sequence_number s"

definition buffer_len :: "sequence_buffer \<Rightarrow> nat" where
  "buffer_len s = length (buffer s)"

definition buffer_is_empty :: "sequence_buffer \<Rightarrow> bool" where
  "buffer_is_empty s \<longleftrightarrow> buffer_len s = 0"

section \<open>The byte format round-trips\<close>

lemma shift_add_or: "push_bit 8 (r :: u64) + ucast (b :: u8) = push_bit 8 r OR ucast b"
proof (rule disjunctive_add)
  fix n
  show "\<not> bit (push_bit 8 r) n \<or> \<not> bit (ucast b :: u64) n"
    by (auto simp: bit_push_bit_iff bit_ucast_iff dest: bit_imp_le_length)
qed

lemma u64_from_parts: "length bs = 8 \<Longrightarrow> u64_from bs = Inr (parts_word bs)"
  by (simp add: u64_from_def parts_word_def shift_add_or)

lemma u64_to_loop_parts:
  assumes "length buf = 8"
  shows "fst (u64_to_loop val buf) = word_parts 8 val"
proof -
  obtain a b c d e f g h where buf: "buf = [a, b, c, d, e, f, g, h]"
    using assms by (auto simp: numeral_eq_Suc length_Suc_conv)
  have ff: "(0xFF :: u64) = mask 8" by (simp add: mask_eq_exp_minus_1)
  have "ucast (w AND 0xFF) = (ucast w :: u8)" for w :: u64
    unfolding ff by (rule bit_word_eqI) (simp add: bit_ucast_iff bit_and_iff bit_mask_iff)
  then show ?thesis
    by (simp add: buf u64_to_loop_def word_parts_def upt_rec drop_bit_drop_bit)
qed

lemma packet_serialize_eq:
  "packet_serialize p = Inr ((if last_data p then 1 else 0) # word_parts 8 (sequence_number p) @ packet_data p)"
proof -
  define bytes :: "u8 list" where
    "bytes = (replicate (length (packet_data p) + 9) 0)[0 := (if last_data p then 1 else 0)]"
  have "length (take 8 (drop 1 bytes)) = 8" by (simp add: bytes_def)
  then have "u64_to (sequence_number p) (take 8 (drop 1 bytes)) = Inr (word_parts 8 (sequence_number p))"
    by (simp only: u64_to_def u64_to_loop_parts) simp
  moreover have "take 1 bytes = [if last_data p then 1 else 0]"
    by (simp add: bytes_def numeral_eq_Suc)
  ultimately show ?thesis
    unfolding packet_serialize_def Let_def bytes_def [symmetric] by simp
qed

lemma visit_bytes_serialize: "packet_serialize p = Inr bytes \<Longrightarrow> visit_bytes bytes = Some (Inr p)"
proof -
  assume "packet_serialize p = Inr bytes"
  then have bytes: "bytes = (if last_data p then 1 else 0) # word_parts 8 (sequence_number p) @ packet_data p"
    by (simp add: packet_serialize_eq)
  have "u64_from (word_parts 8 (sequence_number p)) = Inr (sequence_number p)"
    using parts_word_parts [where 'a = 64 and 'b = 8, of 8 "sequence_number p"]
    by (simp add: u64_from_parts)
  then show ?thesis by (auto simp: visit_bytes_def bytes sequenced_packet_new_def)
qed

section \<open>Searching\<close>

lemma matches_at:
  assumes "ns \<noteq> []"
  shows "(\<forall>n < length ns. h + n < length hs \<and> hs ! (h + n) = ns ! n) \<longleftrightarrow> prefix ns (drop h hs)"
proof -
  have "(\<forall>n < length ns. h + n < length hs) \<longleftrightarrow> h + length ns \<le> length hs"
  proof
    assume "\<forall>n < length ns. h + n < length hs"
    then have "h + (length ns - 1) < length hs" using assms by simp
    then show "h + length ns \<le> length hs" using assms by (cases ns) auto
  qed auto
  moreover have "prefix ns (drop h hs) \<longleftrightarrow> h + length ns \<le> length hs \<and> (\<forall>n < length ns. hs ! (h + n) = ns ! n)"
  proof
    assume "prefix ns (drop h hs)"
    then obtain zs where zs: "drop h hs = ns @ zs" by (rule prefixE)
    then have "length hs - h = length ns + length zs" by (metis length_append length_drop)
    then have le: "h + length ns \<le> length hs" using assms by (cases ns) auto
    have "hs ! (h + n) = (ns @ zs) ! n" for n using le by (simp flip: zs)
    with le show "h + length ns \<le> length hs \<and> (\<forall>n < length ns. hs ! (h + n) = ns ! n)"
      by (simp add: nth_append)
  next
    assume "h + length ns \<le> length hs \<and> (\<forall>n < length ns. hs ! (h + n) = ns ! n)"
    then have "take (length ns) (drop h hs) = ns" by (intro nth_equalityI) (auto simp: min_absorb2)
    then show "prefix ns (drop h hs)" by (metis take_is_prefix)
  qed
  ultimately show ?thesis by blast
qed

lemma index_of_Some:
  "index_of hs ns = Some i \<longleftrightarrow>
     ns \<noteq> [] \<and> i < length hs \<and> prefix ns (drop i hs) \<and> (\<forall>j < i. \<not> prefix ns (drop j hs))"
proof (cases "ns = []")
  case True
  then show ?thesis by (simp add: index_of_def)
next
  case False
  have "(\<lambda>h. \<not> (\<exists>n \<in> set [0..<length ns]. length hs \<le> h + n \<or> hs ! (h + n) \<noteq> ns ! n)) =
      (\<lambda>h. prefix ns (drop h hs))"
    by (rule ext) (auto simp: not_le simp flip: matches_at [OF False])
  with False show ?thesis by (auto simp: index_of_def find_Some_iff)
qed

lemma find_map: "find P (map f xs) = map_option f (find (\<lambda>x. P (f x)) xs)"
  by (induction xs) auto

lemma index_of_single_Cons:
  "index_of (y # ys) [x] = (if y = x then Some 0 else map_option Suc (index_of ys [x]))"
proof -
  have upt: "[0..<length (y # ys)] = 0 # map Suc [0..<length ys]"
    by (simp only: map_Suc_upt list.size upt_conv_Cons zero_less_Suc Nat.add_0_right add_Suc_right plus_1_eq_Suc)
  show ?thesis unfolding index_of_def upt by (simp add: find_map)
qed

lemma remove_at_index_of:
  "(case index_of xs [x] of Some i \<Rightarrow> take i xs @ drop (i + 1) xs | None \<Rightarrow> xs) = remove1 x xs"
proof (induction xs)
  case Nil
  then show ?case by (simp add: index_of_def)
next
  case (Cons y ys)
  then show ?case by (auto simp: index_of_single_Cons split: option.splits)
qed

section \<open>The invariant\<close>

definition buffer_ok :: "sequence_buffer \<Rightarrow> bool" where
  "buffer_ok s \<longleftrightarrow>
     sorted (map sequence_number (buffer s)) \<and> distinct (map sequence_number (buffer s)) \<and>
     (\<forall>p \<in> set (buffer s). next_expected_sequence_number s \<le> sequence_number p) \<and>
     distinct (seen_sequence_numbers s) \<and>
     set (seen_sequence_numbers s) = sequence_number ` set (buffer s)"

lemma buffer_new_ok: "buffer_ok buffer_new"
  by (simp add: buffer_ok_def buffer_new_def)

lemma distinct_map_insort: "distinct (map f (insort_key f x xs)) \<longleftrightarrow> f x \<notin> f ` set xs \<and> distinct (map f xs)"
  by (induction xs) (auto simp: set_insort_key)

lemma push_ok: "buffer_ok s \<Longrightarrow> buffer_ok (push p s)"
  by (auto simp: buffer_ok_def push_def heap_push_def sorted_insort_key distinct_map_insort set_insort_key)

lemma repush_ok:
  assumes "buffer_ok s" "repush p s = Some s'"
  shows "buffer_ok s'"
proof -
  have p: "sequence_number p = next_expected_sequence_number s - 1" "next_expected_sequence_number s \<noteq> 0"
    using assms(2) by (auto simp: repush_def split: if_splits)
  then have "sequence_number p < next_expected_sequence_number s"
    using word_minus_one_less [of 0] by (simp add: word_neq_0_conv)
  then have less: "sequence_number p < sequence_number q" if "q \<in> set (buffer s)" for q
    using assms(1) that by (auto simp: buffer_ok_def)
  then have "sequence_number p \<notin> sequence_number ` set (buffer s)" by force
  with assms p less show ?thesis
    by (auto simp: buffer_ok_def repush_def heap_push_def sorted_insort_key distinct_map_insort set_insort_key
        order.strict_implies_order)
qed

lemma poll_cases:
  assumes "poll s = Some (r, s')"
  obtains "r = None" "s' = s"
  | p rest where "buffer s = p # rest" "r = Some p" "sequence_number p = next_expected_sequence_number s"
      "next_expected_sequence_number s \<noteq> - 1"
      "s' = \<lparr>buffer = rest, next_expected_sequence_number = next_expected_sequence_number s + 1,
             seen_sequence_numbers = remove1 (sequence_number p) (seen_sequence_numbers s)\<rparr>"
  using assms
  by (auto simp: poll_def next_of_def remove_at_index_of bind_eq_Some_conv Let_def split: list.splits if_splits)

lemma poll_ok:
  assumes "buffer_ok s" "poll s = Some (r, s')"
  shows "buffer_ok s'"
  using assms(2)
proof (cases rule: poll_cases)
  case (2 p rest)
  then have "next_expected_sequence_number s + 1 \<le> sequence_number q" if "q \<in> set rest" for q
    using assms(1) that by (intro inc_le) (force simp: buffer_ok_def order.order_iff_strict)
  with 2 assms(1) show ?thesis by (auto simp: buffer_ok_def)
qed (use assms in simp)

section \<open>Delivery in order\<close>

text \<open>
  The histories of a buffer: the packets pushed so far and the packets polled and not
  put back.
\<close>

inductive buffer_run :: "sequence_buffer \<Rightarrow> sequenced_packet list \<Rightarrow> sequenced_packet list \<Rightarrow> bool" where
  run_new: "buffer_run buffer_new [] []"
| run_push: "buffer_run s ps out \<Longrightarrow> buffer_run (push p s) (ps @ [p]) out"
| run_poll_none: "buffer_run s ps out \<Longrightarrow> poll s = Some (None, s') \<Longrightarrow> buffer_run s' ps out"
| run_poll: "buffer_run s ps out \<Longrightarrow> poll s = Some (Some p, s') \<Longrightarrow> buffer_run s' ps (out @ [p])"
| run_repush: "buffer_run s ps (out @ [p]) \<Longrightarrow> repush p s = Some s' \<Longrightarrow> buffer_run s' ps out"

definition first_with :: "sequenced_packet list \<Rightarrow> u64 \<Rightarrow> sequenced_packet option" where
  "first_with ps n = find (\<lambda>p. sequence_number p = n) ps"

lemma first_with_snoc:
  "first_with (ps @ [p]) n =
     (case first_with ps n of Some q \<Rightarrow> Some q | None \<Rightarrow> if sequence_number p = n then Some p else None)"
  by (induction ps) (auto simp: first_with_def)

definition run_inv :: "sequence_buffer \<Rightarrow> sequenced_packet list \<Rightarrow> sequenced_packet list \<Rightarrow> bool" where
  "run_inv s ps out \<longleftrightarrow>
     buffer_ok s \<and> length out = unat (next_expected_sequence_number s) \<and>
     (\<forall>i < length out. sequence_number (out ! i) = of_nat i) \<and>
     (\<forall>p. p \<in> set out \<union> set (buffer s) \<longleftrightarrow> first_with ps (sequence_number p) = Some p)"

lemma run_inv_push:
  assumes "run_inv s ps out"
  shows "run_inv (push p s) (ps @ [p]) out"
proof -
  define n where "n = sequence_number p"
  have accepted: "first_with ps n = None \<longleftrightarrow> next_expected_sequence_number s \<le> n \<and> n \<notin> set (seen_sequence_numbers s)"
  proof (cases "n < next_expected_sequence_number s")
    case True
    then have "unat n < length out" using assms by (simp add: run_inv_def word_less_nat_alt)
    then have "out ! unat n \<in> set out" "sequence_number (out ! unat n) = n"
      using assms by (auto simp: run_inv_def)
    then have "first_with ps n = Some (out ! unat n)" using assms unfolding run_inv_def by (metis UnI1)
    with True show ?thesis by auto
  next
    case False
    have "first_with ps n \<noteq> None \<longleftrightarrow> (\<exists>q \<in> set out \<union> set (buffer s). sequence_number q = n)"
    proof
      assume "first_with ps n \<noteq> None"
      then obtain q where q: "first_with ps n = Some q" by auto
      then have "sequence_number q = n" by (auto simp: first_with_def find_Some_iff)
      with q assms show "\<exists>q \<in> set out \<union> set (buffer s). sequence_number q = n" unfolding run_inv_def by blast
    qed (use assms in \<open>auto simp: run_inv_def\<close>)
    moreover have "sequence_number q \<noteq> n" if q: "q \<in> set out" for q
    proof -
      obtain i where "i < length out" "q = out ! i" using q by (auto simp: in_set_conv_nth)
      then have "sequence_number q = of_nat i" "i < unat (next_expected_sequence_number s)"
        using assms by (auto simp: run_inv_def)
      then have "sequence_number q < next_expected_sequence_number s"
        by (simp add: word_less_nat_alt unat_of_nat)
      with False show ?thesis by auto
    qed
    ultimately show ?thesis using assms False by (auto simp: run_inv_def buffer_ok_def)
  qed
  show ?thesis
  proof (cases "first_with ps n = None")
    case True
    with accepted have "push p s = s\<lparr>seen_sequence_numbers := seen_sequence_numbers s @ [n], buffer := heap_push p (buffer s)\<rparr>"
      by (simp add: push_def n_def)
    moreover have "first_with (ps @ [p]) (sequence_number q) = Some q \<longleftrightarrow>
        first_with ps (sequence_number q) = Some q \<or> q = p" for q
      using True by (auto simp: first_with_snoc n_def split: option.split)
    ultimately show ?thesis
      using assms push_ok [of s p] by (auto simp: run_inv_def heap_push_def set_insort_key)
  next
    case False
    with accepted have "push p s = s" by (auto simp: push_def n_def)
    moreover have "first_with (ps @ [p]) k = first_with ps k" for k
      using False by (auto simp: first_with_snoc n_def split: option.split)
    ultimately show ?thesis using assms by (simp add: run_inv_def)
  qed
qed

lemma run_inv_poll:
  assumes "run_inv s ps out" "poll s = Some (Some p, s')"
  shows "run_inv s' ps (out @ [p])"
  using assms(2)
proof (cases rule: poll_cases)
  case (2 q rest)
  then have "unat (next_expected_sequence_number s + 1) = Suc (unat (next_expected_sequence_number s))"
    by (subst add.commute, intro unatSuc) (metis add_eq_0_iff)
  with 2 assms poll_ok [OF _ assms(2)] show ?thesis
    by (auto simp: run_inv_def nth_append less_Suc_eq)
qed simp

lemma run_inv_repush:
  assumes "run_inv s ps (out @ [p])" "repush p s = Some s'"
  shows "run_inv s' ps out"
proof -
  have s': "s' = \<lparr>buffer = heap_push p (buffer s), next_expected_sequence_number = next_expected_sequence_number s - 1,
      seen_sequence_numbers = seen_sequence_numbers s @ [sequence_number p]\<rparr>"
    using assms(2) by (auto simp: repush_def split: if_splits)
  have "unat (next_expected_sequence_number s - 1) = unat (next_expected_sequence_number s) - 1"
    by (rule unat_minus_one) (use assms(2) in \<open>auto simp: repush_def\<close>)
  moreover have "buffer_ok s'" using repush_ok [OF _ assms(2)] assms(1) by (simp add: run_inv_def)
  moreover have "sequence_number (out ! i) = of_nat i" if "i < length out" for i
    using assms(1) that by (auto simp: run_inv_def nth_append dest: spec [of _ i])
  ultimately show ?thesis
    using assms(1) s' by (auto simp: run_inv_def heap_push_def set_insort_key)
qed

lemma buffer_run_inv: "buffer_run s ps out \<Longrightarrow> run_inv s ps out"
proof (induction rule: buffer_run.induct)
  case run_new
  then show ?case by (simp add: run_inv_def buffer_new_ok first_with_def) (simp add: buffer_new_def)
next
  case (run_poll_none s ps out s')
  then show ?case by (auto elim: poll_cases)
qed (auto intro: run_inv_push run_inv_poll run_inv_repush)

lemma buffer_run_order:
  assumes "buffer_run s ps out" "i < length out"
  shows "first_with ps (of_nat i) = Some (out ! i)"
  using buffer_run_inv [OF assms(1)] assms(2) unfolding run_inv_def by (metis UnI1 nth_mem)

lemma poll_available:
  assumes "buffer_run s ps out" "first_with ps (next_expected s) = Some p" "next_expected s \<noteq> - 1"
  shows "\<exists>s'. poll s = Some (Some p, s')"
proof -
  have inv: "run_inv s ps out" using assms(1) by (rule buffer_run_inv)
  have n: "sequence_number p = next_expected_sequence_number s"
    using assms(2) by (auto simp: first_with_def find_Some_iff next_expected_def)
  have "p \<notin> set out"
  proof
    assume "p \<in> set out"
    then obtain i where "i < length out" "p = out ! i" by (auto simp: in_set_conv_nth)
    then have "sequence_number p = of_nat i" "i < unat (next_expected_sequence_number s)"
      using inv by (auto simp: run_inv_def)
    with n show False by (metis (no_types, lifting) le_less_trans less_irrefl mod_less_eq_dividend unat_of_nat)
  qed
  then have p: "p \<in> set (buffer s)" using inv assms(2) n unfolding run_inv_def next_expected_def by auto
  then obtain q rest where rest: "buffer s = q # rest" by (cases "buffer s") auto
  have "sequence_number q \<le> sequence_number p" using inv p rest by (auto simp: run_inv_def buffer_ok_def)
  moreover have "next_expected_sequence_number s \<le> sequence_number q"
    using inv rest by (auto simp: run_inv_def buffer_ok_def)
  ultimately have "sequence_number q = sequence_number p" using n by simp
  then have "q = p" using inv p rest by (auto simp: run_inv_def buffer_ok_def)
  with rest n assms(3) show ?thesis by (simp add: poll_def next_of_def next_expected_def Let_def)
qed

section \<open>Properties\<close>

text \<open>
  A packet that is serialized is deserialized to the same packet.
\<close>

theorem packet_round_trip: "\<exists>bytes. packet_serialize p = Inr bytes \<and> visit_bytes bytes = Some (Inr p)"
  using visit_bytes_serialize packet_serialize_eq by blast

text \<open>
  C13: however pushes, polls and put-backs are interleaved, the packets handed out are
  those numbered 0, 1, 2 and so on, and each is the first packet that arrived with its
  number: nothing is skipped, repeated or reordered.
\<close>

theorem delivery_in_order:
  assumes "buffer_run s ps out" "i < length out"
  shows "sequence_number (out ! i) = of_nat i \<and> first_with ps (of_nat i) = Some (out ! i)"
  using buffer_run_order [OF assms] buffer_run_inv [OF assms(1)] assms(2) by (simp add: run_inv_def)

lemma sample_run:
  defines "p0 \<equiv> sequenced_packet_new [1] 0 False" and "p1 \<equiv> sequenced_packet_new [2] 1 True"
  shows "\<exists>s. buffer_run s [p1, p0] [p0]"
proof -
  have "poll (push p0 (push p1 buffer_new)) =
      Some (Some p0, \<lparr>buffer = [p1], next_expected_sequence_number = 1, seen_sequence_numbers = [1]\<rparr>)"
    by (simp add: p0_def p1_def sequenced_packet_new_def buffer_new_def push_def heap_push_def poll_def
        next_of_def index_of_def upt_rec)
  moreover have "buffer_run (push p0 (push p1 buffer_new)) [p1, p0] []"
    using run_push [OF run_push [OF run_new, of p1], of p0] by simp
  ultimately show ?thesis using run_poll by fastforce
qed

theorem delivery_in_order_witness:
  "\<exists>s. buffer_run s [sequenced_packet_new [2] 1 True, sequenced_packet_new [1] 0 False] [sequenced_packet_new [1] 0 False] \<and>
     first_with [sequenced_packet_new [2] 1 True, sequenced_packet_new [1] 0 False] 0 = Some (sequenced_packet_new [1] 0 False)"
proof -
  obtain s where run: "buffer_run s [sequenced_packet_new [2] 1 True, sequenced_packet_new [1] 0 False]
      [sequenced_packet_new [1] 0 False]"
    using sample_run by blast
  from delivery_in_order [OF run, of 0] run show ?thesis by auto
qed



text \<open>
  Searching a list for a sub-list returns the first position where it occurs.
\<close>

theorem index_of_first:
  "index_of hs ns = Some i \<longleftrightarrow>
     ns \<noteq> [] \<and> i < length hs \<and> prefix ns (drop i hs) \<and> (\<forall>j \<in> {0..<i}. \<not> prefix ns (drop j hs))"
  unfolding index_of_Some by auto

theorem index_of_first_witness: "index_of [1, 2, 3, 2, 3 :: nat] [2, 3] = Some 1"
  unfolding index_of_first by (simp add: prefix_def)

end
