(* ===== verification/Protocol_Utils.thy ===== *)
theory Protocol_Utils
  imports Country_Serde
begin

text \<open>
  Model of \<open>automap/src/protocols/utils.rs\<close>: reading and writing big-endian numbers and
  addresses at an offset of a byte buffer.  An access beyond the end of the buffer
  panics (\<^term>\<open>None\<close>).  Every pair of a reader and a writer is an instance of the
  locale \<open>byte_field\<close>, whose lemmas carry the round trips of the packets.
\<close>

section \<open>Directions and errors\<close>

datatype direction = Request | Response

definition direction_from :: "u8 \<Rightarrow> direction" where
  "direction_from input = (if 0 < input AND 0x80 then Response else Request)"

fun direction_code :: "direction \<Rightarrow> u8" where
  "direction_code Request = 0x00"
| "direction_code Response = 0x80"

datatype parse_error =
    WrongVersion u8
  | ParseShortBuffer nat nat
  | UnexpectedOpcode string

datatype marshal_error = MarshalShortBuffer nat nat

section \<open>Slices of a buffer\<close>

definition overwrite :: "u8 list \<Rightarrow> nat \<Rightarrow> u8 list \<Rightarrow> u8 list" where
  "overwrite buf offset bs = take offset buf @ bs @ drop (offset + length bs) buf"

definition put_bytes :: "u8 list \<Rightarrow> nat \<Rightarrow> u8 list \<Rightarrow> u8 list option" where
  "put_bytes buf offset bs =
     (if offset + length bs \<le> length buf then Some (overwrite buf offset bs) else None)"

definition get_bytes :: "u8 list \<Rightarrow> nat \<Rightarrow> nat \<Rightarrow> u8 list option" where
  "get_bytes buf offset n =
     (if offset + n \<le> length buf then Some (take n (drop offset buf)) else None)"

definition byte_at :: "u8 list \<Rightarrow> nat \<Rightarrow> u8 option" where
  "byte_at buf i = (if i < length buf then Some (buf ! i) else None)"

section \<open>Numbers and addresses\<close>

definition u32_at :: "u8 list \<Rightarrow> nat \<Rightarrow> u32 option" where
  "u32_at buf offset =
     (if offset + 4 \<le> length buf
      then Some (push_bit 24 (ucast (buf ! offset)) + push_bit 16 (ucast (buf ! (offset + 1))) +
                 push_bit 8 (ucast (buf ! (offset + 2))) + ucast (buf ! (offset + 3)))
      else None)"

definition u32_into :: "u8 list \<Rightarrow> nat \<Rightarrow> u32 \<Rightarrow> u8 list option" where
  "u32_into buf offset val =
     put_bytes buf offset
       [ucast (drop_bit 24 val), ucast (drop_bit 16 val AND 0xFF), ucast (drop_bit 8 val AND 0xFF),
        ucast (val AND 0xFF)]"

definition u16_at :: "u8 list \<Rightarrow> nat \<Rightarrow> u16 option" where
  "u16_at buf offset =
     (if offset + 2 \<le> length buf
      then Some (push_bit 8 (ucast (buf ! offset)) + ucast (buf ! (offset + 1))) else None)"

definition u16_into :: "u8 list \<Rightarrow> nat \<Rightarrow> u16 \<Rightarrow> u8 list option" where
  "u16_into buf offset val =
     put_bytes buf offset [ucast (drop_bit 8 val), ucast (val AND 0xFF)]"

definition ipv4_addr_at :: "u8 list \<Rightarrow> nat \<Rightarrow> ip_addr option" where
  "ipv4_addr_at buf offset = map_option (\<lambda>bs. V4 (parts_word bs)) (get_bytes buf offset 4)"

text \<open>
  \<open>Ipv6Addr::to_ipv4\<close> and \<open>Ipv4Addr::to_ipv6_mapped\<close> of the standard library: the
  former accepts the mapped form \<open>::ffff:a.b.c.d\<close> and the compatible form
  \<open>::a.b.c.d\<close>.
\<close>

definition to_ipv4 :: "u128 \<Rightarrow> u32 option" where
  "to_ipv4 ip = (if drop_bit 32 ip = 0 \<or> drop_bit 32 ip = 0xFFFF then Some (ucast ip) else None)"

definition to_ipv6_mapped :: "u32 \<Rightarrow> u128" where
  "to_ipv6_mapped ip = push_bit 32 0xFFFF OR ucast ip"

definition ipv6_addr_at :: "u8 list \<Rightarrow> nat \<Rightarrow> ip_addr option" where
  "ipv6_addr_at buf offset = do {
     s0 \<leftarrow> u16_at buf offset;
     s1 \<leftarrow> u16_at buf (offset + 2);
     s2 \<leftarrow> u16_at buf (offset + 4);
     s3 \<leftarrow> u16_at buf (offset + 6);
     s4 \<leftarrow> u16_at buf (offset + 8);
     s5 \<leftarrow> u16_at buf (offset + 10);
     s6 \<leftarrow> u16_at buf (offset + 12);
     s7 \<leftarrow> u16_at buf (offset + 14);
     let ipv6_addr = parts_word [s0, s1, s2, s3, s4, s5, s6, s7];
     Some (case to_ipv4 ipv6_addr of Some ipv4_addr \<Rightarrow> V4 ipv4_addr | None \<Rightarrow> V6 ipv6_addr) }"

definition ipv6_addr_into :: "u8 list \<Rightarrow> nat \<Rightarrow> ip_addr \<Rightarrow> u8 list option" where
  "ipv6_addr_into buf offset val =
     (let ipv6_addr = (case val of V4 addr \<Rightarrow> to_ipv6_mapped addr | V6 addr \<Rightarrow> addr)
      in put_bytes buf offset (octets6 ipv6_addr))"

definition ipv4_addr_into :: "u8 list \<Rightarrow> nat \<Rightarrow> u32 \<Rightarrow> u8 list option" where
  "ipv4_addr_into buf offset val = put_bytes buf offset (octets4 val)"

section \<open>Directions and opcodes in one byte\<close>

lemma opcode_byte: "(c :: u8) AND 0x7F = c \<Longrightarrow> (direction_code d OR c) AND 0x7F = c"
  by (cases d) (simp_all add: bit.conj_disj_distrib2)

lemma opcode_byte_direction:
  assumes "(c :: u8) AND 0x7F = c"
  shows "direction_from (direction_code d OR c) = d"
proof -
  have "c AND 0x80 = (c AND 0x7F) AND 0x80" using assms by simp
  also have "\<dots> = 0" by (simp add: and.assoc)
  finally show ?thesis by (cases d) (simp_all add: direction_from_def bit.conj_disj_distrib2)
qed

lemma map_sum_Inr: "map_sum f g r = Inr y \<longleftrightarrow> (\<exists>x. r = Inr x \<and> y = g x)"
  by (cases r) auto

lemma map_sum_Inl: "map_sum f g r = Inl y \<longleftrightarrow> (\<exists>x. r = Inl x \<and> y = f x)"
  by (cases r) auto

section \<open>Facts on slices\<close>

lemma length_overwrite [simp]: "offset + length bs \<le> length buf \<Longrightarrow> length (overwrite buf offset bs) = length buf"
  by (simp add: overwrite_def)

lemma put_bytes_Some: "offset + length bs \<le> length buf \<Longrightarrow> put_bytes buf offset bs = Some (overwrite buf offset bs)"
  by (simp add: put_bytes_def)

lemma get_overwrite_same:
  "offset + length bs \<le> length buf \<Longrightarrow> n = length bs \<Longrightarrow> get_bytes (overwrite buf offset bs) offset n = Some bs"
  by (simp add: get_bytes_def overwrite_def)

lemma get_overwrite_other:
  assumes "offset + length bs \<le> length buf" "o' + n \<le> offset \<or> offset + length bs \<le> o'"
  shows "get_bytes (overwrite buf offset bs) o' n = get_bytes buf o' n"
proof (cases "o' + n \<le> length buf")
  case True
  have "take n (drop o' (overwrite buf offset bs)) = take n (drop o' buf)"
  proof (rule nth_equalityI)
    show "length (take n (drop o' (overwrite buf offset bs))) = length (take n (drop o' buf))"
      using assms(1) True by simp
    fix i assume "i < length (take n (drop o' (overwrite buf offset bs)))"
    then show "take n (drop o' (overwrite buf offset bs)) ! i = take n (drop o' buf) ! i"
      using assms True by (auto simp: overwrite_def nth_append add.commute add.left_commute)
  qed
  with True assms(1) show ?thesis by (simp add: get_bytes_def)
qed (use assms(1) in \<open>simp add: get_bytes_def\<close>)

lemma drop_overwrite: "offset + length bs \<le> length buf \<Longrightarrow> drop (offset + length bs) (overwrite buf offset bs) = drop (offset + length bs) buf"
  by (simp add: overwrite_def)

lemma get_bytes_drop: "get_bytes (drop k buf) offset n = (if k \<le> length buf then get_bytes buf (k + offset) n else if offset + n = 0 then Some [] else None)"
  by (auto simp: get_bytes_def add.commute add.left_commute)

lemma nth_get_bytes: "get_bytes buf i 1 = Some [b] \<longleftrightarrow> i < length buf \<and> buf ! i = b"
  by (auto simp: get_bytes_def take_Suc_conv_app_nth Suc_le_eq take_Suc hd_drop_conv_nth)

text \<open>
  A buffer whose first bytes have been written, the rest being as it was.  Writing the
  next bytes extends the written part, so a sequence of writes in the order of the
  offsets simplifies to one such buffer.
\<close>

definition filled :: "u8 list \<Rightarrow> u8 list \<Rightarrow> u8 list" where
  "filled buf pre = pre @ drop (length pre) buf"

lemma put_bytes_first: "length bs \<le> length buf \<Longrightarrow> put_bytes buf 0 bs = Some (filled buf bs)"
  by (simp add: put_bytes_def overwrite_def filled_def)

lemma put_bytes_filled:
  "off = length pre \<Longrightarrow> off + length bs \<le> length buf \<Longrightarrow> put_bytes (filled buf pre) off bs = Some (filled buf (pre @ bs))"
  by (simp add: put_bytes_def overwrite_def filled_def add.commute)

lemma length_filled: "length pre \<le> length buf \<Longrightarrow> length (filled buf pre) = length buf"
  by (simp add: filled_def)

lemma drop_filled: "off = length pre \<Longrightarrow> drop off (filled buf pre) = drop off buf"
  by (simp add: filled_def)

lemma drop_filled_append: "off = length pre \<Longrightarrow> drop off (filled buf (pre @ bs)) = filled (drop off buf) bs"
  by (simp add: filled_def add.commute)

lemma take_filled: "off = length pre \<Longrightarrow> take off (filled buf pre) = pre"
  by (simp add: filled_def)

lemma append_filled: "off = length pre \<Longrightarrow> pre @ filled (drop off buf) bs = filled buf (pre @ bs)"
  by (simp add: filled_def add.commute)

lemma get_bytes_filled: "off + n \<le> length pre \<Longrightarrow> get_bytes (filled buf pre) off n = Some (take n (drop off pre))"
  by (simp add: get_bytes_def filled_def)

lemma byte_at_filled: "off < length pre \<Longrightarrow> byte_at (filled buf pre) off = Some (pre ! off)"
  by (simp add: byte_at_def filled_def nth_append)

lemmas put_filled = put_bytes_first put_bytes_filled
lemmas slice_filled = drop_filled take_filled append_filled length_filled

section \<open>Fields of a fixed width\<close>

text \<open>
  A field: a reader and a writer of values of a fixed number of bytes.  The values for
  which reading inverts writing are the \<open>good\<close> ones.
\<close>

locale byte_field =
  fixes rd :: "u8 list \<Rightarrow> nat \<Rightarrow> 'v option"
    and wr :: "u8 list \<Rightarrow> nat \<Rightarrow> 'w \<Rightarrow> u8 list option"
    and enc :: "'w \<Rightarrow> u8 list"
    and val :: "'w \<Rightarrow> 'v"
    and width :: nat
    and good :: "'w \<Rightarrow> bool"
  assumes enc_length: "length (enc w) = width"
    and into_put: "wr buf off w = put_bytes buf off (enc w)"
    and at_get: "good w \<Longrightarrow> get_bytes buf off width = Some (enc w) \<Longrightarrow> rd buf off = Some (val w)"
begin

lemma into_Some: "off + width \<le> length buf \<Longrightarrow> wr buf off w = Some (overwrite buf off (enc w))"
  by (simp add: into_put put_bytes_Some enc_length)

lemma into_None: "length buf < off + width \<Longrightarrow> wr buf off w = None"
  by (simp add: into_put put_bytes_def enc_length)

lemma at_overwrite: "good w \<Longrightarrow> off + width \<le> length buf \<Longrightarrow> rd (overwrite buf off (enc w)) off = Some (val w)"
  by (simp add: at_get get_overwrite_same enc_length)

lemma at_filled:
  "good w \<Longrightarrow> off + width \<le> length pre \<Longrightarrow> take width (drop off pre) = enc w \<Longrightarrow> rd (filled buf pre) off = Some (val w)"
  by (simp add: at_get get_bytes_filled)

lemma at_into: "good w \<Longrightarrow> wr buf off w = Some buf' \<Longrightarrow> rd buf' off = Some (val w)"
  using into_None [of buf off w] by (cases "off + width \<le> length buf") (auto simp: into_Some at_overwrite)

end

lemma list2E: assumes "length xs = 2" obtains a b where "xs = [a, b]"
  using assms by (metis length_0_conv length_Suc_conv numeral_2_eq_2)

lemma list4E: assumes "length xs = 4" obtains a b c d where "xs = [a, b, c, d]"
proof -
  from assms have "length xs = Suc (Suc (Suc (Suc 0)))" by simp
  with that show ?thesis unfolding length_Suc_conv by auto
qed

lemma get_bytes_nth:
  assumes "get_bytes buf off n = Some bs"
  shows "off + n \<le> length buf" "length bs = n" "i < n \<Longrightarrow> bs ! i = buf ! (off + i)"
  using assms by (auto simp: get_bytes_def split: if_splits)

lemma push_add_or:
  assumes "\<And>n. bit x n \<Longrightarrow> \<not> bit y n"
  shows "(x :: 'a::len word) + y = x OR y"
  using assms by (intro disjunctive_add) auto

lemma u16_at_parts: "get_bytes buf off 2 = Some bs \<Longrightarrow> u16_at buf off = Some (parts_word bs)"
proof -
  assume get: "get_bytes buf off 2 = Some bs"
  then have "length bs = 2" by (rule get_bytes_nth)
  then obtain a b where bs: "bs = [a, b]" by (rule list2E)
  have "buf ! off = a" "buf ! (off + 1) = b"
    using get_bytes_nth(3) [OF get, of 0] get_bytes_nth(3) [OF get, of 1] bs by simp_all
  moreover have "push_bit 8 (ucast a :: u16) + ucast b = push_bit 8 (ucast a) OR ucast b"
    by (rule push_add_or) (auto simp: bit_push_bit_iff bit_ucast_iff dest: bit_imp_le_length)
  ultimately show ?thesis
    using get_bytes_nth(1) [OF get] bs by (simp add: u16_at_def parts_word_def)
qed

lemma u32_at_parts: "get_bytes buf off 4 = Some bs \<Longrightarrow> u32_at buf off = Some (parts_word bs)"
proof -
  assume get: "get_bytes buf off 4 = Some bs"
  then have "length bs = 4" by (rule get_bytes_nth)
  then obtain a b c d where bs: "bs = [a, b, c, d]" by (rule list4E)
  have nth: "buf ! off = a" "buf ! (off + 1) = b" "buf ! (off + 2) = c" "buf ! (off + 3) = d"
    using get_bytes_nth(3) [OF get, of 0] get_bytes_nth(3) [OF get, of 1] get_bytes_nth(3) [OF get, of 2]
      get_bytes_nth(3) [OF get, of 3] bs by simp_all
  have ab: "push_bit 24 (ucast a :: u32) + push_bit 16 (ucast b) = push_bit 24 (ucast a) OR push_bit 16 (ucast b)"
    by (rule push_add_or) (auto simp: bit_push_bit_iff bit_ucast_iff dest: bit_imp_le_length)
  have abc: "(push_bit 24 (ucast a :: u32) OR push_bit 16 (ucast b)) + push_bit 8 (ucast c) =
      (push_bit 24 (ucast a) OR push_bit 16 (ucast b)) OR push_bit 8 (ucast c)"
    by (rule push_add_or) (auto simp: bit_push_bit_iff bit_or_iff bit_ucast_iff dest: bit_imp_le_length)
  have abcd: "((push_bit 24 (ucast a :: u32) OR push_bit 16 (ucast b)) OR push_bit 8 (ucast c)) + ucast d =
      ((push_bit 24 (ucast a) OR push_bit 16 (ucast b)) OR push_bit 8 (ucast c)) OR ucast d"
    by (rule push_add_or) (auto simp: bit_push_bit_iff bit_or_iff bit_ucast_iff dest: bit_imp_le_length)
  have "parts_word [a, b, c, d] = (((push_bit 24 (ucast a :: u32) OR push_bit 16 (ucast b)) OR push_bit 8 (ucast c)) OR ucast d)"
    by (rule bit_word_eqI) (auto simp: parts_word_def bit_push_bit_iff bit_or_iff bit_ucast_iff)
  then show ?thesis
    using get_bytes_nth(1) [OF get] nth bs by (simp add: u32_at_def ab abc abcd)
qed

lemma ucast_and_ff: "LENGTH('a) \<ge> 8 \<Longrightarrow> (ucast ((w :: 'a::len word) AND 0xFF) :: u8) = ucast w"
proof -
  assume len: "LENGTH('a) \<ge> 8"
  have ff: "(0xFF :: 'a word) = mask 8" by (simp add: mask_eq_exp_minus_1)
  show ?thesis unfolding ff by (rule bit_word_eqI) (use len in \<open>auto simp: bit_ucast_iff bit_and_iff bit_mask_iff\<close>)
qed

lemma u16_into_parts: "u16_into buf off w = put_bytes buf off (word_parts 2 w)"
  by (simp add: u16_into_def ucast_and_ff word_parts_def upt_rec)

lemma u32_into_parts: "u32_into buf off w = put_bytes buf off (word_parts 4 w)"
  by (simp add: u32_into_def ucast_and_ff word_parts_def upt_rec)

interpretation u16: byte_field u16_at u16_into "word_parts 2" "\<lambda>w. w" 2 "\<lambda>_. True"
proof unfold_locales
  fix buf off and w :: u16
  assume "get_bytes buf off 2 = Some (word_parts 2 w)"
  then show "u16_at buf off = Some w"
    using parts_word_parts [where 'a = 16 and 'b = 8, of 2 w] by (simp add: u16_at_parts)
qed (simp_all add: u16_into_parts)

interpretation u32: byte_field u32_at u32_into "word_parts 4" "\<lambda>w. w" 4 "\<lambda>_. True"
proof unfold_locales
  fix buf off and w :: u32
  assume "get_bytes buf off 4 = Some (word_parts 4 w)"
  then show "u32_at buf off = Some w"
    using parts_word_parts [where 'a = 32 and 'b = 8, of 4 w] by (simp add: u32_at_parts)
qed (simp_all add: u32_into_parts)

interpretation ip4: byte_field ipv4_addr_at ipv4_addr_into octets4 V4 4 "\<lambda>_. True"
proof unfold_locales
  fix buf off and w :: u32
  assume "get_bytes buf off 4 = Some (octets4 w)"
  then show "ipv4_addr_at buf off = Some (V4 w)"
    using parts_word_parts [where 'a = 32 and 'b = 8, of 4 w] by (simp add: ipv4_addr_at_def octets4_def)
qed (simp_all add: ipv4_addr_into_def)

section \<open>Addresses in the 128-bit form\<close>

text \<open>
  An IPv4 address is written in the mapped form and read back.  An IPv6 address is read
  back as itself unless it is in the mapped or the compatible form, which are read as
  IPv4 addresses.
\<close>

fun ip_octets :: "ip_addr \<Rightarrow> u8 list" where
  "ip_octets (V4 a) = octets6 (to_ipv6_mapped a)"
| "ip_octets (V6 a) = octets6 a"

fun ip_read_back :: "ip_addr \<Rightarrow> ip_addr" where
  "ip_read_back (V4 a) = V4 a"
| "ip_read_back (V6 a) = (case to_ipv4 a of Some b \<Rightarrow> V4 b | None \<Rightarrow> V6 a)"

lemma ffff_mask: "(0xFFFF :: u128) = mask 16"
  by (simp add: mask_eq_exp_minus_1)

lemma to_ipv4_mapped: "to_ipv4 (to_ipv6_mapped a) = Some a"
proof -
  have "drop_bit 32 (to_ipv6_mapped a) = 0xFFFF"
    unfolding to_ipv6_mapped_def ffff_mask
    by (rule bit_word_eqI)
      (auto simp: bit_drop_bit_eq bit_or_iff bit_push_bit_iff bit_ucast_iff bit_mask_iff dest: bit_imp_le_length)
  moreover have "ucast (to_ipv6_mapped a) = a"
    unfolding to_ipv6_mapped_def ffff_mask
    by (rule bit_word_eqI) (auto simp: bit_or_iff bit_push_bit_iff bit_ucast_iff bit_mask_iff)
  ultimately show ?thesis by (simp add: to_ipv4_def)
qed

lemma octets6_nth: "j < 16 \<Longrightarrow> octets6 w ! j = ucast (drop_bit (8 * (15 - j)) w)"
  by (simp add: octets6_def word_parts_def)

lemma bit_parts_word_pair: "bit (parts_word [x, y] :: u16) n \<longleftrightarrow> (if n < 8 then bit y n else bit (x :: u8) (n - 8))"
  by (auto simp: parts_word_def bit_or_iff bit_push_bit_iff bit_ucast_iff dest: bit_imp_le_length)

lemma octet_pair_segment:
  assumes "i < 8"
  shows "(parts_word [octets6 w ! (2 * i), octets6 w ! (2 * i + 1)] :: u16) = word_parts 8 w ! i"
proof (rule bit_word_eqI)
  fix n assume "n < LENGTH(16)"
  then have n: "n < 16" by simp
  have seg: "(word_parts 8 w ! i :: u16) = ucast (drop_bit (16 * (7 - i)) w)"
    using assms by (simp add: word_parts_def)
  show "bit (parts_word [octets6 w ! (2 * i), octets6 w ! (2 * i + 1)] :: u16) n = bit (word_parts 8 w ! i :: u16) n"
  proof (cases "n < 8")
    case True
    have "8 * (15 - (2 * i + 1)) = 16 * (7 - i)" using assms by simp
    with True n assms show ?thesis
      by (simp add: bit_parts_word_pair octets6_nth seg bit_ucast_iff bit_drop_bit_eq)
  next
    case False
    then have "8 * (15 - 2 * i) + (n - 8) = 16 * (7 - i) + n" using assms by (simp add: diff_mult_distrib2)
    moreover have "n - 8 < 8" using n by simp
    ultimately show ?thesis using False n assms
      by (simp add: bit_parts_word_pair octets6_nth seg bit_ucast_iff bit_drop_bit_eq)
  qed
qed

lemma u16_at_octets:
  assumes "get_bytes buf off 16 = Some (octets6 w)" "i < 8"
  shows "u16_at buf (off + 2 * i) = Some (word_parts 8 w ! i)"
proof -
  have "off + 2 * i + 2 \<le> length buf" using get_bytes_nth(1) [OF assms(1)] assms(2) by simp
  then have "get_bytes buf (off + 2 * i) 2 = Some [buf ! (off + 2 * i), buf ! (off + 2 * i + 1)]"
    by (simp add: get_bytes_def numeral_2_eq_2 take_Suc_conv_app_nth)
  also have "[buf ! (off + 2 * i), buf ! (off + 2 * i + 1)] = [octets6 w ! (2 * i), octets6 w ! (2 * i + 1)]"
    using get_bytes_nth(3) [OF assms(1), of "2 * i"] get_bytes_nth(3) [OF assms(1), of "2 * i + 1"] assms(2) by simp
  finally show ?thesis using octet_pair_segment [OF assms(2)] by (simp add: u16_at_parts)
qed

lemma ipv6_addr_at_octets:
  assumes "get_bytes buf off 16 = Some (octets6 w)"
  shows "ipv6_addr_at buf off = Some (case to_ipv4 w of Some a \<Rightarrow> V4 a | None \<Rightarrow> V6 w)"
proof -
  note seg = u16_at_octets [OF assms]
  have "[word_parts 8 w ! 0, word_parts 8 w ! 1, word_parts 8 w ! 2, word_parts 8 w ! 3,
      word_parts 8 w ! 4, word_parts 8 w ! 5, word_parts 8 w ! 6, word_parts 8 w ! 7] = (word_parts 8 w :: u16 list)"
    by (simp add: word_parts_def upt_rec)
  then have "parts_word [word_parts 8 w ! 0, word_parts 8 w ! 1, word_parts 8 w ! 2, word_parts 8 w ! 3,
      word_parts 8 w ! 4, word_parts 8 w ! 5, word_parts 8 w ! 6, word_parts 8 w ! 7 :: u16] = w"
    using parts_word_parts [where 'a = 128 and 'b = 16, of 8 w] by simp
  then show ?thesis
    using seg [of 0] seg [of 1] seg [of 2] seg [of 3] seg [of 4] seg [of 5] seg [of 6] seg [of 7]
    by (simp add: ipv6_addr_at_def)
qed

interpretation ip6: byte_field ipv6_addr_at ipv6_addr_into ip_octets ip_read_back 16 "\<lambda>_. True"
proof unfold_locales
  fix w :: ip_addr
  show "length (ip_octets w) = 16" by (cases w) (simp_all add: octets6_def)
  fix buf off
  show "ipv6_addr_into buf off w = put_bytes buf off (ip_octets w)" by (cases w) (simp_all add: ipv6_addr_into_def)
  show "get_bytes buf off 16 = Some (ip_octets w) \<Longrightarrow> ipv6_addr_at buf off = Some (ip_read_back w)"
    by (cases w) (simp_all add: ipv6_addr_at_octets to_ipv4_mapped)
qed

lemma ip_read_back_idem: "ip_read_back (ip_read_back ip) = ip_read_back ip"
  by (cases ip) (simp_all split: option.split)

lemma ipv6_addr_at_total:
  assumes "off + 16 \<le> length buf"
  shows "\<exists>ip. ipv6_addr_at buf off = Some ip \<and> ip_read_back ip = ip"
  using assms by (simp add: ipv6_addr_at_def u16_at_def Let_def split: option.split)

text \<open>
  The loopback address \<open>::1\<close> has the compatible form: it is read back as the IPv4
  address \<open>0.0.0.1\<close>.
\<close>

lemma ipv6_loopback_read_as_ipv4:
  "\<exists>buf. ipv6_addr_into (replicate 16 0) 0 (V6 1) = Some buf \<and> ipv6_addr_at buf 0 = Some (V4 1)"
proof -
  obtain buf where buf: "ipv6_addr_into (replicate 16 0) 0 (V6 1) = Some buf" by (simp add: ip6.into_Some)
  have "drop_bit 32 (1 :: u128) = 0" by (simp add: drop_bit_eq_div)
  then have "ip_read_back (V6 1) = V4 1" by (simp add: to_ipv4_def)
  with ip6.at_into [OF TrueI buf] buf show ?thesis by simp
qed

end
