(* ===== verification/Pcp_Packet.thy ===== *)
theory Pcp_Packet
  imports Protocol_Utils
begin

text \<open>
  Model of the PCP packets: \<open>automap/src/protocols/pcp/\<close> with \<open>map_packet.rs\<close> and
  \<open>pcp_packet.rs\<close>.  Marshalling returns its result together with the buffer it wrote
  into; \<^term>\<open>None\<close> is a panic.  The trait \<open>PcpOption\<close> has no implementation, so
  the list of options of a packet is empty: its elements are left as \<^typ>\<open>unit\<close>.
\<close>

section \<open>Opcodes and result codes\<close>

datatype pcp_opcode = PcpAnnounce | PcpMap | PcpPeer | PcpOther u8

definition pcp_opcode_from :: "u8 \<Rightarrow> pcp_opcode" where
  "pcp_opcode_from input =
     (let x = input AND 0x7F in
      if x = 0 then PcpAnnounce else if x = 1 then PcpMap else if x = 2 then PcpPeer else PcpOther x)"

fun pcp_opcode_code :: "pcp_opcode \<Rightarrow> u8" where
  "pcp_opcode_code PcpAnnounce = 0"
| "pcp_opcode_code PcpMap = 1"
| "pcp_opcode_code PcpPeer = 2"
| "pcp_opcode_code (PcpOther code) = code AND 0x7F"

datatype pcp_result_code =
    PcpSuccess
  | PcpUnsuppVersion
  | PcpNotAuthorized
  | PcpMalformedRequest
  | PcpUnsuppOpcode
  | PcpUnsuppOption
  | PcpMalformedOption
  | PcpNetworkFailure
  | PcpNoResources
  | PcpUnsuppProtocol
  | PcpUserExQuota
  | PcpCannotProvideExternal
  | PcpAddressMismatch
  | PcpExcessiveRemotePeers
  | PcpOtherResult u8

definition pcp_result_from :: "u8 \<Rightarrow> pcp_result_code" where
  "pcp_result_from input =
     (if input = 0 then PcpSuccess
      else if input = 1 then PcpUnsuppVersion
      else if input = 2 then PcpNotAuthorized
      else if input = 3 then PcpMalformedRequest
      else if input = 4 then PcpUnsuppOpcode
      else if input = 5 then PcpUnsuppOption
      else if input = 6 then PcpMalformedOption
      else if input = 7 then PcpNetworkFailure
      else if input = 8 then PcpNoResources
      else if input = 9 then PcpUnsuppProtocol
      else if input = 10 then PcpUserExQuota
      else if input = 11 then PcpCannotProvideExternal
      else if input = 12 then PcpAddressMismatch
      else if input = 13 then PcpExcessiveRemotePeers
      else PcpOtherResult input)"

fun pcp_result_to_code :: "pcp_result_code \<Rightarrow> u8" where
  "pcp_result_to_code PcpSuccess = 0"
| "pcp_result_to_code PcpUnsuppVersion = 1"
| "pcp_result_to_code PcpNotAuthorized = 2"
| "pcp_result_to_code PcpMalformedRequest = 3"
| "pcp_result_to_code PcpUnsuppOpcode = 4"
| "pcp_result_to_code PcpUnsuppOption = 5"
| "pcp_result_to_code PcpMalformedOption = 6"
| "pcp_result_to_code PcpNetworkFailure = 7"
| "pcp_result_to_code PcpNoResources = 8"
| "pcp_result_to_code PcpUnsuppProtocol = 9"
| "pcp_result_to_code PcpUserExQuota = 10"
| "pcp_result_to_code PcpCannotProvideExternal = 11"
| "pcp_result_to_code PcpAddressMismatch = 12"
| "pcp_result_to_code PcpExcessiveRemotePeers = 13"
| "pcp_result_to_code (PcpOtherResult code) = code"

fun pcp_is_permanent :: "pcp_result_code \<Rightarrow> bool" where
  "pcp_is_permanent PcpSuccess = False"
| "pcp_is_permanent PcpUnsuppVersion = True"
| "pcp_is_permanent PcpNotAuthorized = True"
| "pcp_is_permanent PcpMalformedRequest = True"
| "pcp_is_permanent PcpUnsuppOpcode = True"
| "pcp_is_permanent PcpUnsuppOption = True"
| "pcp_is_permanent PcpMalformedOption = True"
| "pcp_is_permanent PcpNetworkFailure = False"
| "pcp_is_permanent PcpNoResources = False"
| "pcp_is_permanent PcpUnsuppProtocol = True"
| "pcp_is_permanent PcpUserExQuota = False"
| "pcp_is_permanent PcpCannotProvideExternal = False"
| "pcp_is_permanent PcpAddressMismatch = True"
| "pcp_is_permanent PcpExcessiveRemotePeers = True"
| "pcp_is_permanent (PcpOtherResult code) = True"

section \<open>Opcode data\<close>

datatype protocol = Udp | Tcp | OtherProtocol u8

definition protocol_from :: "u8 \<Rightarrow> protocol" where
  "protocol_from input = (if input = 6 then Tcp else if input = 17 then Udp else OtherProtocol input)"

fun protocol_code :: "protocol \<Rightarrow> u8" where
  "protocol_code Tcp = 6"
| "protocol_code Udp = 17"
| "protocol_code (OtherProtocol x) = x"

record pcp_map_data =
  mapping_nonce :: "u8 list"
  protocol :: protocol
  internal_port :: u16
  external_port :: u16
  external_ip_address :: ip_addr

definition pcp_map_default :: pcp_map_data where
  "pcp_map_default = \<lparr>mapping_nonce = replicate 12 0, protocol = OtherProtocol 127, internal_port = 0,
     external_port = 0, external_ip_address = V4 0\<rparr>"

definition pcp_map_len :: "direction \<Rightarrow> nat" where
  "pcp_map_len dir = 36"

definition pcp_map_marshal :: "pcp_map_data \<Rightarrow> direction \<Rightarrow> u8 list \<Rightarrow> ((marshal_error + unit) \<times> u8 list) option" where
  "pcp_map_marshal d dir buf =
     (if length buf < pcp_map_len dir
      then Some (Inl (MarshalShortBuffer (pcp_map_len dir) (length buf)), buf)
      else do {
        buf \<leftarrow> put_bytes buf 0 (take 12 (mapping_nonce d));
        buf \<leftarrow> put_bytes buf 12 [protocol_code (protocol d)];
        buf \<leftarrow> put_bytes buf 13 [0x00];
        buf \<leftarrow> put_bytes buf 14 [0x00];
        buf \<leftarrow> put_bytes buf 15 [0x00];
        buf \<leftarrow> u16_into buf 16 (internal_port d);
        buf \<leftarrow> u16_into buf 18 (external_port d);
        buf \<leftarrow> ipv6_addr_into buf 20 (external_ip_address d);
        Some (Inr (), buf) })"

definition pcp_map_try_from :: "u8 list \<Rightarrow> (parse_error + pcp_map_data) option" where
  "pcp_map_try_from buffer =
     (if length buffer < pcp_map_len Request
      then Some (Inl (ParseShortBuffer (pcp_map_len Request) (length buffer)))
      else do {
        nonce \<leftarrow> get_bytes buffer 0 12;
        b12 \<leftarrow> byte_at buffer 12;
        internal \<leftarrow> u16_at buffer 16;
        external \<leftarrow> u16_at buffer 18;
        ip \<leftarrow> ipv6_addr_at buffer 20;
        Some (Inr (pcp_map_default\<lparr>mapping_nonce := nonce, protocol := protocol_from b12,
          internal_port := internal, external_port := external, external_ip_address := ip\<rparr>)) })"

datatype pcp_opcode_data = PcpMapData pcp_map_data | PcpUnrecognizedData

fun pcp_data_len :: "pcp_opcode_data \<Rightarrow> direction \<Rightarrow> nat" where
  "pcp_data_len (PcpMapData d) dir = pcp_map_len dir"
| "pcp_data_len PcpUnrecognizedData dir = 0"

fun pcp_data_marshal :: "pcp_opcode_data \<Rightarrow> direction \<Rightarrow> u8 list \<Rightarrow> ((marshal_error + unit) \<times> u8 list) option" where
  "pcp_data_marshal (PcpMapData d) dir buf = pcp_map_marshal d dir buf"
| "pcp_data_marshal PcpUnrecognizedData dir buf = Some (Inr (), buf)"

fun pcp_parse_data :: "pcp_opcode \<Rightarrow> u8 list \<Rightarrow> (parse_error + pcp_opcode_data) option" where
  "pcp_parse_data PcpAnnounce buf = Some (Inr PcpUnrecognizedData)"
| "pcp_parse_data PcpMap buf = map_option (map_sum id PcpMapData) (pcp_map_try_from buf)"
| "pcp_parse_data PcpPeer buf = Some (Inl (UnexpectedOpcode ''Peer''))"
| "pcp_parse_data (PcpOther code) buf = Some (Inr PcpUnrecognizedData)"

section \<open>Packets\<close>

record pcp_packet =
  pcp_direction :: direction
  pcp_opcode :: pcp_opcode
  pcp_result_code_opt :: "pcp_result_code option"
  pcp_lifetime :: u32
  pcp_client_ip_opt :: "ip_addr option"
  pcp_epoch_time_opt :: "u32 option"
  pcp_opcode_data :: pcp_opcode_data
  pcp_options :: "unit list"

definition pcp_packet_default :: pcp_packet where
  "pcp_packet_default = \<lparr>pcp_direction = Request, pcp_opcode = PcpOther 127, pcp_result_code_opt = None,
     pcp_lifetime = 0, pcp_client_ip_opt = None, pcp_epoch_time_opt = None,
     pcp_opcode_data = PcpUnrecognizedData, pcp_options = []\<rparr>"

definition pcp_marshal :: "pcp_packet \<Rightarrow> u8 list \<Rightarrow> ((marshal_error + nat) \<times> u8 list) option" where
  "pcp_marshal p buffer =
     (let required_len = 24 + pcp_data_len (pcp_opcode_data p) (pcp_direction p) in
      if length buffer < required_len
      then Some (Inl (MarshalShortBuffer required_len (length buffer)), buffer)
      else do {
        buffer \<leftarrow> put_bytes buffer 0 [0x02];
        buffer \<leftarrow> put_bytes buffer 1 [direction_code (pcp_direction p) OR pcp_opcode_code (pcp_opcode p)];
        buffer \<leftarrow> put_bytes buffer 2 [0x00];
        buffer \<leftarrow> (case pcp_direction p of
            Request \<Rightarrow> put_bytes buffer 3 [0x00]
          | Response \<Rightarrow> put_bytes buffer 3 [pcp_result_to_code
              (case pcp_result_code_opt p of Some c \<Rightarrow> c | None \<Rightarrow> PcpOtherResult 0xFF)]);
        buffer \<leftarrow> u32_into buffer 4 (pcp_lifetime p);
        buffer \<leftarrow> (case pcp_direction p of
            Request \<Rightarrow> (case pcp_client_ip_opt p of
                Some ip_addr \<Rightarrow> ipv6_addr_into buffer 8 ip_addr
              | None \<Rightarrow> do {
                  buffer \<leftarrow> u32_into buffer 8 0;
                  buffer \<leftarrow> u32_into buffer 12 0;
                  buffer \<leftarrow> u32_into buffer 16 0;
                  u32_into buffer 20 0 })
          | Response \<Rightarrow> do {
              buffer \<leftarrow> u32_into buffer 8 (case pcp_epoch_time_opt p of Some e \<Rightarrow> e | None \<Rightarrow> 0);
              buffer \<leftarrow> u32_into buffer 12 0;
              buffer \<leftarrow> u32_into buffer 16 0;
              u32_into buffer 20 0 });
        (r, slice) \<leftarrow> pcp_data_marshal (pcp_opcode_data p) (pcp_direction p) (drop 24 buffer);
        let buffer = take 24 buffer @ slice;
        Some (case r of
            Inl e \<Rightarrow> (Inl e, buffer)
          | Inr _ \<Rightarrow> (Inr (24 + pcp_data_len (pcp_opcode_data p) (pcp_direction p)), buffer)) })"

definition pcp_try_from :: "u8 list \<Rightarrow> (parse_error + pcp_packet) option" where
  "pcp_try_from buffer =
     (let result = pcp_packet_default in
      if length buffer < 24 then Some (Inl (ParseShortBuffer 24 (length buffer)))
      else do {
        version \<leftarrow> byte_at buffer 0;
        if version \<noteq> 0x02 then Some (Inl (WrongVersion version))
        else do {
          b1 \<leftarrow> byte_at buffer 1;
          lifetime \<leftarrow> u32_at buffer 4;
          let result = result\<lparr>pcp_direction := direction_from b1, pcp_opcode := pcp_opcode_from b1,
                              pcp_lifetime := lifetime\<rparr>;
          result \<leftarrow> (case pcp_direction result of
              Request \<Rightarrow> do {
                ip \<leftarrow> ipv6_addr_at buffer 8;
                Some (result\<lparr>pcp_client_ip_opt := Some ip\<rparr>) }
            | Response \<Rightarrow> do {
                b3 \<leftarrow> byte_at buffer 3;
                epoch \<leftarrow> u32_at buffer 8;
                Some (result\<lparr>pcp_result_code_opt := Some (pcp_result_from b3),
                             pcp_epoch_time_opt := Some epoch\<rparr>) });
          parsed \<leftarrow> pcp_parse_data (pcp_opcode result) (drop 24 buffer);
          Some (map_sum id (\<lambda>d. result\<lparr>pcp_opcode_data := d\<rparr>) parsed) } })"

section \<open>The wire format\<close>

text \<open>The bytes of a packet, as RFC 6887 lays them out.\<close>

fun pcp_data_bytes :: "pcp_opcode_data \<Rightarrow> u8 list" where
  "pcp_data_bytes (PcpMapData d) =
     mapping_nonce d @ [protocol_code (protocol d), 0, 0, 0] @ word_parts 2 (internal_port d) @
     word_parts 2 (external_port d) @ ip_octets (external_ip_address d)"
| "pcp_data_bytes PcpUnrecognizedData = []"

definition pcp_header_bytes :: "pcp_packet \<Rightarrow> u8 list" where
  "pcp_header_bytes p =
     [2, direction_code (pcp_direction p) OR pcp_opcode_code (pcp_opcode p), 0,
      (case pcp_direction p of Request \<Rightarrow> 0
       | Response \<Rightarrow> pcp_result_to_code
           (case pcp_result_code_opt p of Some c \<Rightarrow> c | None \<Rightarrow> PcpOtherResult 0xFF))] @
     word_parts 4 (pcp_lifetime p) @
     (case pcp_direction p of
        Request \<Rightarrow> (case pcp_client_ip_opt p of Some ip \<Rightarrow> ip_octets ip
          | None \<Rightarrow> word_parts 4 (0 :: u32) @ word_parts 4 (0 :: u32) @ word_parts 4 (0 :: u32) @ word_parts 4 (0 :: u32))
      | Response \<Rightarrow> word_parts 4 (case pcp_epoch_time_opt p of Some e \<Rightarrow> e | None \<Rightarrow> 0) @
          word_parts 4 (0 :: u32) @ word_parts 4 (0 :: u32) @ word_parts 4 (0 :: u32))"

text \<open>
  The packets the parser produces: the codes and the addresses are in their canonical
  form, the data is that of the opcode, and exactly the fields of the direction are
  present.  \<open>mapping_nonce\<close> is an array of twelve bytes.
\<close>

fun pcp_data_ok :: "pcp_opcode \<Rightarrow> pcp_opcode_data \<Rightarrow> bool" where
  "pcp_data_ok PcpMap (PcpMapData d) =
     (length (mapping_nonce d) = 12 \<and> protocol_from (protocol_code (protocol d)) = protocol d \<and>
      ip_read_back (external_ip_address d) = external_ip_address d)"
| "pcp_data_ok PcpAnnounce PcpUnrecognizedData = True"
| "pcp_data_ok (PcpOther code) PcpUnrecognizedData = True"
| "pcp_data_ok _ _ = False"

fun pcp_fields_ok :: "direction \<Rightarrow> pcp_result_code option \<Rightarrow> ip_addr option \<Rightarrow> u32 option \<Rightarrow> bool" where
  "pcp_fields_ok Request None (Some ip) None = (ip_read_back ip = ip)"
| "pcp_fields_ok Response (Some c) None (Some e) = (pcp_result_from (pcp_result_to_code c) = c)"
| "pcp_fields_ok _ _ _ _ = False"

definition pcp_packet_ok :: "pcp_packet \<Rightarrow> bool" where
  "pcp_packet_ok p \<longleftrightarrow>
     pcp_opcode_from (pcp_opcode_code (pcp_opcode p)) = pcp_opcode p \<and>
     pcp_fields_ok (pcp_direction p) (pcp_result_code_opt p) (pcp_client_ip_opt p) (pcp_epoch_time_opt p) \<and>
     pcp_data_ok (pcp_opcode p) (pcp_opcode_data p) \<and> pcp_options p = []"

section \<open>Marshalling\<close>

lemmas pcp_put = u16.into_put u32.into_put ip6.into_put put_filled

lemma length_pcp_data_bytes: "pcp_data_ok op d \<Longrightarrow> length (pcp_data_bytes d) = pcp_data_len d dir"
  by (cases "(op, d)" rule: pcp_data_ok.cases) (simp_all add: pcp_map_len_def ip6.enc_length)

lemma length_pcp_header_bytes [simp]: "length (pcp_header_bytes p) = 24"
  by (simp add: pcp_header_bytes_def ip6.enc_length split: direction.split option.split)

lemma pcp_data_marshal_bytes:
  assumes "pcp_data_ok op d" "pcp_data_len d dir \<le> length buf"
  shows "pcp_data_marshal d dir buf = Some (Inr (), filled buf (pcp_data_bytes d))"
  using assms
  by (cases "(op, d)" rule: pcp_data_ok.cases)
    (simp_all add: pcp_map_marshal_def pcp_map_len_def pcp_put ip6.enc_length filled_def [of _ "[]"])

lemma pcp_marshal_bytes:
  assumes "pcp_data_ok op (pcp_opcode_data p)"
    and "24 + pcp_data_len (pcp_opcode_data p) (pcp_direction p) \<le> length buf"
  shows "pcp_marshal p buf = Some (Inr (24 + pcp_data_len (pcp_opcode_data p) (pcp_direction p)),
           filled buf (pcp_header_bytes p @ pcp_data_bytes (pcp_opcode_data p)))"
proof -
  define hdr where "hdr = pcp_header_bytes p"
  have len: "length hdr = 24" by (simp add: hdr_def)
  have "pcp_marshal p buf = do {
     (r, slice) \<leftarrow> pcp_data_marshal (pcp_opcode_data p) (pcp_direction p) (drop 24 (filled buf hdr));
     let buffer = take 24 (filled buf hdr) @ slice;
     Some (case r of Inl e \<Rightarrow> (Inl e, buffer)
       | Inr _ \<Rightarrow> (Inr (24 + pcp_data_len (pcp_opcode_data p) (pcp_direction p)), buffer)) }"
    using assms(2)
    by (cases "pcp_direction p"; cases "pcp_client_ip_opt p")
      (simp_all add: pcp_marshal_def pcp_put ip6.enc_length hdr_def pcp_header_bytes_def Let_def)
  also have "\<dots> = Some (Inr (24 + pcp_data_len (pcp_opcode_data p) (pcp_direction p)),
      filled buf (hdr @ pcp_data_bytes (pcp_opcode_data p)))"
    using assms len by (simp add: pcp_data_marshal_bytes [OF assms(1)] slice_filled)
  finally show ?thesis by (simp add: hdr_def)
qed

section \<open>Parsing\<close>

lemma pcp_opcode_code_low: "pcp_opcode_code op AND 0x7F = pcp_opcode_code op"
  by (cases op) (simp_all add: and.assoc)

lemma pcp_opcode_from_byte:
  "pcp_opcode_from (direction_code d OR pcp_opcode_code op) = pcp_opcode_from (pcp_opcode_code op)"
  by (simp add: pcp_opcode_from_def opcode_byte pcp_opcode_code_low)

lemma pcp_map_parses:
  assumes "pcp_data_ok PcpMap (PcpMapData d)" "36 \<le> length buf"
  shows "pcp_map_try_from (filled buf (pcp_data_bytes (PcpMapData d))) = Some (Inr d)"
proof -
  define b where "b = filled buf (pcp_data_bytes (PcpMapData d))"
  have nonce: "length (mapping_nonce d) = 12" using assms(1) by simp
  have "u16_at b 16 = Some (internal_port d)" "u16_at b 18 = Some (external_port d)"
    unfolding b_def by (rule u16.at_filled; simp add: nonce ip6.enc_length)+
  moreover have "ipv6_addr_at b 20 = Some (ip_read_back (external_ip_address d))"
    unfolding b_def by (rule ip6.at_filled; simp add: nonce ip6.enc_length)
  moreover have "get_bytes b 0 12 = Some (mapping_nonce d)"
    unfolding b_def by (subst get_bytes_filled) (simp_all add: nonce)
  moreover have "byte_at b 12 = Some (protocol_code (protocol d))"
    unfolding b_def by (subst byte_at_filled) (simp_all add: nonce nth_append)
  moreover have "length b = length buf"
    using assms(2) nonce by (simp add: b_def length_filled ip6.enc_length)
  ultimately have "pcp_map_try_from b = Some (Inr d)"
    using assms by (cases d) (simp add: pcp_map_try_from_def pcp_map_default_def pcp_map_len_def)
  then show ?thesis by (simp add: b_def)
qed

lemma pcp_data_parses:
  assumes "pcp_data_ok op d" "pcp_data_len d dir \<le> length buf"
  shows "pcp_parse_data op (filled buf (pcp_data_bytes d)) = Some (Inr d)"
  using assms pcp_map_parses
  by (cases "(op, d)" rule: pcp_data_ok.cases) (auto simp: pcp_map_len_def simp del: pcp_data_bytes.simps)

lemma pcp_try_from_request:
  assumes "24 \<le> length buf" "byte_at buf 0 = Some 2" "byte_at buf 1 = Some b1" "direction_from b1 = Request"
    and "u32_at buf 4 = Some l" "ipv6_addr_at buf 8 = Some ip"
    and "pcp_parse_data (pcp_opcode_from b1) (drop 24 buf) = Some r"
  shows "pcp_try_from buf = Some (map_sum id (\<lambda>d. \<lparr>pcp_direction = Request, pcp_opcode = pcp_opcode_from b1,
     pcp_result_code_opt = None, pcp_lifetime = l, pcp_client_ip_opt = Some ip, pcp_epoch_time_opt = None,
     pcp_opcode_data = d, pcp_options = []\<rparr>) r)"
  using assms by (simp add: pcp_try_from_def pcp_packet_default_def Let_def)

lemma pcp_try_from_response:
  assumes "24 \<le> length buf" "byte_at buf 0 = Some 2" "byte_at buf 1 = Some b1" "direction_from b1 = Response"
    and "u32_at buf 4 = Some l" "byte_at buf 3 = Some b3" "u32_at buf 8 = Some e"
    and "pcp_parse_data (pcp_opcode_from b1) (drop 24 buf) = Some r"
  shows "pcp_try_from buf = Some (map_sum id (\<lambda>d. \<lparr>pcp_direction = Response, pcp_opcode = pcp_opcode_from b1,
     pcp_result_code_opt = Some (pcp_result_from b3), pcp_lifetime = l, pcp_client_ip_opt = None,
     pcp_epoch_time_opt = Some e, pcp_opcode_data = d, pcp_options = []\<rparr>) r)"
  using assms by (simp add: pcp_try_from_def pcp_packet_default_def Let_def)

lemma pcp_fields_Request:
  assumes "pcp_fields_ok Request rc ip_opt e_opt"
  obtains ip where "rc = None" "ip_opt = Some ip" "e_opt = None" "ip_read_back ip = ip"
  using assms by (cases "(Request, rc, ip_opt, e_opt)" rule: pcp_fields_ok.cases) auto

lemma pcp_fields_Response:
  assumes "pcp_fields_ok Response rc ip_opt e_opt"
  obtains c e where "rc = Some c" "ip_opt = None" "e_opt = Some e" "pcp_result_from (pcp_result_to_code c) = c"
  using assms by (cases "(Response, rc, ip_opt, e_opt)" rule: pcp_fields_ok.cases) auto

lemma pcp_header_parses:
  assumes ok: "pcp_packet_ok p" and buf: "buf = filled buf0 (pcp_header_bytes p @ rest)" "24 \<le> length buf"
    and data: "pcp_parse_data (pcp_opcode p) (drop 24 buf) = Some (Inr (pcp_opcode_data p))"
  shows "pcp_try_from buf = Some (Inr p)"
proof -
  define b1 where "b1 = direction_code (pcp_direction p) OR pcp_opcode_code (pcp_opcode p)"
  have b: "byte_at buf 0 = Some 2" "byte_at buf 1 = Some b1"
    unfolding buf(1) b1_def by (subst byte_at_filled; simp add: pcp_header_bytes_def)+
  have l: "u32_at buf 4 = Some (pcp_lifetime p)"
    unfolding buf(1) by (rule u32.at_filled) (simp_all add: pcp_header_bytes_def)
  have op: "pcp_opcode_from b1 = pcp_opcode p" "direction_from b1 = pcp_direction p"
    using ok opcode_byte_direction [OF pcp_opcode_code_low]
    by (auto simp: pcp_packet_ok_def pcp_opcode_from_byte b1_def)
  have fields: "pcp_fields_ok (pcp_direction p) (pcp_result_code_opt p) (pcp_client_ip_opt p) (pcp_epoch_time_opt p)"
    "pcp_options p = []" using ok by (simp_all add: pcp_packet_ok_def)
  show ?thesis
  proof (cases "pcp_direction p")
    case Request
    obtain ip where ip: "pcp_result_code_opt p = None" "pcp_client_ip_opt p = Some ip" "pcp_epoch_time_opt p = None"
      "ip_read_back ip = ip" by (rule pcp_fields_Request [OF fields(1) [unfolded Request]])
    have "ipv6_addr_at buf 8 = Some (ip_read_back ip)"
      unfolding buf(1) by (rule ip6.at_filled) (simp_all add: pcp_header_bytes_def Request ip ip6.enc_length)
    from pcp_try_from_request [OF buf(2) b op(2) [unfolded Request] l this data [folded op(1)]]
    show ?thesis using Request ip op fields(2) by (cases p) simp
  next
    case Response
    obtain c e where c: "pcp_result_code_opt p = Some c" "pcp_client_ip_opt p = None" "pcp_epoch_time_opt p = Some e"
      "pcp_result_from (pcp_result_to_code c) = c" by (rule pcp_fields_Response [OF fields(1) [unfolded Response]])
    have e: "u32_at buf 8 = Some e"
      unfolding buf(1) by (rule u32.at_filled) (simp_all add: pcp_header_bytes_def Response c)
    have "byte_at buf 3 = Some (pcp_result_to_code c)"
      unfolding buf(1) by (subst byte_at_filled) (simp_all add: pcp_header_bytes_def Response c)
    from pcp_try_from_response [OF buf(2) b op(2) [unfolded Response] l this e data [folded op(1)]]
    show ?thesis using Response c op fields(2) by (cases p) simp
  qed
qed

text \<open>
  C38: PCP packets round trip.  A packet in canonical form marshals into every buffer
  that is long enough, into exactly the bytes of its wire format with the rest of the
  buffer untouched, and parsing the buffer gives the packet back.
\<close>

theorem pcp_round_trip:
  assumes "pcp_packet_ok p" and "n = 24 + pcp_data_len (pcp_opcode_data p) (pcp_direction p)"
    and "n \<le> length buf"
  shows "\<exists>buf'. pcp_marshal p buf = Some (Inr n, buf') \<and>
     buf' = pcp_header_bytes p @ pcp_data_bytes (pcp_opcode_data p) @ drop n buf \<and>
     pcp_try_from buf' = Some (Inr p)"
proof -
  have ok: "pcp_data_ok (pcp_opcode p) (pcp_opcode_data p)" using assms(1) by (simp add: pcp_packet_ok_def)
  note len = length_pcp_data_bytes [OF ok, of "pcp_direction p"]
  define buf' where "buf' = filled buf (pcp_header_bytes p @ pcp_data_bytes (pcp_opcode_data p))"
  have m: "pcp_marshal p buf = Some (Inr n, buf')" using assms ok by (simp add: pcp_marshal_bytes buf'_def)
  have "24 \<le> length buf'" using assms len by (simp add: buf'_def length_filled)
  moreover have "pcp_parse_data (pcp_opcode p) (drop 24 buf') = Some (Inr (pcp_opcode_data p))"
    unfolding buf'_def using assms(2,3) by (simp add: drop_filled_append pcp_data_parses [OF ok, of "pcp_direction p"])
  ultimately have "pcp_try_from buf' = Some (Inr p)" by (rule pcp_header_parses [OF assms(1) buf'_def])
  with m assms(2) len show ?thesis by (auto simp: buf'_def filled_def)
qed

theorem pcp_round_trip_witness:
  "\<exists>buf'. pcp_marshal (pcp_packet_default\<lparr>pcp_opcode := PcpMap, pcp_lifetime := 7200, pcp_client_ip_opt := Some (V4 0x01020304),
       pcp_opcode_data := PcpMapData (pcp_map_default\<lparr>protocol := Tcp, internal_port := 4096\<rparr>)\<rparr>) (replicate 100 0xFF)
     = Some (Inr 60, buf') \<and>
     pcp_try_from buf' = Some (Inr (pcp_packet_default\<lparr>pcp_opcode := PcpMap, pcp_lifetime := 7200, pcp_client_ip_opt := Some (V4 0x01020304),
       pcp_opcode_data := PcpMapData (pcp_map_default\<lparr>protocol := Tcp, internal_port := 4096\<rparr>)\<rparr>))"
  (is "\<exists>buf'. pcp_marshal ?p ?buf = _ \<and> _")
proof -
  have "pcp_packet_ok ?p"
    by (simp add: pcp_packet_ok_def pcp_packet_default_def pcp_map_default_def pcp_opcode_from_def protocol_from_def)
  then show ?thesis using pcp_round_trip [of ?p 60 ?buf]
    by (elim meta_impE exE conjE) (auto simp: pcp_map_len_def)
qed

section \<open>What the parser accepts\<close>

lemma pcp_opcode_from_canonical: "pcp_opcode_from (pcp_opcode_code (pcp_opcode_from b)) = pcp_opcode_from b"
  by (simp add: pcp_opcode_from_def Let_def and.assoc)

lemma pcp_result_from_canonical: "pcp_result_from (pcp_result_to_code (pcp_result_from c)) = pcp_result_from c"
  by (simp add: pcp_result_from_def)

lemma protocol_from_canonical: "protocol_from (protocol_code (protocol_from c)) = protocol_from c"
  by (simp add: protocol_from_def)

lemma pcp_map_total:
  "\<exists>r. pcp_map_try_from buf = Some r \<and> (\<forall>d. r = Inr d \<longrightarrow> pcp_data_ok PcpMap (PcpMapData d))"
proof (cases "36 \<le> length buf")
  case True
  then have "20 + 16 \<le> length buf" by simp
  from ipv6_addr_at_total [OF this] obtain ip where "ipv6_addr_at buf 20 = Some ip" "ip_read_back ip = ip" by blast
  with True show ?thesis
    by (simp add: pcp_map_try_from_def pcp_map_len_def get_bytes_def byte_at_def u16_at_def protocol_from_canonical)
qed (simp add: pcp_map_try_from_def pcp_map_len_def)

lemma pcp_parse_data_total:
  "\<exists>r. pcp_parse_data op buf = Some r \<and> (\<forall>d. r = Inr d \<longrightarrow> pcp_data_ok op d)"
  using pcp_map_total [of buf] by (cases op) (auto simp: map_sum_Inr)

text \<open>
  C40: the PCP parser is total and type-correct.  It panics on no byte sequence, and
  every packet it returns is in canonical form: the opcode, the result code and the
  protocol are the ones their bytes decode to, the addresses are not IPv4 addresses in
  IPv6 clothing, map data comes exactly with the opcode Map, a request has a client
  address and a response a result code and an epoch.
\<close>

theorem pcp_try_from_type:
  "\<exists>r. pcp_try_from buf = Some r \<and> (\<forall>p. r = Inr p \<longrightarrow> pcp_packet_ok p)"
proof (cases "length buf < 24 \<or> buf ! 0 \<noteq> 2")
  case True
  then show ?thesis by (auto simp: pcp_try_from_def byte_at_def)
next
  case False
  then have b: "24 \<le> length buf" "byte_at buf 0 = Some 2" "byte_at buf 1 = Some (buf ! 1)" "byte_at buf 3 = Some (buf ! 3)"
    by (auto simp: byte_at_def)
  obtain l e where w: "u32_at buf 4 = Some l" "u32_at buf 8 = Some e" using b(1) by (simp add: u32_at_def)
  have "8 + 16 \<le> length buf" using b(1) by simp
  from ipv6_addr_at_total [OF this] obtain ip where ip: "ipv6_addr_at buf 8 = Some ip" "ip_read_back ip = ip" by blast
  obtain r where r: "pcp_parse_data (pcp_opcode_from (buf ! 1)) (drop 24 buf) = Some r"
    "\<And>d. r = Inr d \<Longrightarrow> pcp_data_ok (pcp_opcode_from (buf ! 1)) d"
    using pcp_parse_data_total by blast
  show ?thesis
  proof (cases "direction_from (buf ! 1)")
    case Request
    from pcp_try_from_request [OF b(1-3) this w(1) ip(1) r(1)] show ?thesis
      using r(2) ip(2) by (auto simp: map_sum_Inr pcp_packet_ok_def pcp_opcode_from_canonical)
  next
    case Response
    from pcp_try_from_response [OF b(1-3) this w(1) b(4) w(2) r(1)] show ?thesis
      using r(2) by (auto simp: map_sum_Inr pcp_packet_ok_def pcp_opcode_from_canonical pcp_result_from_canonical)
  qed
qed

theorem pcp_try_from_type_witness:
  "\<exists>p. pcp_try_from ([2, 0x80, 0, 5] @ replicate 20 0) = Some (Inr p) \<and> pcp_packet_ok p"
proof -
  have "\<exists>p. pcp_try_from ([2, 0x80, 0, 5] @ replicate 20 0) = Some (Inr p)"
    by (simp add: pcp_try_from_def byte_at_def direction_from_def pcp_opcode_from_def u32_at_def
        pcp_packet_default_def nth_append)
  then show ?thesis using pcp_try_from_type [of "[2, 0x80, 0, 5] @ replicate 20 0"] by auto
qed

text \<open>A buffer that is too short for the packet is refused before anything is written.\<close>

lemma pcp_marshal_short:
  "length buf < 24 + pcp_data_len (pcp_opcode_data p) (pcp_direction p) \<Longrightarrow>
   pcp_marshal p buf =
     Some (Inl (MarshalShortBuffer (24 + pcp_data_len (pcp_opcode_data p) (pcp_direction p)) (length buf)), buf)"
  by (simp add: pcp_marshal_def)

end
