(* ===== verification/Pmp_Packet.thy ===== *)
theory Pmp_Packet
  imports Protocol_Utils
begin

text \<open>
  Model of the NAT-PMP packets: \<open>automap/src/protocols/pmp/\<close> with \<open>get_packet.rs\<close>,
  \<open>map_packet.rs\<close> and \<open>pmp_packet.rs\<close>.  Marshalling returns its result together
  with the buffer it wrote into; \<^term>\<open>None\<close> is a panic.
\<close>

section \<open>Opcodes and result codes\<close>

datatype pmp_opcode = PmpGet | PmpMapUdp | PmpMapTcp | PmpOther u8

definition pmp_opcode_from :: "u8 \<Rightarrow> pmp_opcode" where
  "pmp_opcode_from input =
     (let x = input AND 0x7F in
      if x = 0 then PmpGet else if x = 1 then PmpMapUdp else if x = 2 then PmpMapTcp else PmpOther x)"

fun pmp_opcode_code :: "pmp_opcode \<Rightarrow> u8" where
  "pmp_opcode_code PmpGet = 0"
| "pmp_opcode_code PmpMapUdp = 1"
| "pmp_opcode_code PmpMapTcp = 2"
| "pmp_opcode_code (PmpOther code) = code AND 0x7F"

datatype pmp_result_code =
    PmpSuccess
  | PmpUnsupportedVersion
  | PmpNotAuthorized
  | PmpNetworkFailure
  | PmpOutOfResources
  | PmpUnsupportedOpcode
  | PmpOtherResult u16

definition pmp_result_from :: "u16 \<Rightarrow> pmp_result_code" where
  "pmp_result_from input =
     (if input = 0 then PmpSuccess
      else if input = 1 then PmpUnsupportedVersion
      else if input = 2 then PmpNotAuthorized
      else if input = 3 then PmpNetworkFailure
      else if input = 4 then PmpOutOfResources
      else if input = 5 then PmpUnsupportedOpcode
      else PmpOtherResult input)"

fun pmp_result_to_code :: "pmp_result_code \<Rightarrow> u16" where
  "pmp_result_to_code PmpSuccess = 0"
| "pmp_result_to_code PmpUnsupportedVersion = 1"
| "pmp_result_to_code PmpNotAuthorized = 2"
| "pmp_result_to_code PmpNetworkFailure = 3"
| "pmp_result_to_code PmpOutOfResources = 4"
| "pmp_result_to_code PmpUnsupportedOpcode = 5"
| "pmp_result_to_code (PmpOtherResult code) = code"

fun pmp_is_permanent :: "pmp_result_code \<Rightarrow> bool" where
  "pmp_is_permanent PmpSuccess = False"
| "pmp_is_permanent PmpUnsupportedVersion = True"
| "pmp_is_permanent PmpNotAuthorized = True"
| "pmp_is_permanent PmpNetworkFailure = False"
| "pmp_is_permanent PmpOutOfResources = False"
| "pmp_is_permanent PmpUnsupportedOpcode = True"
| "pmp_is_permanent (PmpOtherResult code) = True"

section \<open>Opcode data\<close>

record pmp_get_data =
  get_epoch_opt :: "u32 option"
  get_external_ip_opt :: "u32 option"

fun pmp_get_len :: "direction \<Rightarrow> nat" where
  "pmp_get_len Request = 0"
| "pmp_get_len Response = 8"

fun pmp_get_marshal :: "pmp_get_data \<Rightarrow> direction \<Rightarrow> u8 list \<Rightarrow> ((marshal_error + unit) \<times> u8 list) option" where
  "pmp_get_marshal d Request buf = Some (Inr (), buf)"
| "pmp_get_marshal d Response buf =
     (if length buf < 8 then Some (Inl (MarshalShortBuffer 8 (length buf)), buf)
      else do {
        buf \<leftarrow> u32_into buf 0 (case get_epoch_opt d of Some e \<Rightarrow> e | None \<Rightarrow> 0);
        buf \<leftarrow> ipv4_addr_into buf 4 (case get_external_ip_opt d of Some a \<Rightarrow> a | None \<Rightarrow> 0);
        Some (Inr (), buf) })"

fun pmp_get_try_from :: "direction \<Rightarrow> u8 list \<Rightarrow> (parse_error + pmp_get_data) option" where
  "pmp_get_try_from Request buffer = Some (Inr \<lparr>get_epoch_opt = None, get_external_ip_opt = None\<rparr>)"
| "pmp_get_try_from Response buffer =
     (if length buffer < 8 then Some (Inl (ParseShortBuffer 8 (length buffer)))
      else do {
        epoch \<leftarrow> u32_at buffer 0;
        b4 \<leftarrow> byte_at buffer 4;
        b5 \<leftarrow> byte_at buffer 5;
        b6 \<leftarrow> byte_at buffer 6;
        b7 \<leftarrow> byte_at buffer 7;
        Some (Inr \<lparr>get_epoch_opt = Some epoch, get_external_ip_opt = Some (parts_word [b4, b5, b6, b7])\<rparr>) })"

record pmp_map_data =
  pmp_epoch_opt :: "u32 option"
  pmp_internal_port :: u16
  pmp_external_port :: u16
  pmp_lifetime :: u32

definition pmp_map_default :: pmp_map_data where
  "pmp_map_default = \<lparr>pmp_epoch_opt = None, pmp_internal_port = 0, pmp_external_port = 0, pmp_lifetime = 0\<rparr>"

fun pmp_map_len :: "direction \<Rightarrow> nat" where
  "pmp_map_len Request = 10"
| "pmp_map_len Response = 12"

definition pmp_map_marshal :: "pmp_map_data \<Rightarrow> direction \<Rightarrow> u8 list \<Rightarrow> ((marshal_error + unit) \<times> u8 list) option" where
  "pmp_map_marshal d dir buf =
     (if length buf < pmp_map_len dir
      then Some (Inl (MarshalShortBuffer (pmp_map_len dir) (length buf)), buf)
      else do {
        (buf, position) \<leftarrow> (case dir of
            Request \<Rightarrow> do { buf \<leftarrow> u16_into buf 0 0x0000; Some (buf, 2) }
          | Response \<Rightarrow> do {
              buf \<leftarrow> u32_into buf 0 (case pmp_epoch_opt d of Some e \<Rightarrow> e | None \<Rightarrow> 0);
              Some (buf, 4) });
        buf \<leftarrow> u16_into buf position (pmp_internal_port d);
        buf \<leftarrow> u16_into buf (position + 2) (pmp_external_port d);
        buf \<leftarrow> u32_into buf (position + 4) (pmp_lifetime d);
        Some (Inr (), buf) })"

definition pmp_map_try_from :: "direction \<Rightarrow> u8 list \<Rightarrow> (parse_error + pmp_map_data) option" where
  "pmp_map_try_from dir buffer =
     (if length buffer < pmp_map_len dir
      then Some (Inl (ParseShortBuffer (pmp_map_len dir) (length buffer)))
      else do {
        (result, position) \<leftarrow> (case dir of
            Request \<Rightarrow> Some (pmp_map_default, 2)
          | Response \<Rightarrow> do {
              epoch \<leftarrow> u32_at buffer 0;
              Some (pmp_map_default\<lparr>pmp_epoch_opt := Some epoch\<rparr>, 4) });
        internal \<leftarrow> u16_at buffer position;
        external \<leftarrow> u16_at buffer (position + 2);
        lifetime \<leftarrow> u32_at buffer (position + 4);
        Some (Inr (result\<lparr>pmp_internal_port := internal, pmp_external_port := external,
                          pmp_lifetime := lifetime\<rparr>)) })"

datatype pmp_opcode_data =
    PmpGetData pmp_get_data
  | PmpMapData pmp_map_data
  | PmpUnrecognizedData

fun pmp_data_len :: "pmp_opcode_data \<Rightarrow> direction \<Rightarrow> nat" where
  "pmp_data_len (PmpGetData d) dir = pmp_get_len dir"
| "pmp_data_len (PmpMapData d) dir = pmp_map_len dir"
| "pmp_data_len PmpUnrecognizedData dir = 0"

fun pmp_data_marshal :: "pmp_opcode_data \<Rightarrow> direction \<Rightarrow> u8 list \<Rightarrow> ((marshal_error + unit) \<times> u8 list) option" where
  "pmp_data_marshal (PmpGetData d) dir buf = pmp_get_marshal d dir buf"
| "pmp_data_marshal (PmpMapData d) dir buf = pmp_map_marshal d dir buf"
| "pmp_data_marshal PmpUnrecognizedData dir buf = Some (Inr (), buf)"

fun pmp_parse_data :: "pmp_opcode \<Rightarrow> direction \<Rightarrow> u8 list \<Rightarrow> (parse_error + pmp_opcode_data) option" where
  "pmp_parse_data PmpGet dir buf = map_option (map_sum id PmpGetData) (pmp_get_try_from dir buf)"
| "pmp_parse_data PmpMapUdp dir buf = map_option (map_sum id PmpMapData) (pmp_map_try_from dir buf)"
| "pmp_parse_data PmpMapTcp dir buf = map_option (map_sum id PmpMapData) (pmp_map_try_from dir buf)"
| "pmp_parse_data (PmpOther code) dir buf = Some (Inr PmpUnrecognizedData)"

section \<open>Packets\<close>

record pmp_packet =
  pmp_direction :: direction
  pmp_opcode :: pmp_opcode
  pmp_result_code_opt :: "pmp_result_code option"
  pmp_opcode_data :: pmp_opcode_data

definition pmp_packet_default :: pmp_packet where
  "pmp_packet_default = \<lparr>pmp_direction = Request, pmp_opcode = PmpOther 127,
     pmp_result_code_opt = None, pmp_opcode_data = PmpUnrecognizedData\<rparr>"

definition pmp_try_from :: "u8 list \<Rightarrow> (parse_error + pmp_packet) option" where
  "pmp_try_from buffer =
     (let result = \<lparr>pmp_direction = Request, pmp_opcode = PmpOther 0, pmp_result_code_opt = None,
                    pmp_opcode_data = PmpUnrecognizedData\<rparr> in
      if length buffer < 2 then Some (Inl (ParseShortBuffer 2 (length buffer)))
      else do {
        version \<leftarrow> byte_at buffer 0;
        if version \<noteq> 0x00 then Some (Inl (WrongVersion version))
        else do {
          b1 \<leftarrow> byte_at buffer 1;
          let result = result\<lparr>pmp_direction := direction_from b1, pmp_opcode := pmp_opcode_from b1\<rparr>;
          header \<leftarrow> (case pmp_direction result of
              Request \<Rightarrow> Some (Inr (result\<lparr>pmp_result_code_opt := None\<rparr>, 2))
            | Response \<Rightarrow>
                (if length buffer < 4 then Some (Inl (ParseShortBuffer 4 (length buffer)))
                 else do {
                   code \<leftarrow> u16_at buffer 2;
                   Some (Inr (result\<lparr>pmp_result_code_opt := Some (pmp_result_from code)\<rparr>, 4)) }));
          (case header of
              Inl e \<Rightarrow> Some (Inl e)
            | Inr (result, position) \<Rightarrow> do {
                parsed \<leftarrow> pmp_parse_data (pmp_opcode result) (pmp_direction result) (drop position buffer);
                Some (map_sum id (\<lambda>d. result\<lparr>pmp_opcode_data := d\<rparr>) parsed) }) } })"

fun pmp_header_len :: "direction \<Rightarrow> nat" where
  "pmp_header_len Request = 2"
| "pmp_header_len Response = 4"

definition pmp_marshal :: "pmp_packet \<Rightarrow> u8 list \<Rightarrow> ((marshal_error + nat) \<times> u8 list) option" where
  "pmp_marshal p buffer =
     (let header_len = pmp_header_len (pmp_direction p);
          required_len = header_len + pmp_data_len (pmp_opcode_data p) (pmp_direction p) in
      if length buffer < required_len
      then Some (Inl (MarshalShortBuffer required_len (length buffer)), buffer)
      else do {
        buffer \<leftarrow> put_bytes buffer 0 [0x00];
        buffer \<leftarrow> put_bytes buffer 1 [direction_code (pmp_direction p) OR pmp_opcode_code (pmp_opcode p)];
        let result_code = (case pmp_result_code_opt p of Some c \<Rightarrow> c | None \<Rightarrow> PmpSuccess);
        (buffer, position) \<leftarrow> (case pmp_direction p of
            Response \<Rightarrow> do { buffer \<leftarrow> u16_into buffer 2 (pmp_result_to_code result_code); Some (buffer, 4) }
          | Request \<Rightarrow> Some (buffer, 2));
        (r, slice) \<leftarrow> pmp_data_marshal (pmp_opcode_data p) (pmp_direction p) (drop position buffer);
        let buffer = take position buffer @ slice;
        Some (case r of Inl e \<Rightarrow> (Inl e, buffer) | Inr _ \<Rightarrow> (Inr required_len, buffer)) })"

section \<open>The wire format\<close>

text \<open>The bytes of a packet, as RFC 6886 lays them out.\<close>

fun pmp_data_bytes :: "pmp_opcode_data \<Rightarrow> direction \<Rightarrow> u8 list" where
  "pmp_data_bytes (PmpGetData d) Request = []"
| "pmp_data_bytes (PmpGetData d) Response =
     word_parts 4 (case get_epoch_opt d of Some e \<Rightarrow> e | None \<Rightarrow> 0) @
     octets4 (case get_external_ip_opt d of Some a \<Rightarrow> a | None \<Rightarrow> 0)"
| "pmp_data_bytes (PmpMapData d) dir =
     (case dir of Request \<Rightarrow> word_parts 2 (0 :: u16)
      | Response \<Rightarrow> word_parts 4 (case pmp_epoch_opt d of Some e \<Rightarrow> e | None \<Rightarrow> 0)) @
     word_parts 2 (pmp_internal_port d) @ word_parts 2 (pmp_external_port d) @ word_parts 4 (pmp_lifetime d)"
| "pmp_data_bytes PmpUnrecognizedData dir = []"

definition pmp_header_bytes :: "pmp_packet \<Rightarrow> u8 list" where
  "pmp_header_bytes p =
     [0, direction_code (pmp_direction p) OR pmp_opcode_code (pmp_opcode p)] @
     (case pmp_direction p of Request \<Rightarrow> []
      | Response \<Rightarrow> word_parts 2 (pmp_result_to_code
          (case pmp_result_code_opt p of Some c \<Rightarrow> c | None \<Rightarrow> PmpSuccess)))"

text \<open>
  The packets the parser produces: the codes are in their canonical form, the data is
  that of the opcode, and the fields a direction has are present.
\<close>

fun pmp_data_ok :: "pmp_opcode \<Rightarrow> direction \<Rightarrow> pmp_opcode_data \<Rightarrow> bool" where
  "pmp_data_ok PmpGet Request (PmpGetData d) = (get_epoch_opt d = None \<and> get_external_ip_opt d = None)"
| "pmp_data_ok PmpGet Response (PmpGetData d) = (get_epoch_opt d \<noteq> None \<and> get_external_ip_opt d \<noteq> None)"
| "pmp_data_ok PmpMapUdp dir (PmpMapData d) = (pmp_epoch_opt d = None \<longleftrightarrow> dir = Request)"
| "pmp_data_ok PmpMapTcp dir (PmpMapData d) = (pmp_epoch_opt d = None \<longleftrightarrow> dir = Request)"
| "pmp_data_ok (PmpOther code) dir PmpUnrecognizedData = True"
| "pmp_data_ok _ _ _ = False"

definition pmp_packet_ok :: "pmp_packet \<Rightarrow> bool" where
  "pmp_packet_ok p \<longleftrightarrow>
     pmp_opcode_from (pmp_opcode_code (pmp_opcode p)) = pmp_opcode p \<and>
     (case pmp_result_code_opt p of
        None \<Rightarrow> pmp_direction p = Request
      | Some c \<Rightarrow> pmp_direction p = Response \<and> pmp_result_from (pmp_result_to_code c) = c) \<and>
     pmp_data_ok (pmp_opcode p) (pmp_direction p) (pmp_opcode_data p)"

section \<open>Marshalling\<close>

lemmas pmp_put = u16.into_put u32.into_put ip4.into_put put_filled

lemma length_octets4 [simp]: "length (octets4 a) = 4"
  by (simp add: octets4_def)

lemma length_pmp_data_bytes [simp]: "length (pmp_data_bytes d dir) = pmp_data_len d dir"
  by (induction d dir rule: pmp_data_bytes.induct) (auto split: direction.split)

lemma length_pmp_header_bytes [simp]: "length (pmp_header_bytes p) = pmp_header_len (pmp_direction p)"
  by (simp add: pmp_header_bytes_def split: direction.split)

lemma pmp_data_marshal_bytes:
  assumes "pmp_data_len d dir \<le> length buf"
  shows "pmp_data_marshal d dir buf = Some (Inr (), filled buf (pmp_data_bytes d dir))"
  using assms
  by (cases d; cases dir) (simp_all add: pmp_map_marshal_def pmp_put filled_def [of _ "[]"])

lemma pmp_marshal_bytes:
  assumes "pmp_header_len (pmp_direction p) + pmp_data_len (pmp_opcode_data p) (pmp_direction p) \<le> length buf"
  shows "pmp_marshal p buf =
     Some (Inr (pmp_header_len (pmp_direction p) + pmp_data_len (pmp_opcode_data p) (pmp_direction p)),
           filled buf (pmp_header_bytes p @ pmp_data_bytes (pmp_opcode_data p) (pmp_direction p)))"
  using assms
  by (cases "pmp_direction p")
    (simp_all add: pmp_marshal_def pmp_put pmp_data_marshal_bytes slice_filled pmp_header_bytes_def Let_def,
     simp_all add: filled_def eval_nat_numeral)

section \<open>Parsing\<close>

lemma pmp_opcode_code_low: "pmp_opcode_code op AND 0x7F = pmp_opcode_code op"
  by (cases op) (simp_all add: and.assoc)

lemma pmp_opcode_from_byte:
  "pmp_opcode_from (direction_code d OR pmp_opcode_code op) = pmp_opcode_from (pmp_opcode_code op)"
  by (simp add: pmp_opcode_from_def opcode_byte pmp_opcode_code_low)

lemma get_bytes_octets4_at:
  assumes "get_bytes buf 4 4 = Some (octets4 a)"
  shows "byte_at buf 4 = Some (octets4 a ! 0)" "byte_at buf 5 = Some (octets4 a ! 1)"
    "byte_at buf 6 = Some (octets4 a ! 2)" "byte_at buf 7 = Some (octets4 a ! 3)"
  using get_bytes_nth(1) [OF assms] get_bytes_nth(3) [OF assms, of 0] get_bytes_nth(3) [OF assms, of 1]
    get_bytes_nth(3) [OF assms, of 2] get_bytes_nth(3) [OF assms, of 3] by (simp_all add: byte_at_def)

lemma octets4_explode: "[octets4 a ! 0, octets4 a ! Suc 0, octets4 a ! 2, octets4 a ! 3] = octets4 a"
proof -
  obtain p q r s where "octets4 a = [p, q, r, s]" by (rule list4E [of "octets4 a"]) simp
  then show ?thesis by simp
qed

lemma parts_word_octets4: "parts_word (octets4 a) = a"
  using parts_word_parts [where 'a = 32 and 'b = 8, of 4 a] by (simp add: octets4_def)

lemma pmp_get_parses:
  assumes "pmp_data_ok PmpGet dir (PmpGetData d)" "pmp_get_len dir \<le> length buf"
  shows "pmp_get_try_from dir (filled buf (pmp_data_bytes (PmpGetData d) dir)) = Some (Inr d)"
proof (cases dir)
  case Request
  with assms(1) show ?thesis by simp
next
  case Response
  then obtain e a where d: "d = \<lparr>get_epoch_opt = Some e, get_external_ip_opt = Some a\<rparr>"
    using assms(1) by (cases d) auto
  define b where "b = filled buf (word_parts 4 e @ octets4 a)"
  have "get_bytes b 4 4 = Some (octets4 a)" by (simp add: b_def get_bytes_filled)
  note bytes = get_bytes_octets4_at [OF this]
  have "u32_at b 0 = Some e" unfolding b_def by (rule u32.at_filled) simp_all
  moreover have "length b = length buf" using assms(2) Response by (simp add: b_def length_filled)
  ultimately have "pmp_get_try_from Response b = Some (Inr d)"
    using assms(2) Response bytes
    by (simp add: d octets4_explode parts_word_octets4 del: nth_Cons_0)
  with Response show ?thesis by (simp add: b_def d)
qed

lemma pmp_map_parses:
  assumes "pmp_epoch_opt d = None \<longleftrightarrow> dir = Request" "pmp_map_len dir \<le> length buf"
  shows "pmp_map_try_from dir (filled buf (pmp_data_bytes (PmpMapData d) dir)) = Some (Inr d)"
proof (cases dir)
  case Request
  define b where "b = filled buf (pmp_data_bytes (PmpMapData d) Request)"
  have "u16_at b 2 = Some (pmp_internal_port d)" "u16_at b 4 = Some (pmp_external_port d)"
    unfolding b_def by (rule u16.at_filled; simp)+
  moreover have "u32_at b 6 = Some (pmp_lifetime d)" unfolding b_def by (rule u32.at_filled) simp_all
  moreover have "length b = length buf" using assms(2) Request by (simp add: b_def length_filled)
  ultimately have "pmp_map_try_from Request b = Some (Inr d)"
    using assms Request by (cases d) (simp add: pmp_map_try_from_def pmp_map_default_def)
  with Request show ?thesis by (simp add: b_def)
next
  case Response
  with assms(1) obtain e where e: "pmp_epoch_opt d = Some e" by auto
  define b where "b = filled buf (pmp_data_bytes (PmpMapData d) Response)"
  have "u16_at b 4 = Some (pmp_internal_port d)" "u16_at b 6 = Some (pmp_external_port d)"
    unfolding b_def by (rule u16.at_filled; simp)+
  moreover have "u32_at b 0 = Some e" "u32_at b 8 = Some (pmp_lifetime d)"
    unfolding b_def by (rule u32.at_filled; simp add: e)+
  moreover have "length b = length buf" using assms(2) Response by (simp add: b_def length_filled)
  ultimately have "pmp_map_try_from Response b = Some (Inr d)"
    using assms e Response by (cases d) (simp add: pmp_map_try_from_def pmp_map_default_def)
  with Response show ?thesis by (simp add: b_def)
qed

lemma pmp_data_parses:
  assumes "pmp_data_ok op dir d" "pmp_data_len d dir \<le> length buf"
  shows "pmp_parse_data op dir (filled buf (pmp_data_bytes d dir)) = Some (Inr d)"
  using assms pmp_get_parses pmp_map_parses
  by (cases "(op, dir, d)" rule: pmp_data_ok.cases) (auto simp del: pmp_data_bytes.simps pmp_get_try_from.simps)

text \<open>
  C39: NAT-PMP packets round trip.  A packet in canonical form marshals into every
  buffer that is long enough, into exactly the bytes of its wire format with the rest of
  the buffer untouched, and parsing the buffer gives the packet back.
\<close>

theorem pmp_round_trip:
  assumes "pmp_packet_ok p" and "n = pmp_header_len (pmp_direction p) + pmp_data_len (pmp_opcode_data p) (pmp_direction p)"
    and "n \<le> length buf"
  shows "\<exists>buf'. pmp_marshal p buf = Some (Inr n, buf') \<and>
     buf' = pmp_header_bytes p @ pmp_data_bytes (pmp_opcode_data p) (pmp_direction p) @ drop n buf \<and>
     pmp_try_from buf' = Some (Inr p)"
proof -
  define buf' where "buf' = filled buf (pmp_header_bytes p @ pmp_data_bytes (pmp_opcode_data p) (pmp_direction p))"
  have m: "pmp_marshal p buf = Some (Inr n, buf')" using assms by (simp add: pmp_marshal_bytes buf'_def)
  have len: "length buf' = length buf" using assms by (simp add: buf'_def length_filled)
  have ge: "2 \<le> length buf" using assms(2,3) by (cases "pmp_direction p") auto
  have b0: "byte_at buf' 0 = Some 0"
    unfolding buf'_def by (subst byte_at_filled) (simp_all add: pmp_header_bytes_def)
  have b1: "byte_at buf' 1 = Some (direction_code (pmp_direction p) OR pmp_opcode_code (pmp_opcode p))"
    unfolding buf'_def by (subst byte_at_filled) (simp_all add: pmp_header_bytes_def)
  have op: "pmp_opcode_from (direction_code (pmp_direction p) OR pmp_opcode_code (pmp_opcode p)) = pmp_opcode p"
    "pmp_data_ok (pmp_opcode p) (pmp_direction p) (pmp_opcode_data p)"
    using assms(1) by (auto simp: pmp_packet_ok_def pmp_opcode_from_byte)
  have data: "pmp_parse_data (pmp_opcode p) (pmp_direction p) (drop (pmp_header_len (pmp_direction p)) buf') = Some (Inr (pmp_opcode_data p))"
    unfolding buf'_def using op(2) assms(2,3) by (simp add: drop_filled_append pmp_data_parses)
  have "pmp_try_from buf' = Some (Inr p)"
  proof (cases "pmp_result_code_opt p")
    case None
    then have "pmp_direction p = Request" using assms(1) by (simp add: pmp_packet_ok_def)
    then show ?thesis using None b0 b1 op(1) data len ge opcode_byte_direction [OF pmp_opcode_code_low, of Request]
      by (cases p) (simp add: pmp_try_from_def Let_def)
  next
    case (Some c)
    then have dir: "pmp_direction p = Response" and c: "pmp_result_from (pmp_result_to_code c) = c"
      using assms(1) by (simp_all add: pmp_packet_ok_def)
    have "u16_at buf' 2 = Some (pmp_result_to_code c)"
      unfolding buf'_def by (rule u16.at_filled) (simp_all add: pmp_header_bytes_def dir Some)
    then show ?thesis
      using Some dir c b0 b1 op(1) data len assms(2,3) opcode_byte_direction [OF pmp_opcode_code_low, of Response]
      by (cases p) (simp add: pmp_try_from_def Let_def)
  qed
  with m assms(2) show ?thesis by (auto simp: buf'_def filled_def)
qed

theorem pmp_round_trip_witness:
  "\<exists>buf'. pmp_marshal \<lparr>pmp_direction = Response, pmp_opcode = PmpMapTcp, pmp_result_code_opt = Some PmpOutOfResources,
       pmp_opcode_data = PmpMapData \<lparr>pmp_epoch_opt = Some 77, pmp_internal_port = 4096, pmp_external_port = 80,
         pmp_lifetime = 600\<rparr>\<rparr> (replicate 20 0xFF) = Some (Inr 16, buf') \<and>
     pmp_try_from buf' = Some (Inr \<lparr>pmp_direction = Response, pmp_opcode = PmpMapTcp, pmp_result_code_opt = Some PmpOutOfResources,
       pmp_opcode_data = PmpMapData \<lparr>pmp_epoch_opt = Some 77, pmp_internal_port = 4096, pmp_external_port = 80,
         pmp_lifetime = 600\<rparr>\<rparr>)"
  (is "\<exists>buf'. pmp_marshal ?p ?buf = _ \<and> _")
proof -
  have "pmp_packet_ok ?p" by (simp add: pmp_packet_ok_def pmp_opcode_from_def pmp_result_from_def)
  then show ?thesis using pmp_round_trip [of ?p 16 ?buf] by (elim meta_impE exE conjE) auto
qed

section \<open>What the parser accepts\<close>

lemma pmp_opcode_from_canonical: "pmp_opcode_from (pmp_opcode_code (pmp_opcode_from b)) = pmp_opcode_from b"
  by (simp add: pmp_opcode_from_def Let_def and.assoc)

lemma pmp_result_from_canonical: "pmp_result_from (pmp_result_to_code (pmp_result_from c)) = pmp_result_from c"
  by (simp add: pmp_result_from_def)

lemma pmp_get_total:
  "\<exists>r. pmp_get_try_from dir buf = Some r \<and> (\<forall>d. r = Inr d \<longrightarrow> pmp_data_ok PmpGet dir (PmpGetData d))"
  by (cases dir) (simp_all add: u32_at_def byte_at_def)

lemma pmp_map_total:
  "\<exists>r. pmp_map_try_from dir buf = Some r \<and> (\<forall>d. r = Inr d \<longrightarrow> (pmp_epoch_opt d = None \<longleftrightarrow> dir = Request))"
  by (cases dir) (simp_all add: pmp_map_try_from_def pmp_map_default_def u32_at_def u16_at_def)

lemma pmp_parse_data_total:
  "\<exists>r. pmp_parse_data op dir buf = Some r \<and> (\<forall>d. r = Inr d \<longrightarrow> pmp_data_ok op dir d)"
proof (cases op)
  case PmpGet
  then show ?thesis using pmp_get_total [of dir buf] by (auto simp: map_sum_Inr)
next
  case PmpMapUdp
  then show ?thesis using pmp_map_total [of dir buf] by (auto simp: map_sum_Inr)
next
  case PmpMapTcp
  then show ?thesis using pmp_map_total [of dir buf] by (auto simp: map_sum_Inr)
qed simp

lemma pmp_try_from_request:
  assumes "2 \<le> length buf" "buf ! 0 = 0" "direction_from (buf ! 1) = Request"
    and "pmp_parse_data (pmp_opcode_from (buf ! 1)) Request (drop 2 buf) = Some r"
  shows "pmp_try_from buf = Some (map_sum id (\<lambda>d. \<lparr>pmp_direction = Request, pmp_opcode = pmp_opcode_from (buf ! 1),
     pmp_result_code_opt = None, pmp_opcode_data = d\<rparr>) r)"
  using assms by (auto simp: pmp_try_from_def byte_at_def Let_def)

lemma pmp_try_from_response:
  assumes "4 \<le> length buf" "buf ! 0 = 0" "direction_from (buf ! 1) = Response" "u16_at buf 2 = Some c"
    and "pmp_parse_data (pmp_opcode_from (buf ! 1)) Response (drop 4 buf) = Some r"
  shows "pmp_try_from buf = Some (map_sum id (\<lambda>d. \<lparr>pmp_direction = Response, pmp_opcode = pmp_opcode_from (buf ! 1),
     pmp_result_code_opt = Some (pmp_result_from c), pmp_opcode_data = d\<rparr>) r)"
  using assms by (auto simp: pmp_try_from_def byte_at_def Let_def)

lemma pmp_try_from_short_response:
  assumes "2 \<le> length buf" "length buf < 4" "buf ! 0 = 0" "direction_from (buf ! 1) = Response"
  shows "pmp_try_from buf = Some (Inl (ParseShortBuffer 4 (length buf)))"
  using assms by (auto simp: pmp_try_from_def byte_at_def Let_def)

text \<open>
  The NAT-PMP parser is total and type-correct.  It panics on no byte sequence,
  and every packet it returns is in canonical form: its opcode and its result code are
  the ones their bytes decode to, it carries the data of its opcode, and the epoch, the
  external address and the result code are present exactly in responses.
\<close>

theorem pmp_try_from_type:
  "\<exists>r. pmp_try_from buf = Some r \<and> (\<forall>p. r = Inr p \<longrightarrow> pmp_packet_ok p)"
proof -
  consider "length buf < 2 \<or> buf ! 0 \<noteq> 0"
    | "2 \<le> length buf" "buf ! 0 = 0" "direction_from (buf ! 1) = Request"
    | "2 \<le> length buf" "length buf < 4" "buf ! 0 = 0" "direction_from (buf ! 1) = Response"
    | "4 \<le> length buf" "buf ! 0 = 0" "direction_from (buf ! 1) = Response"
    by (cases "direction_from (buf ! 1)") fastforce+
  then show ?thesis
  proof cases
    case 1
    then show ?thesis by (auto simp: pmp_try_from_def byte_at_def)
  next
    case 2
    obtain r where "pmp_parse_data (pmp_opcode_from (buf ! 1)) Request (drop 2 buf) = Some r"
      "\<And>d. r = Inr d \<Longrightarrow> pmp_data_ok (pmp_opcode_from (buf ! 1)) Request d"
      using pmp_parse_data_total by blast
    with pmp_try_from_request [OF 2] show ?thesis
      by (auto simp: map_sum_Inr pmp_packet_ok_def pmp_opcode_from_canonical)
  next
    case 3
    from pmp_try_from_short_response [OF this] show ?thesis by simp
  next
    case 4
    obtain r where "pmp_parse_data (pmp_opcode_from (buf ! 1)) Response (drop 4 buf) = Some r"
      "\<And>d. r = Inr d \<Longrightarrow> pmp_data_ok (pmp_opcode_from (buf ! 1)) Response d"
      using pmp_parse_data_total by blast
    moreover obtain c where "u16_at buf 2 = Some c" using 4 by (simp add: u16_at_def)
    ultimately show ?thesis using pmp_try_from_response [OF 4]
      by (auto simp: map_sum_Inr pmp_packet_ok_def pmp_opcode_from_canonical pmp_result_from_canonical)
  qed
qed

theorem pmp_try_from_type_witness: "\<exists>p. pmp_try_from [0, 0x85, 0, 3] = Some (Inr p) \<and> pmp_packet_ok p"
proof -
  have "pmp_try_from [0, 0x85, 0, 3] = Some (Inr \<lparr>pmp_direction = Response, pmp_opcode = PmpOther 5,
      pmp_result_code_opt = Some PmpNetworkFailure, pmp_opcode_data = PmpUnrecognizedData\<rparr>)"
    by (simp add: pmp_try_from_def byte_at_def direction_from_def pmp_opcode_from_def u16_at_def pmp_result_from_def)
  then show ?thesis using pmp_try_from_type [of "[0, 0x85, 0, 3]"] by auto
qed

text \<open>A buffer that is too short for the packet is refused before anything is written.\<close>

lemma pmp_marshal_short:
  "length buf < pmp_header_len (pmp_direction p) + pmp_data_len (pmp_opcode_data p) (pmp_direction p) \<Longrightarrow>
   pmp_marshal p buf = Some (Inl (MarshalShortBuffer
     (pmp_header_len (pmp_direction p) + pmp_data_len (pmp_opcode_data p) (pmp_direction p)) (length buf)), buf)"
  by (simp add: pmp_marshal_def)

end
