(* ===== verification/Node_Record.thy ===== *)
theory Node_Record
  imports Country_Finder "HOL-Library.Finite_Map"
begin

text \<open>
  Model of the records the neighborhood keeps of the Nodes it knows:
  \<open>node/src/neighborhood/node_record.rs\<close>, \<open>node_location.rs\<close>, and the parts of
  \<open>node/src/sub_lib/\<close> they are made of (\<open>node_addr.rs\<close>, the rate packs and modes of
  \<open>neighborhood.rs\<close>, the kinds of \<open>wallet.rs\<close>).

  A \<open>NodeAddr\<close> has its ports sorted and without repetition, so that cloning one is the
  identity.  Sets of keys are finite sets.  The clock is an argument \<open>now\<close>, the country finder an
  argument \<open>finder\<close>, and the functions of the cryptography and of the CBOR library are
  the fields of a record \<open>crypt_ops\<close>.
\<close>

section \<open>Addresses, rates, wallets\<close>

type_synonym public_key = "u8 list"

record node_addr =
  addr_ip :: ip_addr
  addr_ports :: "u16 list"

definition node_addr_new :: "ip_addr \<Rightarrow> u16 list \<Rightarrow> node_addr" where
  "node_addr_new ip ports = \<lparr>addr_ip = ip, addr_ports = remdups_adj (sort ports)\<rparr>"

type_synonym socket_addr = "ip_addr \<times> u16"

definition node_addr_from_socket :: "socket_addr \<Rightarrow> node_addr" where
  "node_addr_from_socket socket = node_addr_new (fst socket) [snd socket]"

definition node_addr_sockets :: "node_addr \<Rightarrow> socket_addr list" where
  "node_addr_sockets addr = map (\<lambda>port. (addr_ip addr, port)) (addr_ports addr)"

record rate_pack =
  routing_byte_rate :: u64
  routing_service_rate :: u64
  exit_byte_rate :: u64
  exit_service_rate :: u64

definition ZERO_RATE_PACK :: rate_pack where
  "ZERO_RATE_PACK = \<lparr>routing_byte_rate = 0, routing_service_rate = 0, exit_byte_rate = 0, exit_service_rate = 0\<rparr>"

definition checked_add :: "'a::len word \<Rightarrow> 'a word \<Rightarrow> 'a word option" where
  "checked_add x y = (if unat x + unat y < 2 ^ LENGTH('a) then Some (x + y) else None)"

definition checked_mul :: "'a::len word \<Rightarrow> 'a word \<Rightarrow> 'a word option" where
  "checked_mul x y = (if unat x * unat y < 2 ^ LENGTH('a) then Some (x * y) else None)"

definition checked_sub :: "'a::len word \<Rightarrow> 'a word \<Rightarrow> 'a word option" where
  "checked_sub x y = (if y \<le> x then Some (x - y) else None)"

definition routing_charge :: "rate_pack \<Rightarrow> u64 \<Rightarrow> u64 option" where
  "routing_charge rp payload_size = do {
     product \<leftarrow> checked_mul (routing_byte_rate rp) payload_size;
     checked_add (routing_service_rate rp) product }"

definition exit_charge :: "rate_pack \<Rightarrow> u64 \<Rightarrow> u64 option" where
  "exit_charge rp payload_size = do {
     product \<leftarrow> checked_mul (exit_byte_rate rp) payload_size;
     checked_add (exit_service_rate rp) product }"

datatype wallet =
    WalletAddress "u8 list"
  | WalletSecretKey "u8 list"
  | WalletPublicKey "u8 list"
  | WalletUninitialized

section \<open>Records\<close>

record node_record_inner =
  inner_public_key :: public_key
  inner_earning_wallet :: wallet
  inner_rate_pack :: rate_pack
  inner_neighbors :: "public_key fset"
  inner_accepts_connections :: bool
  inner_routes_data :: bool
  inner_version :: u32
  inner_country_code_opt :: "string option"

record node_location =
  country_code :: string

record node_record_metadata =
  last_update :: u32
  meta_node_addr_opt :: "node_addr option"
  unreachable_hosts :: "string fset"
  node_location_opt :: "node_location option"
  country_undesirability :: u32

definition metadata_new :: "u32 \<Rightarrow> node_record_metadata" where
  "metadata_new now = \<lparr>last_update = now, meta_node_addr_opt = None, unreachable_hosts = {||},
     node_location_opt = None, country_undesirability = 0\<rparr>"

record node_record =
  inner :: node_record_inner
  metadata :: node_record_metadata
  signed_gossip :: "u8 list"
  signature :: "u8 list"

record node_record_inputs =
  input_earning_wallet :: wallet
  input_rate_pack :: rate_pack
  input_accepts_connections :: bool
  input_routes_data :: bool
  input_version :: u32
  input_location_opt :: "node_location option"

record accessible_gossip_record =
  agr_signed_gossip :: "u8 list"
  agr_signature :: "u8 list"
  agr_node_addr_opt :: "node_addr option"
  agr_inner :: node_record_inner

record crypt_ops =
  cbor_to_vec :: "node_record_inner \<Rightarrow> u8 list"
  cbor_from_slice :: "u8 list \<Rightarrow> node_record_inner option"
  crypt_sign :: "u8 list \<Rightarrow> u8 list option"
  verify_signature :: "u8 list \<Rightarrow> u8 list \<Rightarrow> public_key \<Rightarrow> bool"
  crypt_public_key :: public_key

section \<open>Locations and signatures\<close>

definition get_node_location :: "country_code_finder \<Rightarrow> ip_addr option \<Rightarrow> node_location option option" where
  "get_node_location finder ip_opt =
     (case ip_opt of
        Some ip_addr \<Rightarrow> do {
          country_opt \<leftarrow> find_country finder ip_addr;
          Some (map_option (\<lambda>country. \<lparr>country_code = iso3166 country\<rparr>) country_opt) }
      | None \<Rightarrow> Some None)"

definition regenerate_signed_gossip :: "crypt_ops \<Rightarrow> node_record_inner \<Rightarrow> (u8 list \<times> u8 list) option" where
  "regenerate_signed_gossip crypt inr = do {
     let gossip = cbor_to_vec crypt inr;
     sig \<leftarrow> crypt_sign crypt gossip;
     Some (gossip, sig) }"

definition record_regenerate_signed_gossip :: "crypt_ops \<Rightarrow> node_record \<Rightarrow> node_record option" where
  "record_regenerate_signed_gossip crypt nr = do {
     (gossip, sig) \<leftarrow> regenerate_signed_gossip crypt (inner nr);
     Some (nr\<lparr>signed_gossip := gossip, signature := sig\<rparr>) }"

section \<open>Operations\<close>

definition node_record_new :: "crypt_ops \<Rightarrow> u32 \<Rightarrow> public_key \<Rightarrow> node_record_inputs \<Rightarrow> node_record option" where
  "node_record_new crypt now key inputs =
     (let country_opt = map_option country_code (input_location_opt inputs);
          nr = \<lparr>inner = \<lparr>inner_public_key = key, inner_earning_wallet = input_earning_wallet inputs,
                  inner_rate_pack = input_rate_pack inputs, inner_neighbors = {||},
                  inner_accepts_connections = input_accepts_connections inputs,
                  inner_routes_data = input_routes_data inputs, inner_version = input_version inputs,
                  inner_country_code_opt = country_opt\<rparr>,
                metadata = metadata_new now, signed_gossip = [], signature = []\<rparr>;
          nr = nr\<lparr>metadata := (metadata nr)\<lparr>node_location_opt := input_location_opt inputs\<rparr>\<rparr>
      in record_regenerate_signed_gossip crypt nr)"

definition public_key :: "node_record \<Rightarrow> public_key" where
  "public_key nr = inner_public_key (inner nr)"

definition node_addr_opt :: "node_record \<Rightarrow> node_addr option" where
  "node_addr_opt nr = meta_node_addr_opt (metadata nr)"

datatype database_error =
    NodeKeyNotFound public_key
  | NodeKeyCollision public_key
  | DbSelfNeighborAttempt public_key
  | NodeAddrAlreadySet node_addr
  | EmptyPortList

datatype record_error = SelfNeighborAttempt public_key

definition set_node_addr :: "node_record \<Rightarrow> node_addr \<Rightarrow> (database_error + bool) \<times> node_record" where
  "set_node_addr nr addr =
     (case meta_node_addr_opt (metadata nr) of
        Some inner_addr \<Rightarrow> if addr = inner_addr then (Inr False, nr) else (Inl (NodeAddrAlreadySet inner_addr), nr)
      | None \<Rightarrow> (Inr True, nr\<lparr>metadata := (metadata nr)\<lparr>meta_node_addr_opt := Some addr\<rparr>\<rparr>))"

definition unset_node_addr :: "node_record \<Rightarrow> node_record" where
  "unset_node_addr nr = nr\<lparr>metadata := (metadata nr)\<lparr>meta_node_addr_opt := None\<rparr>\<rparr>"

definition half_neighbor_keys :: "node_record \<Rightarrow> public_key fset" where
  "half_neighbor_keys nr = inner_neighbors (inner nr)"

definition record_has_half_neighbor :: "node_record \<Rightarrow> public_key \<Rightarrow> bool" where
  "record_has_half_neighbor nr key \<longleftrightarrow> key |\<in>| inner_neighbors (inner nr)"

definition add_half_neighbor_key :: "node_record \<Rightarrow> public_key \<Rightarrow> (record_error + unit) \<times> node_record" where
  "add_half_neighbor_key nr key =
     (if key = public_key nr then (Inl (SelfNeighborAttempt (public_key nr)), nr)
      else (Inr (), nr\<lparr>inner := (inner nr)\<lparr>inner_neighbors := finsert key (inner_neighbors (inner nr))\<rparr>\<rparr>))"

definition remove_half_neighbor_key :: "node_record \<Rightarrow> public_key \<Rightarrow> bool \<times> node_record" where
  "remove_half_neighbor_key nr key =
     (key |\<in>| inner_neighbors (inner nr),
      nr\<lparr>inner := (inner nr)\<lparr>inner_neighbors := inner_neighbors (inner nr) |-| {|key|}\<rparr>\<rparr>)"

definition clear_half_neighbors :: "node_record \<Rightarrow> node_record" where
  "clear_half_neighbors nr = nr\<lparr>inner := (inner nr)\<lparr>inner_neighbors := {||}\<rparr>\<rparr>"

definition accepts_connections :: "node_record \<Rightarrow> bool" where
  "accepts_connections nr = inner_accepts_connections (inner nr)"

definition routes_data :: "node_record \<Rightarrow> bool" where
  "routes_data nr = inner_routes_data (inner nr)"

definition version :: "node_record \<Rightarrow> u32" where
  "version nr = inner_version (inner nr)"

definition increment_version :: "node_record \<Rightarrow> node_record option" where
  "increment_version nr = do {
     v \<leftarrow> checked_add (inner_version (inner nr)) 1;
     Some (nr\<lparr>inner := (inner nr)\<lparr>inner_version := v\<rparr>\<rparr>) }"

definition last_updated :: "node_record \<Rightarrow> u32" where
  "last_updated nr = last_update (metadata nr)"

definition set_version :: "node_record \<Rightarrow> u32 \<Rightarrow> node_record" where
  "set_version nr v = nr\<lparr>inner := (inner nr)\<lparr>inner_version := v\<rparr>\<rparr>"

definition earning_wallet :: "node_record \<Rightarrow> wallet" where
  "earning_wallet nr = inner_earning_wallet (inner nr)"

definition set_earning_wallet :: "node_record \<Rightarrow> wallet \<Rightarrow> bool \<times> node_record" where
  "set_earning_wallet nr w =
     (if inner_earning_wallet (inner nr) = w then (False, nr)
      else (True, nr\<lparr>inner := (inner nr)\<lparr>inner_earning_wallet := w\<rparr>\<rparr>))"

datatype update_error =
    ChangesPublicKey public_key public_key
  | ChangesRatePack rate_pack rate_pack
  | ChangesNodeAddr node_addr node_addr

definition record_update :: "u32 \<Rightarrow> node_record \<Rightarrow> accessible_gossip_record \<Rightarrow> (update_error + unit) \<times> node_record" where
  "record_update now nr agr =
     (if inner_public_key (agr_inner agr) \<noteq> public_key nr
      then (Inl (ChangesPublicKey (public_key nr) (inner_public_key (agr_inner agr))), nr)
      else if inner_rate_pack (agr_inner agr) \<noteq> inner_rate_pack (inner nr)
      then (Inl (ChangesRatePack (inner_rate_pack (inner nr)) (inner_rate_pack (agr_inner agr))), nr)
      else
        let update_all = (\<lambda>nr. nr\<lparr>metadata := (metadata nr)\<lparr>last_update := now\<rparr>,
              signed_gossip := agr_signed_gossip agr, signature := agr_signature agr, inner := agr_inner agr\<rparr>)
        in (case (meta_node_addr_opt (metadata nr), agr_node_addr_opt agr) of
              (None, None) \<Rightarrow> (Inr (), update_all nr)
            | (None, Some na) \<Rightarrow> (Inr (), update_all (nr\<lparr>metadata := (metadata nr)\<lparr>meta_node_addr_opt := Some na\<rparr>\<rparr>))
            | (Some _, None) \<Rightarrow> (Inr (), update_all nr)
            | (Some existing, Some incoming) \<Rightarrow>
                if existing \<noteq> incoming then (Inl (ChangesNodeAddr existing incoming), nr)
                else (Inr (), update_all nr)))"

definition record_from_agr :: "country_code_finder \<Rightarrow> u32 \<Rightarrow> accessible_gossip_record \<Rightarrow> node_record option" where
  "record_from_agr finder now agr = do {
     let ip_addr_opt = map_option addr_ip (agr_node_addr_opt agr);
     loc \<leftarrow> get_node_location finder ip_addr_opt;
     Some \<lparr>inner = agr_inner agr,
       metadata = (metadata_new now)\<lparr>node_location_opt := loc, meta_node_addr_opt := agr_node_addr_opt agr\<rparr>,
       signed_gossip = agr_signed_gossip agr, signature = agr_signature agr\<rparr> }"

section \<open>Modes of a Node\<close>

datatype chain = EthMainnet | EthRopsten | PolyMainnet | PolyAmoy | BaseMainnet | BaseSepolia | Dev

definition is_mainnet :: "chain \<Rightarrow> bool" where
  "is_mainnet ch \<longleftrightarrow> ch \<in> set [PolyMainnet, BaseMainnet, EthMainnet]"

record node_descriptor =
  blockchain :: chain
  encryption_public_key :: public_key
  desc_node_addr_opt :: "node_addr option"

datatype neighborhood_mode =
    Standard node_addr "node_descriptor list" rate_pack
  | ZeroHop
  | OriginateOnly "node_descriptor list" rate_pack
  | ConsumeOnly "node_descriptor list"

datatype neighborhood_mode_light = StandardLight | ConsumeOnlyLight | OriginateOnlyLight | ZeroHopLight

fun mode_light :: "neighborhood_mode \<Rightarrow> neighborhood_mode_light" where
  "mode_light (Standard a ns r) = StandardLight"
| "mode_light (ConsumeOnly ns) = ConsumeOnlyLight"
| "mode_light (OriginateOnly ns r) = OriginateOnlyLight"
| "mode_light ZeroHop = ZeroHopLight"

fun neighbor_configs :: "neighborhood_mode \<Rightarrow> node_descriptor list" where
  "neighbor_configs (Standard a ns r) = ns"
| "neighbor_configs ZeroHop = []"
| "neighbor_configs (OriginateOnly ns r) = ns"
| "neighbor_configs (ConsumeOnly ns) = ns"

fun mode_node_addr_opt :: "neighborhood_mode \<Rightarrow> node_addr option" where
  "mode_node_addr_opt (Standard a ns r) = Some a"
| "mode_node_addr_opt _ = None"

fun mode_rate_pack :: "neighborhood_mode \<Rightarrow> rate_pack" where
  "mode_rate_pack (Standard a ns r) = r"
| "mode_rate_pack (OriginateOnly ns r) = r"
| "mode_rate_pack _ = ZERO_RATE_PACK"

fun mode_accepts_connections :: "neighborhood_mode \<Rightarrow> bool" where
  "mode_accepts_connections (Standard a ns r) = True"
| "mode_accepts_connections _ = False"

fun mode_routes_data :: "neighborhood_mode \<Rightarrow> bool" where
  "mode_routes_data (Standard a ns r) = True"
| "mode_routes_data (OriginateOnly ns r) = True"
| "mode_routes_data _ = False"

section \<open>Sample values\<close>

text \<open>Concrete values that the examples of the following theories share.\<close>

definition sample_crypt :: crypt_ops where
  "sample_crypt = \<lparr>cbor_to_vec = inner_public_key, cbor_from_slice = (\<lambda>_. None), crypt_sign = Some,
     verify_signature = (\<lambda>msg sig key. msg = sig), crypt_public_key = [1]\<rparr>"

definition sample_finder :: country_code_finder where
  "sample_finder = \<lparr>finder_countries = \<lparr>country_list = [country_new 0 ''ZZ'' ''Sentinel''], index_by_iso3166 = [''ZZ'' \<mapsto> 0]\<rparr>,
     finder_ipv4 = [], finder_ipv6 = []\<rparr>"

lemma find_country_sample_finder: "find_country sample_finder ip = Some None"
proof -
  have "country_from_code (finder_countries sample_finder) ''ZZ'' = Some (Inr (country_new 0 ''ZZ'' ''Sentinel''))"
    by code_simp
  then show ?thesis
    by (cases ip) (simp_all add: find_country_def sample_finder_def binary_search_by_def search_between.simps country_new_def)
qed

definition sample_inner :: "u8 \<Rightarrow> u8 list \<Rightarrow> node_record_inner" where
  "sample_inner k ns = \<lparr>inner_public_key = [k], inner_earning_wallet = WalletAddress [k], inner_rate_pack = ZERO_RATE_PACK,
     inner_neighbors = fset_of_list (map (\<lambda>n. [n]) ns), inner_accepts_connections = True, inner_routes_data = True,
     inner_version = 0, inner_country_code_opt = None\<rparr>"

definition sample_record :: "u8 \<Rightarrow> u8 list \<Rightarrow> node_record" where
  "sample_record k ns = \<lparr>inner = sample_inner k ns,
     metadata = (metadata_new 0)\<lparr>meta_node_addr_opt := Some (node_addr_new (V4 (ucast k)) [4096])\<rparr>,
     signed_gossip = [k], signature = [k]\<rparr>"

end
