(* ===== verification/Neighborhood_Database.thy ===== *)
theory Neighborhood_Database
  imports Node_Record "HOL-Library.List_Lexorder"
begin

text \<open>
  Model of \<open>node/src/neighborhood/neighborhood_database.rs\<close> and of the operations of
  \<open>node_record.rs\<close> that consult the database.  The two hash maps are finite maps.  An
  operation that mutates the database returns the new database; \<^term>\<open>None\<close> is a panic.
  The rendering of the database as a graph for the log is left out.
\<close>

section \<open>Lookups\<close>

definition ISOLATED_NODE_GRACE_PERIOD_SECS :: u32 where
  "ISOLATED_NODE_GRACE_PERIOD_SECS = 30"

record neighborhood_database =
  this_node :: public_key
  by_public_key :: "(public_key, node_record) fmap"
  by_ip_addr :: "(ip_addr, public_key) fmap"

definition node_by_key :: "neighborhood_database \<Rightarrow> public_key \<Rightarrow> node_record option" where
  "node_by_key db key = fmlookup (by_public_key db) key"

definition root :: "neighborhood_database \<Rightarrow> node_record option" where
  "root db = node_by_key db (this_node db)"

definition root_key :: "neighborhood_database \<Rightarrow> public_key" where
  "root_key db = this_node db"

definition keys :: "neighborhood_database \<Rightarrow> public_key fset" where
  "keys db = fmdom (by_public_key db)"

definition node_by_ip :: "neighborhood_database \<Rightarrow> ip_addr \<Rightarrow> node_record option" where
  "node_by_ip db ip =
     (case fmlookup (by_ip_addr db) ip of
        Some key \<Rightarrow> node_by_key db key
      | None \<Rightarrow> None)"

text \<open>\<open>node_by_key_mut\<close> and \<open>root_mut\<close> hand out a reference; here they take the change to make.\<close>

definition node_by_key_mut :: "(node_record \<Rightarrow> node_record) \<Rightarrow> neighborhood_database \<Rightarrow> public_key \<Rightarrow> neighborhood_database option" where
  "node_by_key_mut f db key =
     (case fmlookup (by_public_key db) key of
        Some nr \<Rightarrow> Some (db\<lparr>by_public_key := fmupd key (f nr) (by_public_key db)\<rparr>)
      | None \<Rightarrow> None)"

definition root_mut :: "(node_record \<Rightarrow> node_record) \<Rightarrow> neighborhood_database \<Rightarrow> neighborhood_database option" where
  "root_mut f db = node_by_key_mut f db (this_node db)"

definition nodes_mut :: "(node_record \<Rightarrow> node_record) \<Rightarrow> neighborhood_database \<Rightarrow> neighborhood_database" where
  "nodes_mut f db = db\<lparr>by_public_key := fmmap f (by_public_key db)\<rparr>"

definition has_half_neighbor :: "neighborhood_database \<Rightarrow> public_key \<Rightarrow> public_key \<Rightarrow> bool" where
  "has_half_neighbor db from to =
     (case node_by_key db from of
        Some f \<Rightarrow> record_has_half_neighbor f to
      | None \<Rightarrow> False)"

definition has_full_neighbor :: "neighborhood_database \<Rightarrow> public_key \<Rightarrow> public_key \<Rightarrow> bool" where
  "has_full_neighbor db from to \<longleftrightarrow> has_half_neighbor db from to \<and> has_half_neighbor db to from"

section \<open>Neighbors of a record\<close>

definition full_neighbor_keys :: "node_record \<Rightarrow> neighborhood_database \<Rightarrow> public_key fset" where
  "full_neighbor_keys nr db =
     ffilter (\<lambda>k. case node_by_key db k of
         Some other \<Rightarrow> record_has_half_neighbor other (public_key nr)
       | None \<Rightarrow> False) (half_neighbor_keys nr)"

definition record_has_full_neighbor :: "node_record \<Rightarrow> neighborhood_database \<Rightarrow> public_key \<Rightarrow> bool" where
  "record_has_full_neighbor nr db key =
     (if key |\<notin>| half_neighbor_keys nr then False
      else (case node_by_key db key of
              Some neighbor \<Rightarrow> public_key nr |\<in>| half_neighbor_keys neighbor
            | None \<Rightarrow> False))"

text \<open>
  \<open>full_neighbors\<close> lists the records of a hash set of keys; \<open>order\<close> is the order in
  which the hash set is iterated.
\<close>

definition full_neighbors :: "(public_key fset \<Rightarrow> public_key list) \<Rightarrow> node_record \<Rightarrow> neighborhood_database \<Rightarrow> node_record list option" where
  "full_neighbors order nr db = those (map (node_by_key db) (order (full_neighbor_keys nr db)))"

definition gossip_target_degree :: "neighborhood_database \<Rightarrow> public_key \<Rightarrow> nat" where
  "gossip_target_degree db target =
     (case node_by_key db target of
        None \<Rightarrow> 0
      | Some target_node \<Rightarrow>
          let full_accepting_degree =
                fcard (ffilter (\<lambda>k. case node_by_key db k of Some n \<Rightarrow> accepts_connections n | None \<Rightarrow> False)
                         (full_neighbor_keys target_node db));
              nonexistent_degree = fcard (ffilter (\<lambda>k. k |\<notin>| keys db) (half_neighbor_keys target_node))
          in full_accepting_degree + nonexistent_degree)"

section \<open>Adding\<close>

definition add_arbitrary_node :: "neighborhood_database \<Rightarrow> node_record \<Rightarrow> neighborhood_database" where
  "add_arbitrary_node db nr =
     (let key = public_key nr;
          db = db\<lparr>by_public_key := fmupd key nr (by_public_key db)\<rparr>
      in case node_addr_opt nr of
           Some addr \<Rightarrow> db\<lparr>by_ip_addr := fmupd (addr_ip addr) key (by_ip_addr db)\<rparr>
         | None \<Rightarrow> db)"

definition check_for_ports :: "node_addr option \<Rightarrow> database_error + unit" where
  "check_for_ports addr_opt =
     (case addr_opt of
        None \<Rightarrow> Inr ()
      | Some addr \<Rightarrow> if addr_ports addr = [] then Inl EmptyPortList else Inr ())"

definition check_for_collision :: "neighborhood_database \<Rightarrow> public_key \<Rightarrow> database_error + unit" where
  "check_for_collision db key = (if key |\<in>| keys db then Inl (NodeKeyCollision key) else Inr ())"

definition add_node :: "neighborhood_database \<Rightarrow> node_record \<Rightarrow> (database_error + public_key) \<times> neighborhood_database" where
  "add_node db nr =
     (case check_for_ports (node_addr_opt nr) of
        Inl e \<Rightarrow> (Inl e, db)
      | Inr _ \<Rightarrow>
          (case check_for_collision db (public_key nr) of
             Inl e \<Rightarrow> (Inl e, db)
           | Inr _ \<Rightarrow> (Inr (public_key nr), add_arbitrary_node db nr)))"

definition add_half_neighbor :: "u32 \<Rightarrow> neighborhood_database \<Rightarrow> public_key \<Rightarrow> (database_error + bool) \<times> neighborhood_database" where
  "add_half_neighbor now db new_neighbor =
     (if new_neighbor |\<notin>| keys db then (Inl (NodeKeyNotFound new_neighbor), db)
      else if has_half_neighbor db (this_node db) new_neighbor then (Inr False, db)
      else (case node_by_key db (this_node db) of
              Some node \<Rightarrow>
                (case add_half_neighbor_key node new_neighbor of
                   (Inl (SelfNeighborAttempt key), _) \<Rightarrow> (Inl (DbSelfNeighborAttempt key), db)
                 | (Inr _, node') \<Rightarrow>
                     (Inr True, db\<lparr>by_public_key := fmupd (this_node db)
                        (node'\<lparr>metadata := (metadata node')\<lparr>last_update := now\<rparr>\<rparr>) (by_public_key db)\<rparr>))
            | None \<Rightarrow> (Inl (NodeKeyNotFound (this_node db)), db)))"

definition database_new :: "crypt_ops \<Rightarrow> country_code_finder \<Rightarrow> u32 \<Rightarrow> public_key \<Rightarrow> neighborhood_mode \<Rightarrow> wallet \<Rightarrow> neighborhood_database option" where
  "database_new crypt finder now key mode earning =
     (let result = \<lparr>this_node = key, by_public_key = fmempty, by_ip_addr = fmempty\<rparr> in do {
        location_opt \<leftarrow> (case mode_node_addr_opt mode of
            Some addr \<Rightarrow> get_node_location finder (Some (addr_ip addr))
          | None \<Rightarrow> Some None);
        let inputs = \<lparr>input_earning_wallet = earning, input_rate_pack = mode_rate_pack mode,
          input_accepts_connections = mode_accepts_connections mode, input_routes_data = mode_routes_data mode,
          input_version = 0, input_location_opt = location_opt\<rparr>;
        nr \<leftarrow> node_record_new crypt now key inputs;
        nr \<leftarrow> (case mode_node_addr_opt mode of
            Some addr \<Rightarrow> (case set_node_addr nr addr of (Inr _, nr) \<Rightarrow> Some nr | (Inl _, _) \<Rightarrow> None)
          | None \<Rightarrow> Some nr);
        nr \<leftarrow> record_regenerate_signed_gossip crypt nr;
        Some (add_arbitrary_node result nr) })"

section \<open>Removing\<close>

definition remove_neighbor :: "neighborhood_database \<Rightarrow> public_key \<Rightarrow> ((unit + bool) \<times> neighborhood_database) option" where
  "remove_neighbor db key =
     (case node_by_key db key of
        None \<Rightarrow> Some (Inl (), db)
      | Some nr \<Rightarrow> do {
          let ip_addr = map_option addr_ip (node_addr_opt nr);
          let db = db\<lparr>by_public_key := fmupd key (unset_node_addr nr) (by_public_key db)\<rparr>;
          let db = (case ip_addr of Some ip \<Rightarrow> db\<lparr>by_ip_addr := fmdrop ip (by_ip_addr db)\<rparr> | None \<Rightarrow> db);
          rt \<leftarrow> root db;
          let (removed, rt) = remove_half_neighbor_key rt key;
          let db = db\<lparr>by_public_key := fmupd (this_node db) rt (by_public_key db)\<rparr>;
          if removed then do {
            rt \<leftarrow> increment_version rt;
            Some (Inr True, db\<lparr>by_public_key := fmupd (this_node db) rt (by_public_key db)\<rparr>) }
          else Some (Inr False, db) })"

definition remove_node :: "public_key \<Rightarrow> neighborhood_database \<Rightarrow> neighborhood_database" where
  "remove_node key db =
     (let ip_addr_opt = (case node_by_key db key of
            None \<Rightarrow> None
          | Some node \<Rightarrow> map_option addr_ip (node_addr_opt node));
          db = db\<lparr>by_public_key := fmdrop key (by_public_key db)\<rparr>
      in case ip_addr_opt of
           Some ip \<Rightarrow> db\<lparr>by_ip_addr := fmdrop ip (by_ip_addr db)\<rparr>
         | None \<Rightarrow> db)"

definition referenced_node_keys :: "neighborhood_database \<Rightarrow> public_key fset option" where
  "referenced_node_keys db = do {
     rt \<leftarrow> root db;
     Some (finsert (public_key rt)
       (ffUnion ((\<lambda>k. case node_by_key db k of Some n \<Rightarrow> inner_neighbors (inner n) | None \<Rightarrow> {||}) |`| keys db))) }"

definition to_cull :: "u32 \<Rightarrow> public_key fset \<Rightarrow> neighborhood_database \<Rightarrow> public_key fset" where
  "to_cull deadline referenced db =
     ffilter (\<lambda>k. k |\<notin>| referenced \<and>
       (case node_by_key db k of Some n \<Rightarrow> last_updated n \<le> deadline | None \<Rightarrow> False)) (keys db)"

definition cull_dead_nodes :: "u32 \<Rightarrow> neighborhood_database \<Rightarrow> neighborhood_database option" where
  "cull_dead_nodes now db = do {
     referenced \<leftarrow> referenced_node_keys db;
     deadline \<leftarrow> checked_sub now ISOLATED_NODE_GRACE_PERIOD_SECS;
     Some (fold remove_node (sorted_list_of_fset (to_cull deadline referenced db)) db) }"

definition new_public_ip :: "neighborhood_database \<Rightarrow> ip_addr \<Rightarrow> neighborhood_database option" where
  "new_public_ip db public_ip = do {
     record \<leftarrow> root db;
     old_node_addr \<leftarrow> node_addr_opt record;
     let new_node_addr = node_addr_new public_ip (addr_ports old_node_addr);
     let record' = record\<lparr>metadata := (metadata record)\<lparr>meta_node_addr_opt := Some new_node_addr\<rparr>\<rparr>;
     Some (db\<lparr>by_public_key := fmupd (this_node db) record' (by_public_key db),
       by_ip_addr := fmupd public_ip (public_key record) (fmdrop (addr_ip old_node_addr) (by_ip_addr db))\<rparr>) }"

section \<open>The invariant\<close>

text \<open>
  The local Node is present, every record is stored under its own key, and the index by
  address leads to a record with that address.  The converse of the last part is not an
  invariant: \<open>NodeRecord::update\<close> may learn an address without entering it in the index.
\<close>

definition db_ok :: "neighborhood_database \<Rightarrow> bool" where
  "db_ok db \<longleftrightarrow> this_node db |\<in>| keys db \<and>
     (\<forall>k nr. node_by_key db k = Some nr \<longrightarrow> public_key nr = k) \<and>
     (\<forall>ip k. fmlookup (by_ip_addr db) ip = Some k \<longrightarrow>
        (\<exists>nr addr. node_by_key db k = Some nr \<and> node_addr_opt nr = Some addr \<and> addr_ip addr = ip))"

lemma db_okI:
  assumes "this_node db |\<in>| keys db" "\<And>k nr. node_by_key db k = Some nr \<Longrightarrow> public_key nr = k"
    and "\<And>ip k. fmlookup (by_ip_addr db) ip = Some k \<Longrightarrow>
        \<exists>nr addr. node_by_key db k = Some nr \<and> node_addr_opt nr = Some addr \<and> addr_ip addr = ip"
  shows "db_ok db"
  using assms by (auto simp: db_ok_def)

lemma keys_iff: "k |\<in>| keys db \<longleftrightarrow> (\<exists>nr. node_by_key db k = Some nr)"
  by (simp add: keys_def node_by_key_def fmlookup_dom_iff)

lemma db_ok_root: "db_ok db \<Longrightarrow> \<exists>rt. root db = Some rt \<and> public_key rt = this_node db"
  by (auto simp: db_ok_def root_def keys_iff)

lemma db_ok_key: "db_ok db \<Longrightarrow> node_by_key db k = Some nr \<Longrightarrow> public_key nr = k"
  by (simp add: db_ok_def)

lemma db_ok_ip:
  "db_ok db \<Longrightarrow> fmlookup (by_ip_addr db) ip = Some k \<Longrightarrow>
   \<exists>nr addr. node_by_key db k = Some nr \<and> node_addr_opt nr = Some addr \<and> addr_ip addr = ip"
  by (simp add: db_ok_def)

text \<open>Replacing a record by one with the same key and, if it had one, the same address.\<close>

lemma db_ok_replace:
  assumes ok: "db_ok db" and nr: "node_by_key db k = Some nr" and key: "public_key nr' = k"
    and addr: "node_addr_opt nr = None \<or> node_addr_opt nr' = node_addr_opt nr"
  shows "db_ok (db\<lparr>by_public_key := fmupd k nr' (by_public_key db)\<rparr>)"
proof (rule db_okI, goal_cases)
  case 1
  then show ?case using ok by (auto simp: db_ok_def keys_def)
next
  case (2 k' r)
  then show ?case using ok key by (auto simp: db_ok_def node_by_key_def split: if_splits)
next
  case (3 ip k')
  then obtain r a where "node_by_key db k' = Some r" "node_addr_opt r = Some a" "addr_ip a = ip"
    using db_ok_ip [OF ok, of ip k'] by auto
  then show ?case using nr addr by (cases "k' = k") (auto simp: node_by_key_def)
qed

text \<open>Changing the address of a record together with the index.\<close>

lemma db_ok_drop_addr:
  assumes ok: "db_ok db" and nr: "node_by_key db k = Some nr" "node_addr_opt nr = Some a" and key: "public_key nr' = k"
  shows "db_ok (db\<lparr>by_public_key := fmupd k nr' (by_public_key db), by_ip_addr := fmdrop (addr_ip a) (by_ip_addr db)\<rparr>)"
proof (rule db_okI, goal_cases)
  case 1
  then show ?case using ok by (auto simp: db_ok_def keys_def)
next
  case (2 k' r)
  then show ?case using ok key by (auto simp: db_ok_def node_by_key_def split: if_splits)
next
  case (3 ip k')
  then have ip: "fmlookup (by_ip_addr db) ip = Some k'" "ip \<noteq> addr_ip a" by (auto split: if_splits)
  then obtain r b where "node_by_key db k' = Some r" "node_addr_opt r = Some b" "addr_ip b = ip"
    using db_ok_ip [OF ok, of ip k'] by auto
  then show ?case using nr ip by (cases "k' = k") (auto simp: node_by_key_def)
qed

section \<open>The operations keep it\<close>

lemma db_ok_singleton:
  assumes "public_key nr = k"
  shows "db_ok \<lparr>this_node = k, by_public_key = fmupd k nr fmempty, by_ip_addr = fmempty\<rparr>"
  using assms by (simp add: db_ok_def keys_def node_by_key_def)

lemma db_ok_insert:
  assumes ok: "db_ok db" and new: "public_key nr |\<notin>| keys db"
  shows "db_ok (db\<lparr>by_public_key := fmupd (public_key nr) nr (by_public_key db)\<rparr>)"
proof (rule db_okI, goal_cases)
  case 1
  then show ?case using ok by (simp add: db_ok_def keys_def)
next
  case (2 k r)
  then show ?case using db_ok_key [OF ok, of k r] by (auto simp: node_by_key_def split: if_splits)
next
  case (3 ip k)
  from db_ok_ip [OF ok, of ip k] 3 obtain r a where
    r: "node_by_key db k = Some r" "node_addr_opt r = Some a" "addr_ip a = ip" by auto
  then have "k \<noteq> public_key nr" using new by (auto simp: keys_iff)
  with r show ?case by (simp add: node_by_key_def)
qed

lemma db_ok_index:
  assumes ok: "db_ok db" and nr: "node_by_key db k = Some nr" "node_addr_opt nr = Some a"
  shows "db_ok (db\<lparr>by_ip_addr := fmupd (addr_ip a) k (by_ip_addr db)\<rparr>)"
proof (rule db_okI, goal_cases)
  case 1
  then show ?case using ok by (simp add: db_ok_def keys_def)
next
  case (2 k' r)
  then show ?case using db_ok_key [OF ok, of k' r] by (simp add: node_by_key_def)
next
  case (3 ip k')
  then show ?case using db_ok_ip [OF ok, of ip k'] nr
    by (cases "ip = addr_ip a") (simp_all add: node_by_key_def)
qed

lemma keeps_add_arbitrary:
  assumes "db_ok (db\<lparr>by_public_key := fmupd (public_key nr) nr (by_public_key db)\<rparr>)" (is "db_ok ?db")
  shows "db_ok (add_arbitrary_node db nr)"
proof (cases "node_addr_opt nr")
  case None
  then show ?thesis using assms by (simp add: add_arbitrary_node_def)
next
  case (Some a)
  have "node_by_key ?db (public_key nr) = Some nr" by (simp add: node_by_key_def)
  from db_ok_index [OF assms this Some] show ?thesis using Some by (simp add: add_arbitrary_node_def Let_def)
qed

lemma keeps_add_node: "db_ok db \<Longrightarrow> db_ok (snd (add_node db nr))"
  by (auto simp: add_node_def check_for_collision_def keeps_add_arbitrary db_ok_insert split: sum.split)

lemma keeps_add_half_neighbor:
  assumes "db_ok db"
  shows "db_ok (snd (add_half_neighbor now db k))"
proof -
  obtain rt where rt: "node_by_key db (this_node db) = Some rt" "public_key rt = this_node db"
    using db_ok_root [OF assms] by (auto simp: root_def)
  show ?thesis
    using assms rt
    by (auto simp: add_half_neighbor_def add_half_neighbor_key_def split: sum.split record_error.split
        intro!: db_ok_replace simp: public_key_def node_addr_opt_def)
qed

lemma keeps_root_update:
  assumes "db_ok db" "root db = Some rt" "public_key rt' = public_key rt" "node_addr_opt rt' = node_addr_opt rt"
  shows "db_ok (db\<lparr>by_public_key := fmupd (this_node db) rt' (by_public_key db)\<rparr>)"
  using assms by (intro db_ok_replace [of db "this_node db" rt]) (auto simp: root_def db_ok_key)

lemma remove_half_neighbor_key_simps [simp]:
  "public_key (snd (remove_half_neighbor_key nr k)) = public_key nr"
  "node_addr_opt (snd (remove_half_neighbor_key nr k)) = node_addr_opt nr"
  by (simp_all add: remove_half_neighbor_key_def public_key_def node_addr_opt_def)

lemma increment_version_simps:
  "increment_version nr = Some nr' \<Longrightarrow> public_key nr' = public_key nr \<and> node_addr_opt nr' = node_addr_opt nr"
  by (auto simp: increment_version_def bind_eq_Some_conv public_key_def node_addr_opt_def)

lemma unset_node_addr_simps [simp]: "public_key (unset_node_addr nr) = public_key nr" "node_addr_opt (unset_node_addr nr) = None"
  by (simp_all add: unset_node_addr_def public_key_def node_addr_opt_def)

lemma keeps_unset:
  assumes "db_ok db" "node_by_key db k = Some nr"
  shows "db_ok (let db = db\<lparr>by_public_key := fmupd k (unset_node_addr nr) (by_public_key db)\<rparr> in
     case map_option addr_ip (node_addr_opt nr) of Some ip \<Rightarrow> db\<lparr>by_ip_addr := fmdrop ip (by_ip_addr db)\<rparr> | None \<Rightarrow> db)"
proof (cases "node_addr_opt nr")
  case None
  then show ?thesis using assms db_ok_key [OF assms] by (auto simp: Let_def intro!: db_ok_replace)
next
  case (Some a)
  from db_ok_drop_addr [OF assms Some, of "unset_node_addr nr"] show ?thesis
    using Some db_ok_key [OF assms] by (simp add: Let_def)
qed

lemma keeps_remove_neighbor:
  assumes ok: "db_ok db" and r: "remove_neighbor db k = Some (r, db')"
  shows "db_ok db'"
proof (cases "node_by_key db k")
  case None
  with assms show ?thesis by (auto simp: remove_neighbor_def)
next
  case (Some nr)
  define db1 where "db1 = (let db = db\<lparr>by_public_key := fmupd k (unset_node_addr nr) (by_public_key db)\<rparr> in
     case map_option addr_ip (node_addr_opt nr) of Some ip \<Rightarrow> db\<lparr>by_ip_addr := fmdrop ip (by_ip_addr db)\<rparr> | None \<Rightarrow> db)"
  have ok1: "db_ok db1" unfolding db1_def by (rule keeps_unset [OF ok Some])
  then obtain rt where rt: "root db1 = Some rt" using db_ok_root by blast
  define rt1 where "rt1 = snd (remove_half_neighbor_key rt k)"
  define db2 where "db2 = db1\<lparr>by_public_key := fmupd (this_node db1) rt1 (by_public_key db1)\<rparr>"
  have ok2: "db_ok db2" unfolding db2_def by (rule keeps_root_update [OF ok1 rt]) (simp_all add: rt1_def)
  have rt2: "root db2 = Some rt1" by (simp add: db2_def root_def node_by_key_def)
  have "db' = db2 \<or> (\<exists>rt2. increment_version rt1 = Some rt2 \<and> db' = db2\<lparr>by_public_key := fmupd (this_node db2) rt2 (by_public_key db2)\<rparr>)"
    using r Some rt
    by (auto simp: remove_neighbor_def Let_def db1_def db2_def rt1_def bind_eq_Some_conv split_def split: if_splits)
  then show ?thesis
    using ok2 keeps_root_update [OF ok2 rt2] increment_version_simps by blast
qed

lemma node_by_key_remove [simp]: "node_by_key (remove_node k db) k' = (if k' = k then None else node_by_key db k')"
  by (auto simp: remove_node_def node_by_key_def Let_def split: option.split)

lemma this_node_remove [simp]: "this_node (remove_node k db) = this_node db"
  by (simp add: remove_node_def Let_def split: option.split)

lemma by_ip_addr_remove:
  "fmlookup (by_ip_addr (remove_node k db)) ip = Some k' \<Longrightarrow>
   fmlookup (by_ip_addr db) ip = Some k' \<and>
   (\<forall>nr a. node_by_key db k = Some nr \<longrightarrow> node_addr_opt nr = Some a \<longrightarrow> addr_ip a \<noteq> ip)"
  by (auto simp: remove_node_def Let_def split: option.splits if_splits)

lemma keeps_remove_node:
  assumes ok: "db_ok db" and not_root: "k \<noteq> this_node db"
  shows "db_ok (remove_node k db)"
proof (rule db_okI, goal_cases)
  case 1
  then show ?case using ok not_root by (simp add: keys_iff db_ok_def)
next
  case (2 k' r)
  then show ?case using db_ok_key [OF ok, of k' r] by (simp split: if_splits)
next
  case (3 ip k')
  then have ip: "fmlookup (by_ip_addr db) ip = Some k'"
    and no: "\<And>nr a. node_by_key db k = Some nr \<Longrightarrow> node_addr_opt nr = Some a \<Longrightarrow> addr_ip a \<noteq> ip"
    using by_ip_addr_remove by blast+
  from db_ok_ip [OF ok ip] no have "k' \<noteq> k" by auto
  with db_ok_ip [OF ok ip] show ?case by simp
qed

lemma fold_remove_node:
  assumes "this_node db \<notin> set ks" "db_ok db"
  shows "db_ok (fold remove_node ks db) \<and> this_node (fold remove_node ks db) = this_node db \<and>
     (\<forall>k. node_by_key (fold remove_node ks db) k = (if k \<in> set ks then None else node_by_key db k))"
  using assms
proof (induction ks arbitrary: db)
  case (Cons k ks)
  then have "db_ok (remove_node k db)" by (auto intro: keeps_remove_node)
  with Cons.IH [of "remove_node k db"] Cons.prems show ?case by auto
qed simp

lemma cull_dead_nodes_spec:
  assumes ok: "db_ok db" and cull: "cull_dead_nodes now db = Some db'"
  shows "db_ok db'" "this_node db' = this_node db"
    "\<exists>referenced deadline. referenced_node_keys db = Some referenced \<and> checked_sub now ISOLATED_NODE_GRACE_PERIOD_SECS = Some deadline \<and>
       (\<forall>k. node_by_key db' k = (if k |\<in>| to_cull deadline referenced db then None else node_by_key db k))"
proof -
  from cull obtain referenced deadline where r: "referenced_node_keys db = Some referenced"
    "checked_sub now ISOLATED_NODE_GRACE_PERIOD_SECS = Some deadline"
    and db': "db' = fold remove_node (sorted_list_of_fset (to_cull deadline referenced db)) db"
    by (auto simp: cull_dead_nodes_def bind_eq_Some_conv)
  obtain rt where "root db = Some rt" "public_key rt = this_node db" using db_ok_root [OF ok] by blast
  with r have "this_node db |\<in>| referenced" by (auto simp: referenced_node_keys_def)
  then have "this_node db \<notin> set (sorted_list_of_fset (to_cull deadline referenced db))"
    by (simp add: to_cull_def)
  from fold_remove_node [OF this ok] r show "db_ok db'" "this_node db' = this_node db"
    "\<exists>referenced deadline. referenced_node_keys db = Some referenced \<and> checked_sub now ISOLATED_NODE_GRACE_PERIOD_SECS = Some deadline \<and>
       (\<forall>k. node_by_key db' k = (if k |\<in>| to_cull deadline referenced db then None else node_by_key db k))"
    unfolding db' by auto
qed

lemma keeps_new_public_ip:
  assumes ok: "db_ok db" and r: "new_public_ip db ip = Some db'"
  shows "db_ok db'"
proof -
  from r obtain rt a where rt: "root db = Some rt" "node_addr_opt rt = Some a"
    and db': "db' = db\<lparr>by_public_key := fmupd (this_node db)
        (rt\<lparr>metadata := (metadata rt)\<lparr>meta_node_addr_opt := Some (node_addr_new ip (addr_ports a))\<rparr>\<rparr>) (by_public_key db),
      by_ip_addr := fmupd ip (public_key rt) (fmdrop (addr_ip a) (by_ip_addr db))\<rparr>"
    by (auto simp: new_public_ip_def bind_eq_Some_conv)
  define rt' where "rt' = rt\<lparr>metadata := (metadata rt)\<lparr>meta_node_addr_opt := Some (node_addr_new ip (addr_ports a))\<rparr>\<rparr>"
  define db1 where "db1 = db\<lparr>by_public_key := fmupd (this_node db) rt' (by_public_key db),
     by_ip_addr := fmdrop (addr_ip a) (by_ip_addr db)\<rparr>"
  have key: "public_key rt = this_node db" using ok rt db_ok_root by fastforce
  have "db_ok db1"
    unfolding db1_def using ok rt key by (intro db_ok_drop_addr) (auto simp: root_def rt'_def public_key_def)
  moreover have "node_by_key db1 (this_node db) = Some rt'" by (simp add: db1_def node_by_key_def)
  moreover have "node_addr_opt rt' = Some (node_addr_new ip (addr_ports a))" by (simp add: rt'_def node_addr_opt_def)
  ultimately have "db_ok (db1\<lparr>by_ip_addr := fmupd (addr_ip (node_addr_new ip (addr_ports a))) (this_node db) (by_ip_addr db1)\<rparr>)"
    by (rule db_ok_index)
  then show ?thesis unfolding db' by (simp add: db1_def rt'_def key node_addr_new_def)
qed

lemma keeps_update:
  assumes ok: "db_ok db" and nr: "node_by_key db k = Some nr"
  shows "db_ok (db\<lparr>by_public_key := fmupd k (snd (record_update now nr agr)) (by_public_key db)\<rparr>)"
  using db_ok_key [OF ok nr]
  by (intro db_ok_replace [OF ok nr])
    (auto simp: record_update_def public_key_def node_addr_opt_def Let_def split: option.split)

lemma regenerate_keeps_key:
  "record_regenerate_signed_gossip crypt nr = Some nr' \<Longrightarrow> public_key nr' = public_key nr \<and> node_addr_opt nr' = node_addr_opt nr"
  by (auto simp: record_regenerate_signed_gossip_def bind_eq_Some_conv public_key_def node_addr_opt_def)

lemma node_record_new_key: "node_record_new crypt now key inputs = Some nr \<Longrightarrow> public_key nr = key"
  unfolding node_record_new_def Let_def by (drule regenerate_keeps_key) (simp add: public_key_def)

lemma set_node_addr_key: "set_node_addr nr a = (r, nr') \<Longrightarrow> public_key nr' = public_key nr"
  by (auto simp: set_node_addr_def public_key_def split: option.splits if_splits)

lemma keeps_database_new:
  assumes "database_new crypt finder now key mode earning = Some db"
  shows "db_ok db \<and> this_node db = key"
proof -
  from assms obtain inputs nr0 nr1 nr where 0: "node_record_new crypt now key inputs = Some nr0"
    and 1: "(case mode_node_addr_opt mode of
       Some addr \<Rightarrow> (case set_node_addr nr0 addr of (Inr _, nr) \<Rightarrow> Some nr | (Inl _, _) \<Rightarrow> None) | None \<Rightarrow> Some nr0) = Some nr1"
    and 2: "record_regenerate_signed_gossip crypt nr1 = Some nr"
    and db: "db = add_arbitrary_node \<lparr>this_node = key, by_public_key = fmempty, by_ip_addr = fmempty\<rparr> nr"
    unfolding database_new_def Let_def bind_eq_Some_conv by auto
  from 1 have "public_key nr1 = public_key nr0"
    by (auto split: option.splits sum.splits prod.splits dest: set_node_addr_key)
  with node_record_new_key [OF 0] regenerate_keeps_key [OF 2] have nr: "public_key nr = key" by simp
  have "db_ok db" unfolding db using db_ok_singleton [OF nr] nr by (intro keeps_add_arbitrary) simp
  moreover have "this_node db = key" unfolding db by (simp add: add_arbitrary_node_def Let_def split: option.split)
  ultimately show ?thesis by simp
qed

section \<open>Sequences of operations\<close>

text \<open>
  The ways in which the program changes its database: the public operations, the update
  of a record from gossip through \<open>node_by_key_mut\<close>, and the new version and signature
  of the local record through \<open>root_mut\<close>.
\<close>

datatype db_op =
    AddNode node_record
  | AddHalfNeighbor u32 public_key
  | RemoveNeighbor public_key
  | CullDeadNodes u32
  | NewPublicIp ip_addr
  | UpdateNode u32 accessible_gossip_record
  | BumpRoot crypt_ops

fun db_step :: "db_op \<Rightarrow> neighborhood_database \<Rightarrow> neighborhood_database option" where
  "db_step (AddNode nr) db = Some (snd (add_node db nr))"
| "db_step (AddHalfNeighbor now k) db = Some (snd (add_half_neighbor now db k))"
| "db_step (RemoveNeighbor k) db = map_option snd (remove_neighbor db k)"
| "db_step (CullDeadNodes now) db = cull_dead_nodes now db"
| "db_step (NewPublicIp ip) db = new_public_ip db ip"
| "db_step (UpdateNode now agr) db =
     node_by_key_mut (\<lambda>nr. snd (record_update now nr agr)) db (inner_public_key (agr_inner agr))"
| "db_step (BumpRoot crypt) db = do {
     rt \<leftarrow> root db;
     rt \<leftarrow> increment_version rt;
     rt \<leftarrow> record_regenerate_signed_gossip crypt rt;
     root_mut (\<lambda>_. rt) db }"

lemma keeps_bump_root:
  assumes ok: "db_ok db" and r: "db_step (BumpRoot crypt) db = Some db'"
  shows "db_ok db'"
proof -
  from r obtain rt rt1 rt2 where rt: "root db = Some rt" "increment_version rt = Some rt1"
    "record_regenerate_signed_gossip crypt rt1 = Some rt2"
    and db': "db' = db\<lparr>by_public_key := fmupd (this_node db) rt2 (by_public_key db)\<rparr>"
    by (auto simp: bind_eq_Some_conv root_mut_def node_by_key_mut_def split: option.splits)
  show ?thesis unfolding db'
    using increment_version_simps [OF rt(2)] regenerate_keeps_key [OF rt(3)]
    by (intro keeps_root_update [OF ok rt(1)]) auto
qed

interpretation db: step_invariant db_step db_ok
proof unfold_locales
  fix db op db' assume ok: "db_ok db" and step: "db_step op db = Some db'"
  show "db_ok db'"
  proof (cases op)
    case (UpdateNode now agr)
    then show ?thesis using ok step keeps_update [OF ok]
      by (auto simp: node_by_key_mut_def node_by_key_def split: option.splits)
  next
    case (BumpRoot crypt)
    then show ?thesis using keeps_bump_root [OF ok] step by simp
  qed (use ok step in \<open>auto intro: keeps_add_node keeps_add_half_neighbor keeps_remove_neighbor cull_dead_nodes_spec(1)
        keeps_new_public_ip simp del: db_ok_def\<close>)
qed

lemma this_node_remove_neighbor: "remove_neighbor db k = Some (r, db') \<Longrightarrow> this_node db' = this_node db"
  by (auto simp: remove_neighbor_def Let_def bind_eq_Some_conv split_def split: option.splits if_splits)

lemma this_node_step: "db_ok db \<Longrightarrow> db_step op db = Some db' \<Longrightarrow> this_node db' = this_node db"
  by (cases op)
    (auto simp: add_node_def add_arbitrary_node_def add_half_neighbor_def add_half_neighbor_key_def this_node_remove_neighbor
      new_public_ip_def node_by_key_mut_def root_mut_def Let_def bind_eq_Some_conv cull_dead_nodes_spec(2)
      split: sum.splits option.splits record_error.splits prod.splits if_splits)

interpretation db_root: step_invariant db_step "\<lambda>db. db_ok db \<and> this_node db = key" for key
  by unfold_locales (use db.step_keeps this_node_step in auto)

lemma node_by_ip_ok:
  assumes "db_ok db" "node_by_ip db ip = Some nr"
  shows "\<exists>a. node_addr_opt nr = Some a \<and> addr_ip a = ip"
  using assms db_ok_ip [OF assms(1), of ip] by (auto simp: node_by_ip_def split: option.splits)

text \<open>
  C24: the neighborhood database stays consistent.  Whatever operations the program
  performs on a new database, in whatever order, the local Node stays in it under the
  same key (so \<open>root\<close> never panics), every record stays under its own key, and a
  lookup by address returns a Node with that address.
\<close>

theorem database_consistent:
  assumes "database_new crypt finder now key mode earning = Some db0" and "run_ops db_step ops db0 = Some db"
  shows "(\<exists>rt. root db = Some rt \<and> public_key rt = key) \<and>
    (\<forall>k nr. node_by_key db k = Some nr \<longrightarrow> public_key nr = k) \<and>
    (\<forall>ip nr. node_by_ip db ip = Some nr \<longrightarrow> (\<exists>a. node_addr_opt nr = Some a \<and> addr_ip a = ip))"
proof -
  have "db_ok db \<and> this_node db = key"
    by (rule db_root.run_keeps [OF _ assms(2)]) (rule keeps_database_new [OF assms(1)])
  then show ?thesis using db_ok_root [of db] db_ok_key [of db] node_by_ip_ok [of db] by auto
qed

theorem database_consistent_witness:
  "\<exists>db0 db. database_new sample_crypt sample_finder 5 [1] (ConsumeOnly []) (WalletAddress [1]) = Some db0 \<and>
     run_ops db_step [AddNode (sample_record 2 []), AddHalfNeighbor 6 [2], RemoveNeighbor [2]] db0 = Some db \<and>
     (\<exists>rt. root db = Some rt \<and> public_key rt = [1])"
proof -
  obtain db0 db where r: "database_new sample_crypt sample_finder 5 [1] (ConsumeOnly []) (WalletAddress [1]) = Some db0"
    "run_ops db_step [AddNode (sample_record 2 []), AddHalfNeighbor 6 [2], RemoveNeighbor [2]] db0 = Some db"
    by (simp add: database_new_def node_record_new_def record_regenerate_signed_gossip_def regenerate_signed_gossip_def
        sample_crypt_def metadata_new_def add_arbitrary_node_def public_key_def node_addr_opt_def Let_def
        add_node_def check_for_ports_def check_for_collision_def keys_def sample_record_def sample_inner_def node_addr_new_def
        add_half_neighbor_def has_half_neighbor_def node_by_key_def record_has_half_neighbor_def add_half_neighbor_key_def
        remove_neighbor_def root_def remove_half_neighbor_key_def unset_node_addr_def increment_version_def checked_add_def)
  with database_consistent [OF r] show ?thesis by blast
qed

section \<open>Culling\<close>

definition referenced :: "neighborhood_database \<Rightarrow> public_key \<Rightarrow> bool" where
  "referenced db k \<longleftrightarrow> k = this_node db \<or> (\<exists>k' nr. node_by_key db k' = Some nr \<and> record_has_half_neighbor nr k)"

lemma referenced_node_keys_spec:
  assumes "db_ok db"
  obtains ks where "referenced_node_keys db = Some ks" "\<forall>k. k |\<in>| ks \<longleftrightarrow> referenced db k"
proof -
  obtain rt where rt: "root db = Some rt" "public_key rt = this_node db" using db_ok_root [OF assms] by blast
  define ks where "ks = finsert (public_key rt)
     (ffUnion ((\<lambda>k. case node_by_key db k of Some n \<Rightarrow> inner_neighbors (inner n) | None \<Rightarrow> {||}) |`| keys db))"
  have "k |\<in>| ks \<longleftrightarrow> referenced db k" for k
    using rt by (force simp: ks_def referenced_def record_has_half_neighbor_def ffUnion.rep_eq keys_iff split: option.splits)
  moreover have "referenced_node_keys db = Some ks" using rt by (simp add: referenced_node_keys_def ks_def)
  ultimately show thesis using that by blast
qed

text \<open>
  C26: culling removes exactly the dead Nodes.  On a consistent database, once the clock
  is past the grace period, culling never panics; it removes a Node exactly when no Node
  of the database has it as a neighbor, it is not the local Node and its record is older
  than the grace period; every other record is untouched.
\<close>

theorem cull_dead_nodes_exact:
  assumes "db_ok db" and "ISOLATED_NODE_GRACE_PERIOD_SECS \<le> now"
  shows "\<exists>db'. cull_dead_nodes now db = Some db' \<and> db_ok db' \<and>
    (\<forall>k. node_by_key db' k =
      (case node_by_key db k of None \<Rightarrow> None
       | Some nr \<Rightarrow> if \<not> referenced db k \<and> last_updated nr \<le> now - ISOLATED_NODE_GRACE_PERIOD_SECS then None else Some nr))"
proof -
  obtain ks where ks: "referenced_node_keys db = Some ks" "\<forall>k. k |\<in>| ks \<longleftrightarrow> referenced db k"
    by (rule referenced_node_keys_spec [OF assms(1)])
  then obtain db' where db': "cull_dead_nodes now db = Some db'"
    using assms(2) by (simp add: cull_dead_nodes_def checked_sub_def)
  note spec = cull_dead_nodes_spec [OF assms(1) db']
  from spec(3) ks assms(2) have "node_by_key db' k =
      (if k |\<in>| to_cull (now - ISOLATED_NODE_GRACE_PERIOD_SECS) ks db then None else node_by_key db k)" for k
    by (auto simp: checked_sub_def)
  with spec(1) db' ks(2) show ?thesis by (auto simp: to_cull_def keys_iff split: option.split)
qed

theorem cull_dead_nodes_exact_witness:
  "\<exists>db'. cull_dead_nodes 100 \<lparr>this_node = [1], by_public_key = fmupd [2] (sample_record 2 []) (fmupd [1] (sample_record 1 []) fmempty),
       by_ip_addr = fmempty\<rparr> = Some db' \<and> node_by_key db' [2] = None \<and> node_by_key db' [1] = Some (sample_record 1 [])"
proof -
  define db where "db = \<lparr>this_node = [1], by_public_key = fmupd [2] (sample_record 2 []) (fmupd [1] (sample_record 1 []) fmempty),
     by_ip_addr = fmempty :: (ip_addr, public_key) fmap\<rparr>"
  have ok: "db_ok db"
    by (auto simp: db_ok_def db_def keys_def node_by_key_def public_key_def sample_record_def sample_inner_def split: if_splits)
  have "\<not> referenced db [2]" "referenced db [1]"
    by (auto simp: referenced_def db_def node_by_key_def record_has_half_neighbor_def sample_record_def sample_inner_def split: if_splits)
  then show ?thesis
    using cull_dead_nodes_exact [OF ok, of 100]
    by (auto simp: ISOLATED_NODE_GRACE_PERIOD_SECS_def last_updated_def sample_record_def metadata_new_def db_def node_by_key_def)
qed

end
