(* ===== verification/Exit_Preferences.thy ===== *)
theory Exit_Preferences
  imports Neighborhood_Database
begin

text \<open>
  Model of the preferences for exit countries in \<open>node/src/neighborhood/mod.rs\<close>
  (\<open>UserExitPreferences\<close>) and of the undesirability of a Node, the quantity that the
  routing engine minimises.  Undesirabilities are \<open>i64\<close>: integers with a checked range.
\<close>

section \<open>Preferences\<close>

datatype fallback_preference = Nothing | ExitCountryWithFallback | ExitCountryNoFallback

record exit_location =
  country_codes :: "string list"
  priority :: nat

record user_exit_preferences =
  exit_countries :: "string list"
  fallback_preference :: fallback_preference
  locations_opt :: "exit_location list option"
  db_countries :: "string list"

definition preferences_new :: user_exit_preferences where
  "preferences_new = \<lparr>exit_countries = [], fallback_preference = Nothing, locations_opt = None, db_countries = []\<rparr>"

definition UNREACHABLE_HOST_PENALTY :: int where
  "UNREACHABLE_HOST_PENALTY = 100000000"

definition UNREACHABLE_COUNTRY_PENALTY :: u32 where
  "UNREACHABLE_COUNTRY_PENALTY = 100000000"

definition COUNTRY_UNDESIRABILITY_FACTOR :: u32 where
  "COUNTRY_UNDESIRABILITY_FACTOR = 1000"

definition ZERO_UNDESIRABILITY :: u32 where
  "ZERO_UNDESIRABILITY = 0"

definition ZZ_COUNTRY_CODE_STRING :: string where
  "ZZ_COUNTRY_CODE_STRING = ''ZZ''"

definition should_set_country_undesirability :: "string \<Rightarrow> exit_location \<Rightarrow> bool" where
  "should_set_country_undesirability code loc \<longleftrightarrow> code \<in> set (country_codes loc) \<and> code \<noteq> ZZ_COUNTRY_CODE_STRING"

definition is_unreachable_country_penalty :: "user_exit_preferences \<Rightarrow> string \<Rightarrow> bool" where
  "is_unreachable_country_penalty prefs code \<longleftrightarrow>
     (fallback_preference prefs = ExitCountryWithFallback \<and> code \<notin> set (exit_countries prefs)) \<or>
     code = ZZ_COUNTRY_CODE_STRING"

definition calculate_country_undesirability :: "u32 \<Rightarrow> u32 option" where
  "calculate_country_undesirability prio = do {
     p \<leftarrow> checked_sub prio 1;
     checked_mul COUNTRY_UNDESIRABILITY_FACTOR p }"

definition set_undesirability :: "u32 \<Rightarrow> node_record \<Rightarrow> node_record" where
  "set_undesirability u nr = nr\<lparr>metadata := (metadata nr)\<lparr>country_undesirability := u\<rparr>\<rparr>"

fun assign_for_locations :: "user_exit_preferences \<Rightarrow> string \<Rightarrow> exit_location list \<Rightarrow> node_record \<Rightarrow> node_record option" where
  "assign_for_locations prefs code [] nr = Some nr"
| "assign_for_locations prefs code (loc # locs) nr = do {
     nr \<leftarrow> (if should_set_country_undesirability code loc
           then do { u \<leftarrow> calculate_country_undesirability (of_nat (priority loc)); Some (set_undesirability u nr) }
           else Some nr);
     let nr = (if is_unreachable_country_penalty prefs code
               then set_undesirability UNREACHABLE_COUNTRY_PENALTY nr else nr);
     assign_for_locations prefs code locs nr }"

definition assign_nodes_country_undesirability :: "user_exit_preferences \<Rightarrow> node_record \<Rightarrow> node_record option" where
  "assign_nodes_country_undesirability prefs nr =
     (let code = (case inner_country_code_opt (inner nr) of Some c \<Rightarrow> c | None \<Rightarrow> ZZ_COUNTRY_CODE_STRING)
      in case locations_opt prefs of
           Some locs \<Rightarrow> assign_for_locations prefs code locs nr
         | None \<Rightarrow> Some nr)"

section \<open>Undesirability\<close>

definition i64_ok :: "int \<Rightarrow> bool" where
  "i64_ok x \<longleftrightarrow> - (2 ^ 63) \<le> x \<and> x < 2 ^ 63"

definition i64_add :: "int \<Rightarrow> int \<Rightarrow> int option" where
  "i64_add x y = (if i64_ok (x + y) then Some (x + y) else None)"

definition I64_MAX :: int where
  "I64_MAX = 2 ^ 63 - 1"

text \<open>The cast \<open>as i64\<close> of an unsigned number reads its bits as a two's complement number.\<close>

definition as_i64 :: "u64 \<Rightarrow> int" where
  "as_i64 w = sint w"

datatype undesirability_type = Relay | ExitRequest "string option" | ExitAndRouteResponse

definition compute_undesirability :: "node_record \<Rightarrow> u64 \<Rightarrow> undesirability_type \<Rightarrow> int option" where
  "compute_undesirability nr payload_size utype =
     (case utype of
        Relay \<Rightarrow> do {
          charge \<leftarrow> routing_charge (inner_rate_pack (inner nr)) payload_size;
          Some (as_i64 charge) }
      | ExitRequest None \<Rightarrow> do {
          charge \<leftarrow> exit_charge (inner_rate_pack (inner nr)) payload_size;
          i64_add (as_i64 charge) (uint (country_undesirability (metadata nr))) }
      | ExitRequest (Some hostname) \<Rightarrow> do {
          charge \<leftarrow> exit_charge (inner_rate_pack (inner nr)) payload_size;
          let unreachable = (if hostname |\<in>| unreachable_hosts (metadata nr) then UNREACHABLE_HOST_PENALTY else 0);
          s \<leftarrow> i64_add (as_i64 charge) unreachable;
          i64_add s (uint (country_undesirability (metadata nr))) }
      | ExitAndRouteResponse \<Rightarrow> do {
          exit \<leftarrow> exit_charge (inner_rate_pack (inner nr)) payload_size;
          routing \<leftarrow> routing_charge (inner_rate_pack (inner nr)) payload_size;
          i64_add (as_i64 exit) (as_i64 routing) })"

section \<open>Bounded charges\<close>

text \<open>
  An upper bound on every kind of undesirability of a Node, computed without overflow:
  both charges, the penalty for an unreachable host and the undesirability of the
  country.
\<close>

definition full_charge :: "node_record \<Rightarrow> nat \<Rightarrow> nat" where
  "full_charge nr payload_size =
     unat (exit_service_rate (inner_rate_pack (inner nr))) + unat (exit_byte_rate (inner_rate_pack (inner nr))) * payload_size +
     unat (routing_service_rate (inner_rate_pack (inner nr))) + unat (routing_byte_rate (inner_rate_pack (inner nr))) * payload_size +
     100000000 + unat (country_undesirability (metadata nr))"

lemma checked_mul_Some: "unat x * unat y < 2 ^ LENGTH('a) \<Longrightarrow> checked_mul (x :: 'a::len word) y = Some (x * y) \<and> unat (x * y) = unat x * unat y"
  by (simp add: checked_mul_def unat_mult_lem [THEN iffD1])

lemma checked_add_Some: "unat x + unat y < 2 ^ LENGTH('a) \<Longrightarrow> checked_add (x :: 'a::len word) y = Some (x + y) \<and> unat (x + y) = unat x + unat y"
  by (simp add: checked_add_def unat_add_lem [THEN iffD1])

lemma sint_small:
  assumes "unat (c :: u64) < 2 ^ 63"
  shows "sint c = int (unat c)"
proof -
  have "sint c = signed_take_bit 63 (uint c)" by (simp add: sint_uint)
  also have "\<dots> = uint c"
  proof (rule signed_take_bit_int_eq_self)
    show "- (2 ^ 63) \<le> uint c" by (rule order_trans [of _ 0]) simp_all
    have "int (unat c) < int (2 ^ 63)" using assms by (simp only: of_nat_less_iff)
    then show "uint c < 2 ^ 63" by simp
  qed
  finally show ?thesis by simp
qed

lemma charge_value:
  assumes small: "unat s + unat (b :: u64) * payload < 2 ^ 63" and "payload < 2 ^ 63"
  shows "\<exists>c. do { product \<leftarrow> checked_mul b (of_nat payload); checked_add s product } = Some c \<and>
     as_i64 c = int (unat s + unat b * payload)"
proof -
  define w where "w = (of_nat payload :: u64)"
  have p: "unat w = payload" unfolding w_def unat_of_nat by (rule mod_less) (use assms(2) in simp)
  have lt: "(2 :: nat) ^ 63 < 2 ^ LENGTH(64)" by simp
  have "unat b * unat w < 2 ^ LENGTH(64)" unfolding p using small lt by linarith
  from checked_mul_Some [OF this] p have m: "checked_mul b w = Some (b * w)" "unat (b * w) = unat b * payload" by auto
  have "unat s + unat (b * w) < 2 ^ LENGTH(64)" unfolding m(2) using small lt by linarith
  from checked_add_Some [OF this] m(2)
  have c: "checked_add s (b * w) = Some (s + b * w)" "unat (s + b * w) = unat s + unat b * payload" by auto
  have "as_i64 (s + b * w) = int (unat s + unat b * payload)"
    unfolding as_i64_def c(2) [symmetric] by (rule sint_small) (use c(2) small in linarith)
  with m(1) c(1) show ?thesis by (simp add: w_def)
qed

text \<open>When the full charge fits, every kind of undesirability is a non-negative number below it.\<close>

definition undesirability_value :: "node_record \<Rightarrow> nat \<Rightarrow> undesirability_type \<Rightarrow> nat" where
  "undesirability_value nr payload_size utype =
     (let rp = inner_rate_pack (inner nr);
          routing = unat (routing_service_rate rp) + unat (routing_byte_rate rp) * payload_size;
          exit = unat (exit_service_rate rp) + unat (exit_byte_rate rp) * payload_size;
          country = unat (country_undesirability (metadata nr))
      in case utype of
           Relay \<Rightarrow> routing
         | ExitRequest None \<Rightarrow> exit + country
         | ExitRequest (Some h) \<Rightarrow> exit + (if h |\<in>| unreachable_hosts (metadata nr) then 100000000 else 0) + country
         | ExitAndRouteResponse \<Rightarrow> exit + routing)"

lemma undesirability_value_bound: "undesirability_value nr payload utype \<le> full_charge nr payload"
  by (simp add: undesirability_value_def full_charge_def Let_def split: undesirability_type.split option.split)

lemma i64_add_nat: "a + b < 2 ^ 63 \<Longrightarrow> i64_add (int a) (int b) = Some (int (a + b))"
proof -
  assume "a + b < 2 ^ 63"
  then have "int (a + b) < int (2 ^ 63)" by (simp only: of_nat_less_iff)
  then show ?thesis by (simp add: i64_add_def i64_ok_def)
qed

lemma compute_undesirability_value:
  assumes small: "full_charge nr payload < 2 ^ 63" and "payload < 2 ^ 63"
  shows "compute_undesirability nr (of_nat payload) utype = Some (int (undesirability_value nr payload utype))"
proof -
  define rp where "rp = inner_rate_pack (inner nr)"
  define routing where "routing = unat (routing_service_rate rp) + unat (routing_byte_rate rp) * payload"
  define exit where "exit = unat (exit_service_rate rp) + unat (exit_byte_rate rp) * payload"
  define country where "country = unat (country_undesirability (metadata nr))"
  have sum: "exit + routing + 100000000 + country < 2 ^ 63"
    using small by (simp only: full_charge_def exit_def routing_def country_def rp_def add.assoc)
  obtain r where r: "routing_charge rp (of_nat payload) = Some r" "as_i64 r = int routing"
    using charge_value [of "routing_service_rate rp" "routing_byte_rate rp" payload] assms(2) sum
    unfolding routing_charge_def routing_def [symmetric] by (auto simp del: of_nat_add)
  obtain e where e: "exit_charge rp (of_nat payload) = Some e" "as_i64 e = int exit"
    using charge_value [of "exit_service_rate rp" "exit_byte_rate rp" payload] assms(2) sum
    unfolding exit_charge_def exit_def [symmetric] by (auto simp del: of_nat_add)
  have c: "uint (country_undesirability (metadata nr)) = int country" by (simp add: country_def)
  have pen: "UNREACHABLE_HOST_PENALTY = int 100000000" by (simp add: UNREACHABLE_HOST_PENALTY_def)
  have a: "i64_add (int exit) (int country) = Some (int (exit + country))"
    "i64_add (int exit) (int routing) = Some (int (exit + routing))"
    "i64_add (int exit) (int 100000000) = Some (int (exit + 100000000))"
    "i64_add (int exit) (int 0) = Some (int (exit + 0))"
    "i64_add (int (exit + 100000000)) (int country) = Some (int (exit + 100000000 + country))"
    by (rule i64_add_nat; use sum in linarith)+
  show ?thesis
    unfolding compute_undesirability_def undesirability_value_def Let_def c pen rp_def [symmetric] routing_def [symmetric]
      exit_def [symmetric] country_def [symmetric]
    by (auto simp: r e a(1,2,3,5) a(4) [simplified] simp del: of_nat_add of_nat_numeral split: undesirability_type.split option.split)
qed

end
