(* ===== verification/Routing.thy ===== *)
theory Routing
  imports Exit_Preferences
begin

text \<open>
  Model of the routing engine of \<open>node/src/neighborhood/mod.rs\<close>:
  \<open>find_best_route_segment\<close>, \<open>find_exit_locations\<close> and the search behind them, a
  depth-first search that threads the least undesirability found so far and, in research
  mode, the exits found so far.  The arguments that stay the same during a search are
  the fields of a record.  The neighbors of a Node are tried in the order in which the
  hash set built at that point of the search is iterated: \<open>rs_order prefix\<close>.
\<close>

section \<open>The search\<close>

datatype route_direction = Over | Back

record route_search =
  rs_db :: neighborhood_database
  rs_prefs :: user_exit_preferences
  rs_order :: "public_key list \<Rightarrow> public_key fset \<Rightarrow> public_key list"
  rs_target_opt :: "public_key option"
  rs_payload_size :: nat
  rs_direction :: route_direction
  rs_hostname_opt :: "string option"
  rs_research :: bool

record computed_route_segment =
  seg_nodes :: "public_key list"
  seg_undesirability :: int

definition route_length_qualifies :: "nat \<Rightarrow> bool" where
  "route_length_qualifies hops_remaining \<longleftrightarrow> hops_remaining = 0"

definition last_key_qualifies :: "node_record \<Rightarrow> public_key option \<Rightarrow> bool" where
  "last_key_qualifies last_node target_opt =
     (case target_opt of
        Some target_key \<Rightarrow> public_key last_node = target_key
      | None \<Rightarrow> True)"

definition validate_last_node_not_too_close_to_first_node :: "neighborhood_database \<Rightarrow> nat \<Rightarrow> public_key \<Rightarrow> public_key \<Rightarrow> bool" where
  "validate_last_node_not_too_close_to_first_node db prefix_len first_node_key candidate_node_key =
     (if prefix_len \<le> 2 then True else \<not> has_half_neighbor db candidate_node_key first_node_key)"

fun no_db_country_preferred :: "user_exit_preferences \<Rightarrow> string \<Rightarrow> string list \<Rightarrow> bool" where
  "no_db_country_preferred prefs last_cc [] = True"
| "no_db_country_preferred prefs last_cc (country # countries) =
     (if country \<in> set (db_countries prefs) \<and> country \<noteq> last_cc then False
      else no_db_country_preferred prefs last_cc countries)"

definition validate_country_code_when_fallback_routing :: "neighborhood_database \<Rightarrow> user_exit_preferences \<Rightarrow> public_key \<Rightarrow> bool" where
  "validate_country_code_when_fallback_routing db prefs last_node =
     (let last_cc = (case node_by_key db last_node of
            Some nr \<Rightarrow> (case inner_country_code_opt (inner nr) of Some c \<Rightarrow> c | None \<Rightarrow> ''ZZ'')
          | None \<Rightarrow> ''ZZ'')
      in if last_cc \<in> set (exit_countries prefs) then True
         else if exit_countries prefs = [] then True
         else no_db_country_preferred prefs last_cc (exit_countries prefs))"

definition is_fallback_and_last_node_qualifies :: "neighborhood_database \<Rightarrow> user_exit_preferences \<Rightarrow> public_key \<Rightarrow> bool" where
  "is_fallback_and_last_node_qualifies db prefs last_node_key \<longleftrightarrow>
     fallback_preference prefs = ExitCountryWithFallback \<and>
     validate_country_code_when_fallback_routing db prefs last_node_key"

definition last_node_is_always_true :: "route_search \<Rightarrow> public_key \<Rightarrow> bool" where
  "last_node_is_always_true rs last_node_key \<longleftrightarrow>
     fallback_preference (rs_prefs rs) = Nothing \<or>
     is_fallback_and_last_node_qualifies (rs_db rs) (rs_prefs rs) last_node_key \<or>
     rs_research rs \<or> rs_direction rs = Back"

definition validate_last_node_country_code :: "route_search \<Rightarrow> public_key \<Rightarrow> bool" where
  "validate_last_node_country_code rs last_node_key =
     (if last_node_is_always_true rs last_node_key then True
      else (case node_by_key (rs_db rs) last_node_key of
              Some nr \<Rightarrow> (case inner_country_code_opt (inner nr) of
                  Some code \<Rightarrow> code \<in> set (exit_countries (rs_prefs rs))
                | None \<Rightarrow> False)
            | None \<Rightarrow> False))"

definition is_orig_node_on_back_leg :: "node_record \<Rightarrow> public_key option \<Rightarrow> route_direction \<Rightarrow> bool" where
  "is_orig_node_on_back_leg node target_opt direction =
     (case direction of
        Over \<Rightarrow> False
      | Back \<Rightarrow> (case target_opt of None \<Rightarrow> False | Some target_key \<Rightarrow> public_key node = target_key))"

definition undesirability_type_for :: "route_search \<Rightarrow> nat \<Rightarrow> undesirability_type" where
  "undesirability_type_for rs hops_remaining =
     (case (rs_direction rs, rs_target_opt rs) of
        (Over, None) \<Rightarrow> if hops_remaining = 0 then ExitRequest (rs_hostname_opt rs) else Relay
      | (Over, Some _) \<Rightarrow> Relay
      | (Back, _) \<Rightarrow> Relay)"

definition compute_new_undesirability :: "route_search \<Rightarrow> node_record \<Rightarrow> int \<Rightarrow> nat \<Rightarrow> int option" where
  "compute_new_undesirability rs nr undesirability hops_remaining = do {
     node_undesirability \<leftarrow> compute_undesirability nr (of_nat (rs_payload_size rs)) (undesirability_type_for rs hops_remaining);
     i64_add undesirability node_undesirability }"

definition compute_initial_undesirability :: "route_search \<Rightarrow> public_key \<Rightarrow> int option" where
  "compute_initial_undesirability rs key =
     (if rs_direction rs = Over then Some 0
      else do {
        nr \<leftarrow> node_by_key (rs_db rs) key;
        compute_undesirability nr (of_nat (rs_payload_size rs)) ExitAndRouteResponse })"

text \<open>The three qualifications that end a route.\<close>

definition route_qualifies :: "route_search \<Rightarrow> public_key list \<Rightarrow> nat \<Rightarrow> node_record \<Rightarrow> bool" where
  "route_qualifies rs prefix hops_remaining previous \<longleftrightarrow>
     route_length_qualifies hops_remaining \<and> last_key_qualifies previous (rs_target_opt rs) \<and>
     validate_last_node_not_too_close_to_first_node (rs_db rs) (length prefix) (hd prefix) (public_key previous)"

definition route_exhausted :: "route_search \<Rightarrow> nat \<Rightarrow> bool" where
  "route_exhausted rs hops_remaining \<longleftrightarrow>
     hops_remaining = 0 \<and> rs_target_opt rs = None \<and> \<not> rs_research rs \<and>
     (fallback_preference (rs_prefs rs) = Nothing \<or> exit_countries (rs_prefs rs) = [])"

definition next_hop_ok :: "route_search \<Rightarrow> public_key list \<Rightarrow> node_record \<Rightarrow> bool" where
  "next_hop_ok rs prefix nr \<longleftrightarrow> public_key nr \<notin> set prefix \<and>
     (routes_data nr \<or> is_orig_node_on_back_leg nr (rs_target_opt rs) (rs_direction rs))"

type_synonym search_state = "int \<times> public_key list"

text \<open>
  The search terminates on every database: each hop adds to the prefix a key that was
  not in it, and a key outside the database ends the search at once.
\<close>

definition unvisited :: "route_search \<Rightarrow> public_key list \<Rightarrow> nat" where
  "unvisited rs prefix = card (fset (keys (rs_db rs)) - set prefix)"

lemma unvisited_append_le: "unvisited rs (prefix @ [k]) \<le> unvisited rs prefix"
  unfolding unvisited_def by (rule card_mono) auto

lemma unvisited_append_less:
  assumes "node_by_key (rs_db rs) k = Some nr" "k \<notin> set prefix"
  shows "unvisited rs (prefix @ [k]) < unvisited rs prefix"
proof -
  have "k \<in> fset (keys (rs_db rs)) - set prefix" using assms keys_iff by blast
  then show ?thesis unfolding unvisited_def by (intro psubset_card_mono) auto
qed

definition search_measure :: "(route_search \<times> public_key list \<times> int \<times> nat \<times> search_state) +
    (route_search \<times> public_key list \<times> int \<times> nat \<times> node_record \<times> search_state) +
    (route_search \<times> public_key list \<times> int \<times> nat \<times> node_record list \<times> search_state) \<Rightarrow> nat \<times> nat" where
  "search_measure x =
     (case x of
        Inl (rs, prefix, _) \<Rightarrow> (5 * unvisited rs prefix + (if node_by_key (rs_db rs) (last prefix) = None then 0 else 3), 0)
      | Inr (Inl (rs, prefix, _)) \<Rightarrow> (5 * unvisited rs prefix + 2, 0)
      | Inr (Inr (rs, prefix, _, _, nrs, _)) \<Rightarrow> (5 * unvisited rs prefix + 1, length nrs))"

lemma search_measure_hop:
  assumes "next_hop_ok rs prefix nr"
  shows "5 * unvisited rs (prefix @ [public_key nr]) + (if node_by_key (rs_db rs) (public_key nr) = None then 0 else 3)
     < 5 * unvisited rs prefix + 1"
proof (cases "node_by_key (rs_db rs) (public_key nr)")
  case None
  then show ?thesis using unvisited_append_le [of rs prefix "public_key nr"] by simp
next
  case (Some nr')
  with assms have "unvisited rs (prefix @ [public_key nr]) < unvisited rs prefix"
    by (auto intro: unvisited_append_less simp: next_hop_ok_def)
  with Some show ?thesis by simp
qed

function (sequential) routing_engine ::
    "route_search \<Rightarrow> public_key list \<Rightarrow> int \<Rightarrow> nat \<Rightarrow> search_state \<Rightarrow> (computed_route_segment list \<times> search_state) option"
  and routing_guts ::
    "route_search \<Rightarrow> public_key list \<Rightarrow> int \<Rightarrow> nat \<Rightarrow> node_record \<Rightarrow> search_state \<Rightarrow> (computed_route_segment list \<times> search_state) option"
  and routing_flat_map ::
    "route_search \<Rightarrow> public_key list \<Rightarrow> int \<Rightarrow> nat \<Rightarrow> node_record list \<Rightarrow> search_state \<Rightarrow> (computed_route_segment list \<times> search_state) option"
where
  "routing_engine rs prefix undesirability hops_remaining (minimum, exits) =
     (if minimum < undesirability \<and> \<not> rs_research rs then Some ([], minimum, exits)
      else if prefix = [] then None
      else (case node_by_key (rs_db rs) (last prefix) of
         None \<Rightarrow> None
       | Some previous \<Rightarrow>
           if route_qualifies rs prefix hops_remaining previous then
             (if \<not> rs_research rs \<and> validate_last_node_country_code rs (public_key previous) then
                Some ([\<lparr>seg_nodes = prefix, seg_undesirability = undesirability\<rparr>],
                      (if undesirability < minimum then undesirability else minimum), exits)
              else if rs_research rs \<and> last prefix \<in> set exits then Some ([], minimum, exits)
              else routing_guts rs prefix undesirability hops_remaining previous
                     (minimum, if rs_research rs then exits @ [last prefix] else exits))
           else if route_exhausted rs hops_remaining then Some ([], minimum, exits)
           else routing_guts rs prefix undesirability hops_remaining previous (minimum, exits)))"
| "routing_guts rs prefix undesirability hops_remaining previous st =
     do {
       nrs \<leftarrow> full_neighbors (rs_order rs prefix) previous (rs_db rs);
       routing_flat_map rs prefix undesirability hops_remaining nrs st }"
| "routing_flat_map rs prefix undesirability hops_remaining [] st = Some ([], st)"
| "routing_flat_map rs prefix undesirability hops_remaining (nr # nrs) st =
     (if \<not> next_hop_ok rs prefix nr then routing_flat_map rs prefix undesirability hops_remaining nrs st
      else do {
        let new_hops_remaining = hops_remaining - 1;
        new_undesirability \<leftarrow> compute_new_undesirability rs nr undesirability new_hops_remaining;
        (segments, st) \<leftarrow> routing_engine rs (prefix @ [public_key nr]) new_undesirability new_hops_remaining st;
        (rest, st) \<leftarrow> routing_flat_map rs prefix undesirability hops_remaining nrs st;
        Some (segments @ rest, st) })"
  by pat_completeness auto

termination
  by (relation "inv_image (less_than <*lex*> less_than) search_measure")
    (use search_measure_hop in \<open>auto simp: search_measure_def\<close>)

section \<open>Entry points\<close>

definition find_exit_locations :: "neighborhood_database \<Rightarrow> user_exit_preferences \<Rightarrow> (public_key list \<Rightarrow> public_key fset \<Rightarrow> public_key list) \<Rightarrow>
    public_key \<Rightarrow> nat \<Rightarrow> public_key list option" where
  "find_exit_locations db prefs order source minimum_hops =
     (let rs = \<lparr>rs_db = db, rs_prefs = prefs, rs_order = order, rs_target_opt = None, rs_payload_size = 0,
                rs_direction = Over, rs_hostname_opt = None, rs_research = True\<rparr>
      in do {
        (_, _, research_exits) \<leftarrow> routing_engine rs [source] 0 minimum_hops (I64_MAX, []);
        Some research_exits })"

fun first_within :: "int \<Rightarrow> computed_route_segment list \<Rightarrow> public_key list option" where
  "first_within minimum [] = None"
| "first_within minimum (cr # crs) = (if seg_undesirability cr \<le> minimum then Some (seg_nodes cr) else first_within minimum crs)"

definition best_route_search :: "neighborhood_database \<Rightarrow> user_exit_preferences \<Rightarrow> (public_key list \<Rightarrow> public_key fset \<Rightarrow> public_key list) \<Rightarrow>
    public_key option \<Rightarrow> nat \<Rightarrow> route_direction \<Rightarrow> string option \<Rightarrow> route_search" where
  "best_route_search db prefs order target_opt payload_size direction hostname_opt =
     \<lparr>rs_db = db, rs_prefs = prefs, rs_order = order, rs_target_opt = target_opt, rs_payload_size = payload_size,
      rs_direction = direction, rs_hostname_opt = hostname_opt, rs_research = False\<rparr>"

definition find_best_route_segment :: "neighborhood_database \<Rightarrow> user_exit_preferences \<Rightarrow> (public_key list \<Rightarrow> public_key fset \<Rightarrow> public_key list) \<Rightarrow>
    public_key \<Rightarrow> public_key option \<Rightarrow> nat \<Rightarrow> nat \<Rightarrow> route_direction \<Rightarrow> string option \<Rightarrow> public_key list option option" where
  "find_best_route_segment db prefs order source target_opt minimum_hops payload_size direction hostname_opt =
     (let rs = best_route_search db prefs order target_opt payload_size direction hostname_opt
      in do {
        initial_undesirability \<leftarrow> compute_initial_undesirability rs source;
        (segments, minimum_undesirability, _) \<leftarrow> routing_engine rs [source] initial_undesirability minimum_hops (I64_MAX, []);
        Some (first_within minimum_undesirability segments) })"

end
