(* ===== verification/Gossip.thy ===== *)
theory Gossip
  imports Neighborhood_Database
begin

text \<open>
  Model of the gossip the neighborhood sends: \<open>node/src/neighborhood/gossip.rs\<close> without
  its graph rendering, and \<open>gossip_producer.rs\<close>.  A reading of the clock is an argument;
  \<open>order\<close> is the order in which a hash set of keys is iterated.
\<close>

section \<open>Gossip records\<close>

record gossip_node_record =
  gnr_signed_data :: "u8 list"
  gnr_signature :: "u8 list"
  gnr_node_addr_opt :: "node_addr option"

type_synonym gossip = "gossip_node_record list"

definition gnr_from_record :: "node_record \<Rightarrow> gossip_node_record" where
  "gnr_from_record nr = \<lparr>gnr_signed_data = signed_gossip nr, gnr_signature = signature nr,
     gnr_node_addr_opt = meta_node_addr_opt (metadata nr)\<rparr>"

definition gnr_from_agr :: "accessible_gossip_record \<Rightarrow> gossip_node_record" where
  "gnr_from_agr agr = \<lparr>gnr_signed_data = agr_signed_gossip agr, gnr_signature = agr_signature agr,
     gnr_node_addr_opt = agr_node_addr_opt agr\<rparr>"

definition gnr_from_inner :: "crypt_ops \<Rightarrow> node_record_inner \<Rightarrow> node_addr option \<Rightarrow> gossip_node_record option" where
  "gnr_from_inner crypt inr addr_opt = do {
     let signed_data = cbor_to_vec crypt inr;
     sig \<leftarrow> crypt_sign crypt signed_data;
     Some \<lparr>gnr_signed_data = signed_data, gnr_signature = sig, gnr_node_addr_opt = addr_opt\<rparr> }"

definition gnr_from_db :: "neighborhood_database \<Rightarrow> public_key \<Rightarrow> bool \<Rightarrow> gossip_node_record option" where
  "gnr_from_db db key reveal_node_addr = do {
     nr \<leftarrow> node_by_key db key;
     let gnr = gnr_from_record nr;
     Some (if \<not> reveal_node_addr then gnr\<lparr>gnr_node_addr_opt := None\<rparr> else gnr) }"

definition agr_try_from :: "crypt_ops \<Rightarrow> gossip_node_record \<Rightarrow> accessible_gossip_record option" where
  "agr_try_from crypt gnr =
     (case cbor_from_slice crypt (gnr_signed_data gnr) of
        Some inr \<Rightarrow> Some \<lparr>agr_signed_gossip = gnr_signed_data gnr, agr_signature = gnr_signature gnr,
          agr_node_addr_opt = gnr_node_addr_opt gnr, agr_inner = inr\<rparr>
      | None \<Rightarrow> None)"

definition agr_regenerate_signed_gossip :: "crypt_ops \<Rightarrow> accessible_gossip_record \<Rightarrow> accessible_gossip_record option" where
  "agr_regenerate_signed_gossip crypt agr = do {
     (gossip, sig) \<leftarrow> regenerate_signed_gossip crypt (agr_inner agr);
     Some (agr\<lparr>agr_signed_gossip := gossip, agr_signature := sig\<rparr>) }"

definition gossip_try_into :: "crypt_ops \<Rightarrow> gossip \<Rightarrow> accessible_gossip_record list option" where
  "gossip_try_into crypt node_records = those (map (agr_try_from crypt) node_records)"

definition record_try_from_gnr :: "crypt_ops \<Rightarrow> country_code_finder \<Rightarrow> u32 \<Rightarrow> gossip_node_record \<Rightarrow> (unit + node_record) option" where
  "record_try_from_gnr crypt finder now gnr =
     (case cbor_from_slice crypt (gnr_signed_data gnr) of
        None \<Rightarrow> Some (Inl ())
      | Some inr \<Rightarrow> do {
          let ip_addr_opt = map_option addr_ip (gnr_node_addr_opt gnr);
          loc \<leftarrow> get_node_location finder ip_addr_opt;
          Some (Inr \<lparr>inner = inr,
            metadata = (metadata_new now)\<lparr>node_location_opt := loc, meta_node_addr_opt := gnr_node_addr_opt gnr\<rparr>,
            signed_gossip = gnr_signed_data gnr, signature = gnr_signature gnr\<rparr>) })"

section \<open>The builder\<close>

record gossip_builder =
  builder_db :: neighborhood_database
  builder_gossip :: gossip
  keys_so_far :: "public_key fset"

definition builder_new :: "neighborhood_database \<Rightarrow> gossip_builder" where
  "builder_new db = \<lparr>builder_db = db, builder_gossip = [], keys_so_far = {||}\<rparr>"

definition builder_node :: "public_key \<Rightarrow> bool \<Rightarrow> gossip_builder \<Rightarrow> gossip_builder option" where
  "builder_node key reveal_node_addr b =
     (if key |\<in>| keys_so_far b then None
      else (case node_by_key (builder_db b) key of
              None \<Rightarrow> None
            | Some nr \<Rightarrow>
                let gnr = gnr_from_record nr;
                    gnr = (if \<not> reveal_node_addr \<or> \<not> accepts_connections nr
                           then gnr\<lparr>gnr_node_addr_opt := None\<rparr> else gnr)
                in Some (b\<lparr>builder_gossip := builder_gossip b @ [gnr],
                           keys_so_far := finsert (public_key nr) (keys_so_far b)\<rparr>)))"

definition builder_build :: "gossip_builder \<Rightarrow> gossip" where
  "builder_build b = builder_gossip b"

section \<open>The producer\<close>

definition DEAD_NODE_CHECK_INTERVAL_SECS :: u32 where
  "DEAD_NODE_CHECK_INTERVAL_SECS = 60"

record gossip_producer =
  last_dead_node_check :: u32

definition producer_new :: "u32 \<Rightarrow> gossip_producer" where
  "producer_new now = \<lparr>last_dead_node_check = now\<rparr>"

fun produce_fold :: "neighborhood_database \<Rightarrow> node_record \<Rightarrow> node_record list \<Rightarrow> gossip_builder \<Rightarrow> gossip_builder option" where
  "produce_fold db target_node [] so_far = Some so_far"
| "produce_fold db target_node (nr # nrs) so_far = do {
     rt \<leftarrow> root db;
     let reveal_node_addr = (accepts_connections nr \<and>
       (public_key nr = public_key rt \<or> record_has_half_neighbor target_node (public_key nr)));
     so_far \<leftarrow> builder_node (public_key nr) reveal_node_addr so_far;
     produce_fold db target_node nrs so_far }"

text \<open>The three readings of the clock: for the check, in \<open>cull_dead_nodes\<close>, and for the new time of the check.\<close>

definition produce_check :: "u32 \<times> u32 \<times> u32 \<Rightarrow> gossip_producer \<Rightarrow> neighborhood_database \<Rightarrow> (gossip_producer \<times> neighborhood_database) option" where
  "produce_check clock producer db =
     (case clock of (now, now_cull, now_set) \<Rightarrow> do {
        elapsed \<leftarrow> checked_sub now (last_dead_node_check producer);
        if DEAD_NODE_CHECK_INTERVAL_SECS \<le> elapsed then do {
          db \<leftarrow> cull_dead_nodes now_cull db;
          Some (producer\<lparr>last_dead_node_check := now_set\<rparr>, db) }
        else Some (producer, db) })"

definition produce :: "(public_key fset \<Rightarrow> public_key list) \<Rightarrow> u32 \<times> u32 \<times> u32 \<Rightarrow> gossip_producer \<Rightarrow> neighborhood_database \<Rightarrow> public_key \<Rightarrow>
    (gossip option \<times> gossip_producer \<times> neighborhood_database) option" where
  "produce order clock producer db target = do {
     (producer, db) \<leftarrow> produce_check clock producer db;
     (case node_by_key db target of
        None \<Rightarrow> Some (None, producer, db)
      | Some target_node \<Rightarrow> do {
          referenced_keys \<leftarrow> referenced_node_keys db;
          let ks = filter (\<lambda>k. k |\<in>| referenced_keys) (filter (\<lambda>k. k \<noteq> target) (order (keys db)));
          let nrs = List.map_filter (node_by_key db) ks;
          builder \<leftarrow> produce_fold db target_node nrs (builder_new db);
          Some (Some (builder_build builder), producer, db) }) }"

definition produce_debut :: "neighborhood_database \<Rightarrow> gossip option" where
  "produce_debut db = do {
     rt \<leftarrow> root db;
     b \<leftarrow> builder_node (public_key rt) True (builder_new db);
     Some (builder_build b) }"

section \<open>What is produced\<close>

text \<open>The record of a Node in the gossip, with or without its address.\<close>

definition gossip_entry :: "bool \<Rightarrow> node_record \<Rightarrow> gossip_node_record" where
  "gossip_entry reveal nr = \<lparr>gnr_signed_data = signed_gossip nr, gnr_signature = signature nr,
     gnr_node_addr_opt = (if reveal then node_addr_opt nr else None)\<rparr>"

definition may_reveal :: "neighborhood_database \<Rightarrow> node_record \<Rightarrow> node_record \<Rightarrow> bool" where
  "may_reveal db target_node nr \<longleftrightarrow> accepts_connections nr \<and>
     (public_key nr = this_node db \<or> record_has_half_neighbor target_node (public_key nr))"

lemma builder_node_entry:
  assumes "node_by_key (builder_db b) k = Some nr" "k |\<notin>| keys_so_far b"
  shows "builder_node k reveal b = Some (b\<lparr>builder_gossip := builder_gossip b @ [gossip_entry (reveal \<and> accepts_connections nr) nr],
     keys_so_far := finsert (public_key nr) (keys_so_far b)\<rparr>)"
  using assms by (simp add: builder_node_def gossip_entry_def gnr_from_record_def node_addr_opt_def)

lemma produce_fold_entries:
  assumes ok: "db_ok db" and "builder_db b = db"
    and "\<And>nr. nr \<in> set nrs \<Longrightarrow> node_by_key db (public_key nr) = Some nr"
    and "distinct (map public_key nrs)" "\<And>nr. nr \<in> set nrs \<Longrightarrow> public_key nr |\<notin>| keys_so_far b"
  shows "\<exists>b'. produce_fold db target_node nrs b = Some b' \<and>
     builder_gossip b' = builder_gossip b @ map (\<lambda>nr. gossip_entry (may_reveal db target_node nr) nr) nrs"
  using assms(2-)
proof (induction nrs arbitrary: b)
  case (Cons nr nrs)
  obtain rt where rt: "root db = Some rt" "public_key rt = this_node db" using db_ok_root [OF ok] by blast
  define r where "r \<longleftrightarrow> accepts_connections nr \<and>
     (public_key nr = public_key rt \<or> record_has_half_neighbor target_node (public_key nr))"
  define b1 where "b1 = b\<lparr>builder_gossip := builder_gossip b @ [gossip_entry (r \<and> accepts_connections nr) nr],
     keys_so_far := finsert (public_key nr) (keys_so_far b)\<rparr>"
  have "builder_node (public_key nr) r b = Some b1"
    unfolding b1_def using Cons.prems by (intro builder_node_entry) auto
  moreover have "\<exists>b'. produce_fold db target_node nrs b1 = Some b' \<and>
      builder_gossip b' = builder_gossip b1 @ map (\<lambda>nr. gossip_entry (may_reveal db target_node nr) nr) nrs"
    by (rule Cons.IH) (use Cons.prems in \<open>auto simp: b1_def image_iff\<close>)
  moreover have "r \<and> accepts_connections nr \<longleftrightarrow> may_reveal db target_node nr" using rt by (auto simp: r_def may_reveal_def)
  ultimately show ?case using rt by (auto simp: r_def b1_def)
qed simp

lemma map_filter_records:
  assumes "db_ok db" "distinct ks"
  shows "set (List.map_filter (node_by_key db) ks) = {nr. \<exists>k \<in> set ks. node_by_key db k = Some nr}"
    "distinct (map public_key (List.map_filter (node_by_key db) ks))"
proof -
  show set: "set (List.map_filter (node_by_key db) ks) = {nr. \<exists>k \<in> set ks. node_by_key db k = Some nr}" for ks
    by (induction ks) (auto simp: List.map_filter_simps split: option.splits)
  show "distinct (map public_key (List.map_filter (node_by_key db) ks))"
    using assms(2)
  proof (induction ks)
    case (Cons k ks)
    then show ?case using set [of ks] db_ok_key [OF assms(1)]
      by (cases "node_by_key db k") (auto simp: List.map_filter_simps)
  qed (simp add: List.map_filter_simps)
qed

lemma produce_entries:
  fixes target :: public_key
  assumes ok: "db_ok db" and order: "\<forall>S. fset_of_list (order S) = S \<and> distinct (order S)"
    and ks: "referenced_node_keys db = Some refs"
  defines "nrs \<equiv> List.map_filter (node_by_key db) (filter (\<lambda>k. k |\<in>| refs) (filter (\<lambda>k. k \<noteq> target) (order (keys db))))"
  shows "\<exists>b. produce_fold db target_node nrs (builder_new db) = Some b \<and>
     builder_build b = map (\<lambda>nr. gossip_entry (may_reveal db target_node nr) nr) nrs \<and>
     set nrs = {nr. \<exists>k. node_by_key db k = Some nr \<and> k \<noteq> target \<and> k |\<in>| refs}"
proof -
  have dist: "distinct (filter (\<lambda>k. k |\<in>| refs) (filter (\<lambda>k. k \<noteq> target) (order (keys db))))" using order by simp
  have "set (order (keys db)) = fset (keys db)" using order by (metis fset_of_list.rep_eq)
  then have set: "set nrs = {nr. \<exists>k. node_by_key db k = Some nr \<and> k \<noteq> target \<and> k |\<in>| refs}"
    unfolding nrs_def map_filter_records(1) [OF ok dist] using keys_iff [of _ db] by auto
  have "\<exists>b. produce_fold db target_node nrs (builder_new db) = Some b \<and>
     builder_gossip b = builder_gossip (builder_new db) @ map (\<lambda>nr. gossip_entry (may_reveal db target_node nr) nr) nrs"
    using map_filter_records(2) [OF ok dist, folded nrs_def] set db_ok_key [OF ok]
    by (intro produce_fold_entries [OF ok]) (auto simp: builder_new_def)
  with set show ?thesis by (auto simp: builder_new_def builder_build_def)
qed

lemma produce_check_ok:
  assumes "db_ok db" "last_dead_node_check producer \<le> now" "ISOLATED_NODE_GRACE_PERIOD_SECS \<le> now_cull"
  shows "\<exists>producer' db'. produce_check (now, now_cull, now_set) producer db = Some (producer', db') \<and> db_ok db'"
proof -
  obtain refs where "referenced_node_keys db = Some refs" by (rule referenced_node_keys_spec [OF assms(1)])
  with assms(3) obtain db' where "cull_dead_nodes now_cull db = Some db'" by (simp add: cull_dead_nodes_def checked_sub_def)
  with assms cull_dead_nodes_spec(1) [OF assms(1)] show ?thesis by (auto simp: produce_check_def checked_sub_def)
qed



end
