(* ===== verification/Connection_Status.thy ===== *)
theory Connection_Status
  imports Node_Record
begin

text \<open>
  Model of \<open>node/src/neighborhood/overall_connection_status.rs\<close>: how far the Node has come
  with each of the neighbors it was configured with, and overall.  A mutable reference
  to an element of the list is the element's index.  \<^term>\<open>None\<close> is a panic, an \<open>Err\<close> is a
  value of \<open>status_error\<close>.
\<close>

section \<open>One connection\<close>

datatype connection_stage_errors = ErrTcpConnectionFailed | ErrNoGossipResponseReceived | ErrPassLoopFound

datatype connection_stage =
    StageZero
  | TcpConnectionEstablished
  | NeighborshipEstablished
  | Failed connection_stage_errors

fun stage_number :: "connection_stage \<Rightarrow> nat option" where
  "stage_number StageZero = Some 0"
| "stage_number TcpConnectionEstablished = Some 1"
| "stage_number NeighborshipEstablished = Some 2"
| "stage_number (Failed _) = None"

record connection_progress =
  initial_node_descriptor :: node_descriptor
  current_peer_addr :: ip_addr
  connection_stage :: connection_stage

definition progress_new :: "node_descriptor \<Rightarrow> connection_progress option" where
  "progress_new descriptor = do {
     peer_addr \<leftarrow> map_option addr_ip (desc_node_addr_opt descriptor);
     Some \<lparr>initial_node_descriptor = descriptor, current_peer_addr = peer_addr, connection_stage = StageZero\<rparr> }"

definition update_stage :: "connection_progress \<Rightarrow> connection_stage \<Rightarrow> connection_progress option" where
  "update_stage progress new_stage =
     (case (stage_number (connection_stage progress), stage_number new_stage) of
        (Some current_stage_num, Some new_stage_num) \<Rightarrow>
          if new_stage_num \<noteq> current_stage_num + 1 then None
          else Some (progress\<lparr>connection_stage := new_stage\<rparr>)
      | _ \<Rightarrow> Some (progress\<lparr>connection_stage := new_stage\<rparr>))"

definition handle_pass_gossip :: "connection_progress \<Rightarrow> ip_addr \<Rightarrow> connection_progress option" where
  "handle_pass_gossip progress new_pass_target =
     (case connection_stage progress of
        StageZero \<Rightarrow> Some (progress\<lparr>connection_stage := StageZero, current_peer_addr := new_pass_target\<rparr>)
      | TcpConnectionEstablished \<Rightarrow>
          Some (progress\<lparr>connection_stage := StageZero, current_peer_addr := new_pass_target\<rparr>)
      | _ \<Rightarrow> None)"

section \<open>All connections\<close>

datatype overall_connection_stage = NotConnected | ConnectedToNeighbor | RouteFound

datatype ui_connection_stage = UiNotConnected | UiConnectedToNeighbor | UiRouteFound

fun ui_stage_from :: "overall_connection_stage \<Rightarrow> ui_connection_stage" where
  "ui_stage_from NotConnected = UiNotConnected"
| "ui_stage_from ConnectedToNeighbor = UiConnectedToNeighbor"
| "ui_stage_from RouteFound = UiRouteFound"

record overall_connection_status =
  ocs_stage :: overall_connection_stage
  ocs_progress :: "connection_progress list"

datatype connection_progress_event =
    TcpConnectionSuccessful
  | TcpConnectionFailed
  | NoGossipResponseReceived
  | PassLoopFound
  | StandardGossipReceived
  | IntroductionGossipReceived ip_addr
  | PassGossipReceived ip_addr

record connection_progress_message =
  cpm_peer_addr :: ip_addr
  cpm_event :: connection_progress_event

datatype status_error =
    UnknownIpAddress ip_addr
  | UnknownDescriptor node_descriptor
  | PassTargetDuplicate ip_addr
  | NoPeerFound ip_addr

definition status_new :: "node_descriptor list \<Rightarrow> overall_connection_status option" where
  "status_new initial_node_descriptors = do {
     progress \<leftarrow> those (map progress_new initial_node_descriptors);
     Some \<lparr>ocs_stage = NotConnected, ocs_progress = progress\<rparr> }"

definition iter_initial_node_descriptors :: "overall_connection_status \<Rightarrow> node_descriptor list" where
  "iter_initial_node_descriptors ocs = map initial_node_descriptor (ocs_progress ocs)"

definition get_connection_progress_by_ip :: "overall_connection_status \<Rightarrow> ip_addr \<Rightarrow> status_error + nat" where
  "get_connection_progress_by_ip ocs peer_addr =
     (case find_position (\<lambda>progress. current_peer_addr progress = peer_addr) (ocs_progress ocs) of
        Some i \<Rightarrow> Inr i
      | None \<Rightarrow> Inl (UnknownIpAddress peer_addr))"

definition get_connection_progress_by_desc :: "overall_connection_status \<Rightarrow> node_descriptor \<Rightarrow> status_error + nat" where
  "get_connection_progress_by_desc ocs descriptor =
     (case find_position (\<lambda>progress. initial_node_descriptor progress = descriptor) (ocs_progress ocs) of
        Some i \<Rightarrow> Inr i
      | None \<Rightarrow> Inl (UnknownDescriptor descriptor))"

fun update_connection_stage :: "connection_progress \<Rightarrow> connection_progress_event \<Rightarrow> connection_progress option" where
  "update_connection_stage progress TcpConnectionSuccessful = update_stage progress TcpConnectionEstablished"
| "update_connection_stage progress TcpConnectionFailed = update_stage progress (Failed ErrTcpConnectionFailed)"
| "update_connection_stage progress (IntroductionGossipReceived _) = update_stage progress NeighborshipEstablished"
| "update_connection_stage progress StandardGossipReceived = update_stage progress NeighborshipEstablished"
| "update_connection_stage progress (PassGossipReceived new_pass_target) = handle_pass_gossip progress new_pass_target"
| "update_connection_stage progress PassLoopFound = update_stage progress (Failed ErrPassLoopFound)"
| "update_connection_stage progress NoGossipResponseReceived = update_stage progress (Failed ErrNoGossipResponseReceived)"

definition get_peer_addrs :: "overall_connection_status \<Rightarrow> ip_addr list" where
  "get_peer_addrs ocs = map current_peer_addr (ocs_progress ocs)"

definition get_connection_progress_to_modify :: "overall_connection_status \<Rightarrow> connection_progress_message \<Rightarrow> status_error + nat" where
  "get_connection_progress_to_modify ocs msg =
     (let duplicate = (case cpm_event msg of
            PassGossipReceived pass_target \<Rightarrow>
              if pass_target \<in> set (get_peer_addrs ocs) then Some pass_target else None
          | _ \<Rightarrow> None)
      in case duplicate of
           Some pass_target \<Rightarrow> Inl (PassTargetDuplicate pass_target)
         | None \<Rightarrow>
             (case get_connection_progress_by_ip ocs (cpm_peer_addr msg) of
                Inr i \<Rightarrow> Inr i
              | Inl _ \<Rightarrow> Inl (NoPeerFound (cpm_peer_addr msg))))"

text \<open>The new status, and the stage that is broadcast to the user interfaces, if any.\<close>

definition update_ocs_stage :: "overall_connection_status \<Rightarrow> overall_connection_stage \<Rightarrow>
    overall_connection_status \<times> ui_connection_stage list" where
  "update_ocs_stage ocs new_stage =
     (if new_stage \<noteq> ocs_stage ocs
      then (ocs\<lparr>ocs_stage := new_stage\<rparr>, [ui_stage_from new_stage])
      else (ocs, []))"

definition status_is_empty :: "overall_connection_status \<Rightarrow> bool" where
  "status_is_empty ocs \<longleftrightarrow> ocs_progress ocs = []"

definition status_remove :: "overall_connection_status \<Rightarrow> nat \<Rightarrow> (node_descriptor \<times> overall_connection_status) option" where
  "status_remove ocs index =
     (if index < length (ocs_progress ocs)
      then Some (initial_node_descriptor (ocs_progress ocs ! index),
                 ocs\<lparr>ocs_progress := take index (ocs_progress ocs) @ drop (Suc index) (ocs_progress ocs)\<rparr>)
      else None)"

definition can_make_routes :: "overall_connection_status \<Rightarrow> bool" where
  "can_make_routes ocs \<longleftrightarrow> ocs_stage ocs = RouteFound"

text \<open>Writing through the reference that one of the getters returned.\<close>

definition modify_progress :: "overall_connection_status \<Rightarrow> nat \<Rightarrow> connection_progress_event \<Rightarrow> overall_connection_status option" where
  "modify_progress ocs i event = do {
     progress \<leftarrow> update_connection_stage (ocs_progress ocs ! i) event;
     Some (ocs\<lparr>ocs_progress := (ocs_progress ocs)[i := progress]\<rparr>) }"

end
