(* ===== verification/Gossip_Acceptor.thy ===== *)
theory Gossip_Acceptor
  imports Gossip Exit_Preferences Connection_Status
begin

text \<open>
  Model of \<open>node/src/neighborhood/gossip_acceptor.rs\<close>: the handlers of incoming gossip and
  the acceptor that chooses among them.  A handler returns its result together with the
  database it leaves and the connection-progress messages it sends; \<^term>\<open>None\<close> is a panic.
  The texts of reasons and errors are constructors.  Log output is left out.
\<close>

section \<open>Results, reasons, surroundings\<close>

datatype gossip_failure = NoNeighbors | NoSuitableNeighbors | ManualRejection | UnknownFailure

datatype malformed_reason =
    DebutWithoutNodeAddr socket_addr public_key
  | DebutWithoutPorts socket_addr public_key
  | DebutNotAcceptingWithNodeAddr socket_addr public_key
  | PassWithoutNodeAddr socket_addr public_key
  | PassWithoutPorts socket_addr public_key ip_addr
  | IntroductionSourceUnclaimed public_key ip_addr public_key ip_addr ip_addr
  | IntroducerClaimsLocalKey public_key
  | IntroducerWithoutPorts public_key ip_addr
  | IntroducerClaimsLocalIp public_key
  | IntroduceeWithoutPorts public_key "ip_addr option" public_key ip_addr
  | IntroducerAndIntroduceeClaim public_key public_key ip_addr
  | StandardClaimsLocalIp socket_addr public_key
  | StandardClaimsLocalKey socket_addr
  | StandardDuplicateIp socket_addr "ip_addr fset"
  | Unclassifiable nat socket_addr

datatype qualification = Matched | Unmatched | Malformed malformed_reason

datatype ban_reason =
    BanMalformed malformed_reason
  | BanIntroducerChanged public_key update_error

datatype gossip_acceptance_result =
    Accepted
  | Reply gossip public_key node_addr
  | GossipFailed gossip_failure public_key node_addr
  | Ignored
  | Ban ban_reason

definition MAX_DEGREE :: nat where
  "MAX_DEGREE = 5"

text \<open>\<open>SystemTime\<close> is a number of nanoseconds.\<close>

definition PASS_GOSSIP_EXPIRED_TIME :: nat where
  "PASS_GOSSIP_EXPIRED_TIME = 60 * 1000000000"

record neighborhood_metadata =
  connection_progress_peers :: "ip_addr list"
  db_patch_size :: u8
  user_exit_preferences_opt :: "user_exit_preferences option"

text \<open>
  What the handlers use of their surroundings: cryptography, the country finder, the
  reading of the clock when the record of a key is written, the two readings for a pass
  target, and the orders in which hash sets of keys are iterated (of the candidates for a
  better neighbor, of the candidates for a least connected one, and of the neighbors of a
  Node).
\<close>

record acceptor_env =
  env_crypt :: crypt_ops
  env_finder :: country_code_finder
  env_now :: "public_key \<Rightarrow> u32"
  env_pass_clock :: "nat \<times> nat"
  env_order_full :: "public_key fset \<Rightarrow> public_key list"
  env_order_least :: "public_key fset \<Rightarrow> public_key list"
  env_order_neighbors :: "public_key \<Rightarrow> public_key fset \<Rightarrow> public_key list"

definition agr_key :: "accessible_gossip_record \<Rightarrow> public_key" where
  "agr_key agr = inner_public_key (agr_inner agr)"

definition assign_preferences :: "user_exit_preferences option \<Rightarrow> node_record \<Rightarrow> node_record option" where
  "assign_preferences prefs_opt nr =
     (case prefs_opt of
        Some prefs \<Rightarrow> assign_nodes_country_undesirability prefs nr
      | None \<Rightarrow> Some nr)"

text \<open>The new version and signature of the local record, as the handlers write them.\<close>

definition bump_root :: "crypt_ops \<Rightarrow> neighborhood_database \<Rightarrow> neighborhood_database option" where
  "bump_root crypt db = do {
     rt \<leftarrow> root db;
     rt \<leftarrow> increment_version rt;
     rt \<leftarrow> record_regenerate_signed_gossip crypt rt;
     root_mut (\<lambda>_. rt) db }"

section \<open>Debuts\<close>

definition debut_qualifies :: "neighborhood_database \<Rightarrow> accessible_gossip_record list \<Rightarrow> socket_addr \<Rightarrow> qualification" where
  "debut_qualifies db agrs gossip_source =
     (case agrs of
        [agr] \<Rightarrow>
          if node_by_key db (agr_key agr) \<noteq> None then Unmatched
          else (case agr_node_addr_opt agr of
                  None \<Rightarrow>
                    if inner_accepts_connections (agr_inner agr)
                    then Malformed (DebutWithoutNodeAddr gossip_source (agr_key agr))
                    else Matched
                | Some addr \<Rightarrow>
                    if inner_accepts_connections (agr_inner agr) then
                      if addr_ports addr = [] then Malformed (DebutWithoutPorts gossip_source (agr_key agr))
                      else if addr_ip addr = fst gossip_source then Matched
                      else Unmatched
                    else Malformed (DebutNotAcceptingWithNodeAddr gossip_source (agr_key agr)))
      | _ \<Rightarrow> Unmatched)"

definition node_and_neighbor_keys :: "accessible_gossip_record \<Rightarrow> public_key fset" where
  "node_and_neighbor_keys agr = finsert (agr_key agr) (inner_neighbors (agr_inner agr))"

text \<open>
  An unstable sort of a set: the stable sort of the set in the order of its iteration,
  which is arbitrary.
\<close>

definition keys_ordered_by_degree_excluding :: "(public_key fset \<Rightarrow> public_key list) \<Rightarrow> neighborhood_database \<Rightarrow>
    public_key fset \<Rightarrow> public_key fset \<Rightarrow> public_key list" where
  "keys_ordered_by_degree_excluding order db ks excluding = sort_key (gossip_target_degree db) (order (ks |-| excluding))"

definition root_full_neighbors_ordered_by_degree_excluding :: "acceptor_env \<Rightarrow> neighborhood_database \<Rightarrow>
    accessible_gossip_record \<Rightarrow> public_key list option" where
  "root_full_neighbors_ordered_by_degree_excluding env db excluded = do {
     rt \<leftarrow> root db;
     Some (keys_ordered_by_degree_excluding (env_order_full env) db (full_neighbor_keys rt db)
       (node_and_neighbor_keys excluded)) }"

definition find_least_connected_neighbor_excluding :: "acceptor_env \<Rightarrow> public_key fset \<Rightarrow> neighborhood_database \<Rightarrow>
    accessible_gossip_record \<Rightarrow> public_key option" where
  "find_least_connected_neighbor_excluding env ks db excluded =
     first_opt (keys_ordered_by_degree_excluding (env_order_least env) db ks (node_and_neighbor_keys excluded))"

definition find_least_connected_half_neighbor_excluding :: "acceptor_env \<Rightarrow> neighborhood_database \<Rightarrow>
    accessible_gossip_record \<Rightarrow> public_key option option" where
  "find_least_connected_half_neighbor_excluding env db excluded = do {
     rt \<leftarrow> root db;
     Some (find_least_connected_neighbor_excluding env (half_neighbor_keys rt) db excluded) }"

text \<open>\<open>filter\<close> with an \<open>expect\<close> in its predicate: it panics if a key is missing.\<close>

definition all_present :: "neighborhood_database \<Rightarrow> public_key fset \<Rightarrow> bool" where
  "all_present db ks \<longleftrightarrow> fBall ks (\<lambda>k. node_by_key db k \<noteq> None)"

definition key_accepts_connections :: "neighborhood_database \<Rightarrow> public_key \<Rightarrow> bool" where
  "key_accepts_connections db k = (case node_by_key db k of Some nr \<Rightarrow> accepts_connections nr | None \<Rightarrow> False)"

definition find_least_connected_full_neighbor_excluding :: "acceptor_env \<Rightarrow> neighborhood_database \<Rightarrow>
    accessible_gossip_record \<Rightarrow> public_key option option" where
  "find_least_connected_full_neighbor_excluding env db excluded = do {
     rt \<leftarrow> root db;
     let ks = full_neighbor_keys rt db;
     if all_present db ks
     then Some (find_least_connected_neighbor_excluding env (ffilter (key_accepts_connections db) ks) db excluded)
     else None }"

definition find_more_appropriate_neighbor :: "acceptor_env \<Rightarrow> neighborhood_database \<Rightarrow> accessible_gossip_record \<Rightarrow>
    public_key option option" where
  "find_more_appropriate_neighbor env db excluded = do {
     neighbor_vec \<leftarrow> root_full_neighbors_ordered_by_degree_excluding env db excluded;
     if all_present db (fset_of_list neighbor_vec) then do {
       let qualified_neighbors = dropWhile (\<lambda>k. gossip_target_degree db k \<le> 2)
             (filter (key_accepts_connections db) neighbor_vec);
       (case first_opt qualified_neighbors of
          None \<Rightarrow> Some None
        | Some key \<Rightarrow> do {
            rt \<leftarrow> root db;
            Some (if gossip_target_degree db (public_key rt) \<le> gossip_target_degree db key then None
                  else Some key) }) }
     else None }"

definition should_not_make_another_introduction :: "accessible_gossip_record \<Rightarrow> bool" where
  "should_not_make_another_introduction debuting_agr \<longleftrightarrow> inner_neighbors (agr_inner debuting_agr) \<noteq> {||}"

definition make_pass_gossip :: "neighborhood_database \<Rightarrow> public_key \<Rightarrow> gossip option" where
  "make_pass_gossip db pass_target = do {
     b \<leftarrow> builder_node pass_target True (builder_new db);
     Some (builder_build b) }"

definition make_introduction :: "acceptor_env \<Rightarrow> neighborhood_database \<Rightarrow> accessible_gossip_record \<Rightarrow> socket_addr \<Rightarrow>
    (gossip \<times> public_key \<times> node_addr) option option" where
  "make_introduction env db debuting_agr gossip_source = do {
     lcn_opt \<leftarrow> find_least_connected_full_neighbor_excluding env db debuting_agr;
     (case lcn_opt of
        Some lcn_key \<Rightarrow> do {
          _ \<leftarrow> node_by_key db lcn_key;
          let debut_node_addr = (case agr_node_addr_opt debuting_agr of
                Some addr \<Rightarrow> addr
              | None \<Rightarrow> node_addr_from_socket gossip_source);
          rt \<leftarrow> root db;
          b \<leftarrow> builder_node (public_key rt) True (builder_new db);
          b \<leftarrow> builder_node lcn_key True b;
          Some (Some (builder_build b, agr_key debuting_agr, debut_node_addr)) }
      | None \<Rightarrow> Some None) }"

definition create_debut_gossip_response :: "acceptor_env \<Rightarrow> neighborhood_database \<Rightarrow> public_key \<Rightarrow> gossip option" where
  "create_debut_gossip_response env db debut_node_key = do {
     rt \<leftarrow> root db;
     let root_node = clear_half_neighbors rt;
     root_node \<leftarrow> (case add_half_neighbor_key root_node debut_node_key of
         (Inr _, root_node) \<Rightarrow> Some root_node
       | (Inl _, _) \<Rightarrow> None);
     gnr \<leftarrow> gnr_from_inner (env_crypt env) (inner root_node) (node_addr_opt root_node);
     Some [gnr] }"

text \<open>The \<open>Err\<close> of \<open>try_accept_debut\<close> carries nothing; it is the inner \<^term>\<open>None\<close>.\<close>

definition try_accept_debut :: "acceptor_env \<Rightarrow> neighborhood_database \<Rightarrow> accessible_gossip_record \<Rightarrow> socket_addr \<Rightarrow>
    user_exit_preferences option \<Rightarrow> (gossip_acceptance_result option \<times> neighborhood_database) option" where
  "try_accept_debut env db debuting_agr gossip_source prefs_opt = do {
     rt \<leftarrow> root db;
     if MAX_DEGREE \<le> gossip_target_degree db (public_key rt) then Some (None, db)
     else do {
       debuting_node \<leftarrow> record_from_agr (env_finder env) (env_now env (agr_key debuting_agr)) debuting_agr;
       debuting_node \<leftarrow> assign_preferences prefs_opt debuting_node;
       (case add_node db debuting_node of
          (Inl _, _) \<Rightarrow> None
        | (Inr debut_node_key, db) \<Rightarrow>
            (case add_half_neighbor (env_now env (this_node db)) db debut_node_key of
               (Inl _, _) \<Rightarrow> None
             | (Inr False, _) \<Rightarrow> None
             | (Inr True, db) \<Rightarrow> do {
                 db \<leftarrow> bump_root (env_crypt env) db;
                 if should_not_make_another_introduction debuting_agr then Some (Some Accepted, db)
                 else do {
                   introduction_opt \<leftarrow> make_introduction env db debuting_agr gossip_source;
                   (case introduction_opt of
                      Some (introduction, target_key, target_node_addr) \<Rightarrow>
                        Some (Some (Reply introduction target_key target_node_addr), db)
                    | None \<Rightarrow> do {
                        debut_gossip \<leftarrow> create_debut_gossip_response env db debut_node_key;
                        addr \<leftarrow> agr_node_addr_opt debuting_agr;
                        Some (Some (Reply debut_gossip (agr_key debuting_agr) addr), db) }) } })) } }"

definition debut_handle :: "acceptor_env \<Rightarrow> neighborhood_database \<Rightarrow> accessible_gossip_record list \<Rightarrow> socket_addr \<Rightarrow>
    neighborhood_metadata \<Rightarrow> (gossip_acceptance_result \<times> neighborhood_database) option" where
  "debut_handle env db agrs gossip_source meta = do {
     agr \<leftarrow> first_opt agrs;
     let source_agr = (if agr_node_addr_opt agr = None
           then agr\<lparr>agr_node_addr_opt := Some (node_addr_from_socket gossip_source)\<rparr> else agr);
     let source_key = agr_key source_agr;
     source_node_addr \<leftarrow> agr_node_addr_opt source_agr;
     preferred_opt \<leftarrow> find_more_appropriate_neighbor env db source_agr;
     (case preferred_opt of
        Some preferred_key \<Rightarrow> do {
          preferred \<leftarrow> node_by_key db preferred_key;
          _ \<leftarrow> node_addr_opt preferred;
          gossip \<leftarrow> make_pass_gossip db preferred_key;
          Some (Reply gossip source_key source_node_addr, db) }
      | None \<Rightarrow> do {
          (result_opt, db) \<leftarrow> try_accept_debut env db source_agr gossip_source (user_exit_preferences_opt meta);
          (case result_opt of
             Some result \<Rightarrow> Some (result, db)
           | None \<Rightarrow> do {
               lcn_opt \<leftarrow> find_least_connected_half_neighbor_excluding env db source_agr;
               (case lcn_opt of
                  None \<Rightarrow> Some (GossipFailed NoSuitableNeighbors (agr_key source_agr) source_node_addr, db)
                | Some lcn_key \<Rightarrow> do {
                    _ \<leftarrow> node_by_key db lcn_key;
                    gossip \<leftarrow> make_pass_gossip db lcn_key;
                    Some (Reply gossip source_key source_node_addr, db) }) }) }) }"

section \<open>Passes\<close>

type_synonym pass_targets = "(ip_addr, nat) fmap"

definition pass_qualifies :: "accessible_gossip_record list \<Rightarrow> socket_addr \<Rightarrow> qualification" where
  "pass_qualifies agrs gossip_source =
     (case agrs of
        [agr] \<Rightarrow>
          (case agr_node_addr_opt agr of
             None \<Rightarrow> Malformed (PassWithoutNodeAddr gossip_source (agr_key agr))
           | Some addr \<Rightarrow>
               if addr_ports addr = [] then Malformed (PassWithoutPorts gossip_source (agr_key agr) (addr_ip addr))
               else if addr_ip addr = fst gossip_source then Unmatched
               else Matched)
      | _ \<Rightarrow> Unmatched)"

definition pass_reply :: "neighborhood_database \<Rightarrow> public_key \<Rightarrow> node_addr \<Rightarrow> gossip_acceptance_result option" where
  "pass_reply db target_key target_addr = do {
     rt \<leftarrow> root db;
     b \<leftarrow> builder_node (public_key rt) True (builder_new db);
     Some (Reply (builder_build b) target_key target_addr) }"

definition pass_handle :: "acceptor_env \<Rightarrow> pass_targets \<Rightarrow> neighborhood_database \<Rightarrow> accessible_gossip_record list \<Rightarrow> socket_addr \<Rightarrow>
    neighborhood_metadata \<Rightarrow> (gossip_acceptance_result \<times> pass_targets \<times> connection_progress_message list) option" where
  "pass_handle env targets db agrs gossip_source meta = do {
     pass_agr \<leftarrow> first_opt agrs;
     pass_target_node_addr \<leftarrow> agr_node_addr_opt pass_agr;
     let pass_target_ip_addr = addr_ip pass_target_node_addr;
     let cpm = (\<lambda>event. \<lparr>cpm_peer_addr = fst gossip_source, cpm_event = event\<rparr>);
     let (now, now_set) = env_pass_clock env;
     (case fmlookup targets pass_target_ip_addr of
        None \<Rightarrow>
          if pass_target_ip_addr \<in> set (connection_progress_peers meta)
          then Some (Ignored, targets, [cpm PassLoopFound])
          else do {
            reply \<leftarrow> pass_reply db (agr_key pass_agr) pass_target_node_addr;
            Some (reply, fmupd pass_target_ip_addr now_set targets, [cpm (PassGossipReceived pass_target_ip_addr)]) }
      | Some timestamp \<Rightarrow> do {
          duration_since \<leftarrow> usub now timestamp;
          let targets = fmupd pass_target_ip_addr now_set targets;
          if duration_since \<le> PASS_GOSSIP_EXPIRED_TIME
          then Some (Ignored, targets, [cpm PassLoopFound])
          else do {
            reply \<leftarrow> pass_reply db (agr_key pass_agr) pass_target_node_addr;
            Some (reply, targets, [cpm (PassGossipReceived pass_target_ip_addr)]) } }) }"

section \<open>Introductions\<close>

text \<open>\<open>Err\<close> carries the qualification to return; the list is indexed, so that a shorter one panics.\<close>

definition order_is_introducee_introducer :: "accessible_gossip_record list \<Rightarrow> socket_addr \<Rightarrow> (qualification + bool) option" where
  "order_is_introducee_introducer agrs gossip_source =
     (case agrs of
        first_agr # second_agr # _ \<Rightarrow>
          Some (case (agr_node_addr_opt first_agr, agr_node_addr_opt second_agr) of
             (None, _) \<Rightarrow> Inl Unmatched
           | (Some _, None) \<Rightarrow> Inl Unmatched
           | (Some first_addr, Some second_addr) \<Rightarrow>
               if addr_ip first_addr = fst gossip_source then Inr True
               else if addr_ip second_addr = fst gossip_source then Inr False
               else Inl (Malformed (IntroductionSourceUnclaimed (agr_key first_agr) (addr_ip first_addr)
                      (agr_key second_agr) (addr_ip second_addr) (fst gossip_source))))
      | [first_agr] \<Rightarrow> (if agr_node_addr_opt first_agr = None then Some (Inl Unmatched) else None)
      | [] \<Rightarrow> None)"

definition verify_introducer :: "accessible_gossip_record \<Rightarrow> node_record \<Rightarrow> qualification option option" where
  "verify_introducer agr root_node =
     (if agr_key agr = public_key root_node then Some (Some (Malformed (IntroducerClaimsLocalKey (agr_key agr))))
      else do {
        introducer_node_addr \<leftarrow> agr_node_addr_opt agr;
        Some (if addr_ports introducer_node_addr = []
              then Some (Malformed (IntroducerWithoutPorts (agr_key agr) (addr_ip introducer_node_addr)))
              else (case node_addr_opt root_node of
                      Some root_node_addr \<Rightarrow>
                        if addr_ip introducer_node_addr = addr_ip root_node_addr
                        then Some (Malformed (IntroducerClaimsLocalIp (agr_key agr))) else None
                    | None \<Rightarrow> None)) })"

definition verify_introducee :: "neighborhood_database \<Rightarrow> accessible_gossip_record \<Rightarrow> accessible_gossip_record \<Rightarrow> socket_addr \<Rightarrow>
    qualification option" where
  "verify_introducee db introducer introducee gossip_source =
     (if node_by_key db (agr_key introducee) \<noteq> None then Some Unmatched
      else (case agr_node_addr_opt introducee of
              None \<Rightarrow> Some Unmatched
            | Some introducee_node_addr \<Rightarrow>
                if addr_ports introducee_node_addr = []
                then Some (Malformed (IntroduceeWithoutPorts (agr_key introducer)
                       (map_option addr_ip (agr_node_addr_opt introducer)) (agr_key introducee) (addr_ip introducee_node_addr)))
                else if addr_ip introducee_node_addr = fst gossip_source
                then Some (Malformed (IntroducerAndIntroduceeClaim (agr_key introducer) (agr_key introducee) (fst gossip_source)))
                else None))"

definition identify_players :: "accessible_gossip_record list \<Rightarrow> socket_addr \<Rightarrow>
    (qualification + accessible_gossip_record \<times> accessible_gossip_record) option" where
  "identify_players agrs gossip_source = do {
     order_res \<leftarrow> order_is_introducee_introducer agrs gossip_source;
     (case order_res of
        Inl qual \<Rightarrow> Some (Inl qual)
      | Inr first_is_introducer \<Rightarrow>
          (case agrs of
             a # b # _ \<Rightarrow> Some (Inr (if first_is_introducer then (a, b) else (b, a)))
           | _ \<Rightarrow> None)) }"

definition introduction_qualifies :: "neighborhood_database \<Rightarrow> accessible_gossip_record list \<Rightarrow> socket_addr \<Rightarrow> qualification option" where
  "introduction_qualifies db agrs gossip_source =
     (if length agrs \<noteq> 2 then Some Unmatched
      else do {
        order_res \<leftarrow> order_is_introducee_introducer agrs gossip_source;
        (case order_res of
           Inl qual \<Rightarrow> Some qual
         | Inr first_is_introducer \<Rightarrow> do {
             let (introducer, introducee) =
               (if first_is_introducer then (agrs ! 0, agrs ! 1) else (agrs ! 1, agrs ! 0));
             rt \<leftarrow> root db;
             introducer_qual \<leftarrow> verify_introducer introducer rt;
             Some (case introducer_qual of
                     Some qual \<Rightarrow> qual
                   | None \<Rightarrow>
                       (case verify_introducee db introducer introducee gossip_source of
                          Some qual \<Rightarrow> qual
                        | None \<Rightarrow> Matched)) }) })"

definition add_introducer_as_half_neighbor :: "acceptor_env \<Rightarrow> neighborhood_database \<Rightarrow> public_key \<Rightarrow>
    ((update_error + bool) \<times> neighborhood_database) option" where
  "add_introducer_as_half_neighbor env db introducer_key =
     (case add_half_neighbor (env_now env (this_node db)) db introducer_key of
        (Inl _, _) \<Rightarrow> None
      | (Inr added, db) \<Rightarrow>
          if added then do { db \<leftarrow> bump_root (env_crypt env) db; Some (Inr True, db) }
          else Some (Inr True, db))"

definition introduction_update_database :: "acceptor_env \<Rightarrow> neighborhood_database \<Rightarrow> accessible_gossip_record \<Rightarrow>
    user_exit_preferences option \<Rightarrow> ((update_error + bool) \<times> neighborhood_database) option" where
  "introduction_update_database env db introducer prefs_opt =
     (let introducer_key = agr_key introducer
      in case node_by_key db introducer_key of
           Some existing_introducer \<Rightarrow>
             if version existing_introducer < inner_version (agr_inner introducer) then
               (case record_update (env_now env introducer_key) existing_introducer introducer of
                  (Inl e, _) \<Rightarrow> Some (Inl e, db)
                | (Inr _, updated) \<Rightarrow> do {
                    db \<leftarrow> node_by_key_mut (\<lambda>_. updated) db introducer_key;
                    add_introducer_as_half_neighbor env db introducer_key })
             else Some (Inr False, db)
         | None \<Rightarrow> do {
             new_introducer \<leftarrow> record_from_agr (env_finder env) (env_now env introducer_key) introducer;
             new_introducer \<leftarrow> assign_preferences prefs_opt new_introducer;
             (case add_node db new_introducer of
                (Inl _, _) \<Rightarrow> None
              | (Inr _, db) \<Rightarrow> add_introducer_as_half_neighbor env db introducer_key) })"

definition make_debut_triple :: "neighborhood_database \<Rightarrow> accessible_gossip_record \<Rightarrow> (unit + gossip \<times> public_key \<times> node_addr) option" where
  "make_debut_triple db debut_target =
     (case agr_node_addr_opt debut_target of
        None \<Rightarrow> Some (Inl ())
      | Some addr \<Rightarrow>
          if addr_ports addr = [] then Some (Inl ())
          else do {
            rt \<leftarrow> root db;
            b \<leftarrow> builder_node (public_key rt) True (builder_new db);
            Some (Inr (builder_build b, agr_key debut_target, addr)) })"

definition introduction_handle :: "acceptor_env \<Rightarrow> neighborhood_database \<Rightarrow> accessible_gossip_record list \<Rightarrow> socket_addr \<Rightarrow>
    neighborhood_metadata \<Rightarrow> (gossip_acceptance_result \<times> neighborhood_database \<times> connection_progress_message list) option" where
  "introduction_handle env db agrs gossip_source meta = do {
     rt \<leftarrow> root db;
     if MAX_DEGREE \<le> fcard (full_neighbor_keys rt db) then Some (Ignored, db, [])
     else do {
       players \<leftarrow> identify_players agrs gossip_source;
       (case players of
          Inl _ \<Rightarrow> None
        | Inr (introducer, introducee) \<Rightarrow> do {
            introducer_addr \<leftarrow> agr_node_addr_opt introducer;
            introducee_addr \<leftarrow> agr_node_addr_opt introducee;
            (res, db) \<leftarrow> introduction_update_database env db introducer (user_exit_preferences_opt meta);
            (case res of
               Inl e \<Rightarrow> Some (Ban (BanIntroducerChanged (agr_key introducer) e), db, [])
             | Inr _ \<Rightarrow> do {
                 let cpm = \<lparr>cpm_peer_addr = addr_ip introducer_addr,
                            cpm_event = IntroductionGossipReceived (addr_ip introducee_addr)\<rparr>;
                 triple \<leftarrow> make_debut_triple db introducee;
                 (case triple of
                    Inl _ \<Rightarrow> None
                  | Inr (debut, target_key, target_node_addr) \<Rightarrow>
                      Some (Reply debut target_key target_node_addr, db, [cpm])) }) }) } }"

section \<open>Standard gossip\<close>

text \<open>The addresses claimed by more than one record, as the fold over the records collects them.\<close>

definition duplicate_step :: "ip_addr \<Rightarrow> ip_addr fset \<times> ip_addr fset \<Rightarrow> ip_addr fset \<times> ip_addr fset" where
  "duplicate_step ip so_far =
     (case so_far of (addr_set, dup_set) \<Rightarrow>
        if ip |\<in>| addr_set then (addr_set, finsert ip dup_set) else (finsert ip addr_set, dup_set))"

definition standard_qualifies :: "neighborhood_database \<Rightarrow> accessible_gossip_record list \<Rightarrow> socket_addr \<Rightarrow> qualification option" where
  "standard_qualifies db agrs gossip_source = do {
     let agrs_next_door = filter (\<lambda>agr. agr_node_addr_opt agr \<noteq> None) agrs;
     root_node \<leftarrow> root db;
     impostor_opt \<leftarrow> (if accepts_connections root_node \<and> agrs_next_door \<noteq> [] then do {
         root_addr \<leftarrow> node_addr_opt root_node;
         Some (find (\<lambda>agr. map_option addr_ip (agr_node_addr_opt agr) = Some (addr_ip root_addr)) agrs_next_door) }
       else Some None);
     Some (case impostor_opt of
        Some impostor \<Rightarrow> Malformed (StandardClaimsLocalIp gossip_source (agr_key impostor))
      | None \<Rightarrow>
          if \<exists>agr \<in> set agrs. agr_key agr = public_key root_node
          then Malformed (StandardClaimsLocalKey gossip_source)
          else let dup_set = snd (fold duplicate_step (List.map_filter (\<lambda>agr. map_option addr_ip (agr_node_addr_opt agr)) agrs_next_door)
                      ({||}, {||}))
               in if dup_set = {||} then Matched else Malformed (StandardDuplicateIp gossip_source dup_set)) }"

definition check_full_neighbor :: "neighborhood_database \<Rightarrow> ip_addr \<Rightarrow> bool option" where
  "check_full_neighbor db gossip_source_ip =
     (case node_by_ip db gossip_source_ip of
        Some node \<Rightarrow> do {
          rt \<leftarrow> root db;
          Some (has_full_neighbor db (public_key rt) (public_key node)) }
      | None \<Rightarrow> Some False)"

text \<open>The neighbors of a Node as the local record or the gossip has them.\<close>

definition patch_neighbors :: "(public_key \<rightharpoonup> accessible_gossip_record) \<Rightarrow> node_record \<Rightarrow> public_key \<Rightarrow> public_key fset option" where
  "patch_neighbors agrs_by_key root_node key =
     (if key = public_key root_node then Some (inner_neighbors (inner root_node))
      else map_option (\<lambda>agr. inner_neighbors (agr_inner agr)) (agrs_by_key key))"

fun compute_patch_recursive :: "(public_key \<Rightarrow> public_key fset \<Rightarrow> public_key list) \<Rightarrow> (public_key \<rightharpoonup> accessible_gossip_record) \<Rightarrow>
    node_record \<Rightarrow> nat \<Rightarrow> public_key \<Rightarrow> public_key fset \<Rightarrow> public_key fset" where
  "compute_patch_recursive order agrs_by_key root_node 0 current patch = finsert current patch"
| "compute_patch_recursive order agrs_by_key root_node (Suc hops) current patch =
     (let patch = finsert current patch
      in case patch_neighbors agrs_by_key root_node current of
           None \<Rightarrow> patch |-| {|current|}
         | Some neighbors \<Rightarrow>
             fold (\<lambda>neighbor patch. if neighbor |\<notin>| patch
                     then compute_patch_recursive order agrs_by_key root_node hops neighbor patch else patch)
               (order current neighbors) patch)"

definition agr_index :: "accessible_gossip_record list \<Rightarrow> (public_key \<rightharpoonup> accessible_gossip_record)" where
  "agr_index agrs = map_of (rev (map (\<lambda>agr. (agr_key agr, agr)) agrs))"

definition compute_patch :: "(public_key \<Rightarrow> public_key fset \<Rightarrow> public_key list) \<Rightarrow> accessible_gossip_record list \<Rightarrow> node_record \<Rightarrow> u8 \<Rightarrow>
    public_key fset" where
  "compute_patch order agrs root_node patch_size =
     compute_patch_recursive order (agr_index agrs) root_node (unat patch_size) (public_key root_node) {||}"

definition filter_agrs_by_patch :: "accessible_gossip_record list \<Rightarrow> public_key fset \<Rightarrow> accessible_gossip_record list" where
  "filter_agrs_by_patch agrs patch = filter (\<lambda>agr. agr_key agr |\<in>| patch) agrs"

definition is_new_node :: "public_key fset \<Rightarrow> socket_addr \<Rightarrow> accessible_gossip_record \<Rightarrow> bool" where
  "is_new_node all_keys gossip_source agr \<longleftrightarrow> agr_key agr |\<notin>| all_keys \<and>
     (case agr_node_addr_opt agr of
        None \<Rightarrow> True
      | Some addr \<Rightarrow> gossip_source \<in> set (node_addr_sockets addr))"

fun add_new_nodes :: "acceptor_env \<Rightarrow> user_exit_preferences option \<Rightarrow> accessible_gossip_record list \<Rightarrow> neighborhood_database \<Rightarrow>
    neighborhood_database option" where
  "add_new_nodes env prefs_opt [] db = Some db"
| "add_new_nodes env prefs_opt (agr # agrs) db = do {
     nr \<leftarrow> record_from_agr (env_finder env) (env_now env (agr_key agr)) agr;
     nr \<leftarrow> assign_preferences prefs_opt nr;
     (case add_node db nr of
        (Inl _, _) \<Rightarrow> None
      | (Inr _, db) \<Rightarrow> add_new_nodes env prefs_opt agrs db) }"

definition identify_and_add_non_introductory_new_nodes :: "acceptor_env \<Rightarrow> neighborhood_database \<Rightarrow> accessible_gossip_record list \<Rightarrow>
    socket_addr \<Rightarrow> user_exit_preferences option \<Rightarrow> (bool \<times> neighborhood_database) option" where
  "identify_and_add_non_introductory_new_nodes env db agrs gossip_source prefs_opt = do {
     let all_keys = keys db;
     db \<leftarrow> add_new_nodes env prefs_opt (filter (is_new_node all_keys gossip_source) agrs) db;
     Some (fcard (keys db) \<noteq> fcard all_keys, db) }"

definition update_database_record :: "acceptor_env \<Rightarrow> neighborhood_database \<Rightarrow> accessible_gossip_record \<Rightarrow> (bool \<times> neighborhood_database) option" where
  "update_database_record env db agr = do {
     existing \<leftarrow> node_by_key db (agr_key agr);
     let (res, updated) = record_update (env_now env (agr_key agr)) existing agr;
     db \<leftarrow> node_by_key_mut (\<lambda>_. updated) db (agr_key agr);
     Some (case res of Inr _ \<Rightarrow> True | Inl _ \<Rightarrow> False, db) }"

fun identify_and_update_obsolete_nodes :: "acceptor_env \<Rightarrow> accessible_gossip_record list \<Rightarrow> bool \<Rightarrow> neighborhood_database \<Rightarrow>
    (bool \<times> neighborhood_database) option" where
  "identify_and_update_obsolete_nodes env [] b db = Some (b, db)"
| "identify_and_update_obsolete_nodes env (agr # agrs) b db =
     (case node_by_key db (agr_key agr) of
        Some existing_node \<Rightarrow>
          if version existing_node < inner_version (agr_inner agr) then do {
            (updated, db) \<leftarrow> update_database_record env db agr;
            identify_and_update_obsolete_nodes env agrs (updated \<or> b) db }
          else identify_and_update_obsolete_nodes env agrs b db
      | None \<Rightarrow> identify_and_update_obsolete_nodes env agrs b db)"

definition add_src_node_as_half_neighbor :: "acceptor_env \<Rightarrow> neighborhood_database \<Rightarrow> socket_addr \<Rightarrow> (bool \<times> neighborhood_database) option" where
  "add_src_node_as_half_neighbor env db gossip_source =
     (case node_by_ip db (fst gossip_source) of
        None \<Rightarrow> Some (False, db)
      | Some gossip_node \<Rightarrow> do {
          rt \<leftarrow> root db;
          if MAX_DEGREE \<le> fcard (full_neighbor_keys rt db) then Some (False, db)
          else (case add_half_neighbor (env_now env (this_node db)) db (public_key gossip_node) of
                  (Inl _, _) \<Rightarrow> Some (False, db)
                | (Inr False, db) \<Rightarrow> Some (False, db)
                | (Inr True, db) \<Rightarrow> do {
                    db \<leftarrow> bump_root (env_crypt env) db;
                    Some (True, db) }) })"

definition standard_handle :: "acceptor_env \<Rightarrow> neighborhood_database \<Rightarrow> accessible_gossip_record list \<Rightarrow> socket_addr \<Rightarrow>
    neighborhood_metadata \<Rightarrow> (gossip_acceptance_result \<times> neighborhood_database \<times> connection_progress_message list) option" where
  "standard_handle env db agrs gossip_source meta = do {
     initial_neighborship_status \<leftarrow> check_full_neighbor db (fst gossip_source);
     rt \<leftarrow> root db;
     let patch = compute_patch (env_order_neighbors env) agrs rt (db_patch_size meta);
     let filtered_agrs = filter_agrs_by_patch agrs patch;
     (added, db) \<leftarrow> identify_and_add_non_introductory_new_nodes env db filtered_agrs gossip_source (user_exit_preferences_opt meta);
     (updated, db) \<leftarrow> identify_and_update_obsolete_nodes env filtered_agrs False db;
     (src_added, db) \<leftarrow> add_src_node_as_half_neighbor env db gossip_source;
     final_neighborship_status \<leftarrow> check_full_neighbor db (fst gossip_source);
     Some (if added \<or> updated \<or> src_added
           then (Accepted, db,
                 if \<not> initial_neighborship_status \<and> final_neighborship_status
                 then [\<lparr>cpm_peer_addr = fst gossip_source, cpm_event = StandardGossipReceived\<rparr>] else [])
           else (Ignored, db, [])) }"

section \<open>The acceptor\<close>

datatype gossip_handler = DebutHandler | PassHandler | IntroductionHandler | StandardGossipHandler | RejectHandler

fun handler_qualifies :: "gossip_handler \<Rightarrow> neighborhood_database \<Rightarrow> accessible_gossip_record list \<Rightarrow> socket_addr \<Rightarrow> qualification option" where
  "handler_qualifies DebutHandler db agrs src = Some (debut_qualifies db agrs src)"
| "handler_qualifies PassHandler db agrs src = Some (pass_qualifies agrs src)"
| "handler_qualifies IntroductionHandler db agrs src = introduction_qualifies db agrs src"
| "handler_qualifies StandardGossipHandler db agrs src = standard_qualifies db agrs src"
| "handler_qualifies RejectHandler db agrs src = Some (Malformed (Unclassifiable (length agrs) src))"

fun handler_handle :: "gossip_handler \<Rightarrow> acceptor_env \<Rightarrow> pass_targets \<Rightarrow> neighborhood_database \<Rightarrow> accessible_gossip_record list \<Rightarrow>
    socket_addr \<Rightarrow> neighborhood_metadata \<Rightarrow>
    (gossip_acceptance_result \<times> pass_targets \<times> neighborhood_database \<times> connection_progress_message list) option" where
  "handler_handle DebutHandler env targets db agrs src meta = do {
     (result, db) \<leftarrow> debut_handle env db agrs src meta;
     Some (result, targets, db, []) }"
| "handler_handle PassHandler env targets db agrs src meta = do {
     (result, targets, cpms) \<leftarrow> pass_handle env targets db agrs src meta;
     Some (result, targets, db, cpms) }"
| "handler_handle IntroductionHandler env targets db agrs src meta = do {
     (result, db, cpms) \<leftarrow> introduction_handle env db agrs src meta;
     Some (result, targets, db, cpms) }"
| "handler_handle StandardGossipHandler env targets db agrs src meta = do {
     (result, db, cpms) \<leftarrow> standard_handle env db agrs src meta;
     Some (result, targets, db, cpms) }"
| "handler_handle RejectHandler env targets db agrs src meta = None"

definition gossip_handlers :: "gossip_handler list" where
  "gossip_handlers = [DebutHandler, PassHandler, IntroductionHandler, StandardGossipHandler, RejectHandler]"

fun find_handler :: "gossip_handler list \<Rightarrow> neighborhood_database \<Rightarrow> accessible_gossip_record list \<Rightarrow> socket_addr \<Rightarrow>
    (qualification \<times> gossip_handler) option" where
  "find_handler [] db agrs src = None"
| "find_handler (h # hs) db agrs src = do {
     qualification \<leftarrow> handler_qualifies h db agrs src;
     if qualification \<noteq> Unmatched then Some (qualification, h) else find_handler hs db agrs src }"

definition acceptor_handle :: "acceptor_env \<Rightarrow> pass_targets \<Rightarrow> neighborhood_database \<Rightarrow> accessible_gossip_record list \<Rightarrow>
    socket_addr \<Rightarrow> neighborhood_metadata \<Rightarrow>
    (gossip_acceptance_result \<times> pass_targets \<times> neighborhood_database \<times> connection_progress_message list) option" where
  "acceptor_handle env targets db agrs src meta = do {
     (qualification, handler) \<leftarrow> find_handler gossip_handlers db agrs src;
     (case qualification of
        Matched \<Rightarrow> handler_handle handler env targets db agrs src meta
      | Unmatched \<Rightarrow> None
      | Malformed reason \<Rightarrow> Some (Ban (BanMalformed reason), targets, db, [])) }"

end
