(* ===== verification/Cryptde.thy ===== *)
theory Cryptde
  imports Node_Record "HOL-Library.Countable"
begin

text \<open>
  Model of the encryption interface: \<open>CryptDE\<close> with \<open>encodex\<close> and \<open>decodex\<close> of
  \<open>node/src/sub_lib/cryptde.rs\<close>, and the implementation \<open>CryptDENull\<close> of
  \<open>cryptde_null.rs\<close>.  A \<open>CryptDE\<close> is the record of its functions; CBOR is a parameter, a
  \<open>codec\<close> for each type that is sent.  The locale \<open>cipher\<close> has the law that makes
  encryption useful: what is encrypted to a key, the owner of the key can read.
\<close>

section \<open>The interface\<close>

type_synonym crypt_data = "u8 list"

text \<open>The text of \<open>InvalidKey\<close> shows a key and the beginning of the data; the constructor carries them.\<close>

datatype cryptdec_error =
    EmptyKey
  | EmptyData
  | InvalidKey "u8 list" "u8 list"
  | InvalidSignature string
  | OpeningFailed
  | OtherError string

text \<open>The operations of the trait that the modelled code calls.\<close>

record cryptde =
  cde_encode :: "public_key \<Rightarrow> u8 list \<Rightarrow> cryptdec_error + crypt_data"
  cde_decode :: "crypt_data \<Rightarrow> (cryptdec_error + u8 list) option"
  cde_random :: "nat \<Rightarrow> u8 list"
  cde_public_key :: public_key
  cde_digest :: "u8 list"

text \<open>CBOR for one type: \<^term>\<open>None\<close> is an error of the library.\<close>

record 'a codec =
  codec_to_vec :: "'a \<Rightarrow> u8 list option"
  codec_from_slice :: "u8 list \<Rightarrow> 'a option"

datatype route_error =
    HopDecodeProblem string
  | EmptyRoute
  | TooFewKeysInRouteSegment
  | DisjointRouteSegments

datatype codex_error =
    SerializationError
  | DeserializationError
  | EncryptionError cryptdec_error
  | DecryptionError cryptdec_error
  | RoutingError route_error

definition encodex :: "'a codec \<Rightarrow> cryptde \<Rightarrow> public_key \<Rightarrow> 'a \<Rightarrow> codex_error + crypt_data" where
  "encodex codec cryptde key item =
     (case codec_to_vec codec item of
        None \<Rightarrow> Inl SerializationError
      | Some serialized \<Rightarrow>
          (case cde_encode cryptde key serialized of
             Inr c \<Rightarrow> Inr c
           | Inl e \<Rightarrow> Inl (EncryptionError e)))"

definition decodex :: "'a codec \<Rightarrow> cryptde \<Rightarrow> crypt_data \<Rightarrow> (codex_error + 'a) option" where
  "decodex codec cryptde data = do {
     decoded \<leftarrow> cde_decode cryptde data;
     Some (case decoded of
       Inl e \<Rightarrow> Inl (DecryptionError e)
     | Inr decrypted \<Rightarrow>
         (case codec_from_slice codec decrypted of
            Some t \<Rightarrow> Inr t
          | None \<Rightarrow> Inl DeserializationError)) }"

section \<open>Encryption that can be undone\<close>

definition codec_ok :: "'a codec \<Rightarrow> bool" where
  "codec_ok codec \<longleftrightarrow> (\<forall>x. \<exists>d. codec_to_vec codec x = Some d \<and> d \<noteq> [] \<and> codec_from_slice codec d = Some x)"

text \<open>
  A network of Nodes, each with the \<open>CryptDE\<close> of its public key: whatever Node encrypts to
  a key, the Node of that key can decrypt it.
\<close>

definition cipher_ok :: "(public_key \<Rightarrow> cryptde) \<Rightarrow> bool" where
  "cipher_ok node \<longleftrightarrow> (\<forall>k. cde_public_key (node k) = k) \<and>
     (\<forall>j k d. k \<noteq> [] \<longrightarrow> d \<noteq> [] \<longrightarrow>
        (\<exists>c. cde_encode (node j) k d = Inr c \<and> cde_decode (node k) c = Some (Inr d)))"

locale cipher =
  fixes node :: "public_key \<Rightarrow> cryptde"
  assumes cipher: "cipher_ok node"
begin

lemma own_key [simp]: "cde_public_key (node k) = k"
  using cipher by (simp add: cipher_ok_def)

lemma encodex_decodex:
  assumes "codec_ok codec" "k \<noteq> []"
  shows "\<exists>c. encodex codec (node j) k x = Inr c \<and> decodex codec (node k) c = Some (Inr x)"
proof -
  obtain d where d: "codec_to_vec codec x = Some d" "d \<noteq> []" "codec_from_slice codec d = Some x"
    using assms(1) unfolding codec_ok_def by blast
  then obtain c where "cde_encode (node j) k d = Inr c" "cde_decode (node k) c = Some (Inr d)"
    using cipher assms(2) unfolding cipher_ok_def by blast
  with d show ?thesis by (simp add: encodex_def decodex_def)
qed

lemma decodex_encodex:
  assumes "codec_ok codec" "k \<noteq> []" "encodex codec (node j) k x = Inr c"
  shows "decodex codec (node k) c = Some (Inr x)"
  using encodex_decodex [OF assms(1,2), of j x] assms(3) by auto

end

section \<open>The implementation without encryption\<close>

text \<open>
  \<open>CryptDENull\<close>: a private key is the public key with 128 added to every byte, and
  encrypted data is the private key followed by the data.
\<close>

definition other_key_data :: "u8 list \<Rightarrow> u8 list" where
  "other_key_data = map (\<lambda>b. b + 128)"

definition encode_with_key_data :: "u8 list \<Rightarrow> u8 list \<Rightarrow> cryptdec_error + crypt_data" where
  "encode_with_key_data key_data data =
     (if key_data = [] then Inl EmptyKey
      else if data = [] then Inl EmptyData
      else Inr (key_data @ data))"

definition key_and_data :: "nat \<Rightarrow> crypt_data \<Rightarrow> (u8 list \<times> u8 list) option" where
  "key_and_data key_len data = (if key_len \<le> length data then Some (take key_len data, drop key_len data) else None)"

definition decode_with_key_data :: "u8 list \<Rightarrow> crypt_data \<Rightarrow> (cryptdec_error + u8 list) option" where
  "decode_with_key_data key_data data =
     (if key_data = [] then Some (Inl EmptyKey)
      else if data = [] then Some (Inl EmptyData)
      else if length data < length key_data then Some (Inl (InvalidKey key_data data))
      else do {
        (k, d) \<leftarrow> key_and_data (length key_data) data;
        if k \<noteq> key_data then None else Some (Inr d) })"

record cryptde_null =
  null_private_key :: "u8 list"
  null_public_key :: public_key
  null_digest :: "u8 list"
  next_symmetric_key_seed :: u64

text \<open>The digest of a key and the contract of the chain, a \<open>keccak\<close> hash, is an argument.\<close>

definition null_set_key_pair :: "(public_key \<Rightarrow> u8 list) \<Rightarrow> public_key \<Rightarrow> cryptde_null \<Rightarrow> cryptde_null" where
  "null_set_key_pair create_digest key n =
     n\<lparr>null_public_key := key, null_private_key := other_key_data key, null_digest := create_digest key\<rparr>"

definition null_encode :: "public_key \<Rightarrow> u8 list \<Rightarrow> cryptdec_error + crypt_data" where
  "null_encode key data = encode_with_key_data (other_key_data key) data"

definition null_decode :: "cryptde_null \<Rightarrow> crypt_data \<Rightarrow> (cryptdec_error + u8 list) option" where
  "null_decode n data = decode_with_key_data (null_private_key n) data"

definition null_random :: "nat \<Rightarrow> u8 list" where
  "null_random n = replicate n 0x34"

text \<open>Signing: the hash (of the \<open>sha1\<close> crate) is an argument.\<close>

definition null_sign :: "(u8 list \<Rightarrow> u8 list) \<Rightarrow> cryptde_null \<Rightarrow> u8 list \<Rightarrow> cryptdec_error + crypt_data" where
  "null_sign hash n data = encode_with_key_data (other_key_data (null_private_key n)) (hash data)"

definition null_verify_signature :: "(u8 list \<Rightarrow> u8 list) \<Rightarrow> u8 list \<Rightarrow> crypt_data \<Rightarrow> public_key \<Rightarrow> bool option" where
  "null_verify_signature hash data sig key = do {
     (private_key_bytes, _) \<leftarrow> key_and_data (length key) sig;
     if private_key_bytes \<noteq> key then Some False
     else do {
       decoded \<leftarrow> decode_with_key_data key sig;
       Some (case decoded of Inl _ \<Rightarrow> False | Inr claimed_hash \<Rightarrow> hash data = claimed_hash) } }"

text \<open>The bytes of the seed, least significant first, and the next seed.\<close>

definition null_gen_key_sym :: "cryptde_null \<Rightarrow> u8 list \<times> cryptde_null" where
  "null_gen_key_sym n =
     (map (\<lambda>i. ucast (drop_bit (8 * i) (next_symmetric_key_seed n) AND 0xFF)) [0..<8],
      n\<lparr>next_symmetric_key_seed := next_symmetric_key_seed n + 1\<rparr>)"

definition null_as_cryptde :: "cryptde_null \<Rightarrow> cryptde" where
  "null_as_cryptde n = \<lparr>cde_encode = null_encode, cde_decode = null_decode n, cde_random = null_random,
     cde_public_key = null_public_key n, cde_digest = null_digest n\<rparr>"

definition null_from :: "(public_key \<Rightarrow> u8 list) \<Rightarrow> public_key \<Rightarrow> cryptde" where
  "null_from create_digest key =
     null_as_cryptde (null_set_key_pair create_digest key
       \<lparr>null_private_key = [], null_public_key = [], null_digest = [], next_symmetric_key_seed = 0x0123456789ABCDEF\<rparr>)"

lemma other_key_data_involution [simp]: "other_key_data (other_key_data k) = k"
proof -
  have "(128 :: u8) + 128 = 0" by simp
  then have "(\<lambda>b :: u8. b + 128 + 128) = (\<lambda>b. b)" by (metis add.assoc add_0_right)
  then show ?thesis unfolding other_key_data_def map_map o_def by (simp only: list.map_ident)
qed

lemma other_key_data_empty [simp]: "other_key_data k = [] \<longleftrightarrow> k = []"
  by (simp add: other_key_data_def)

lemma decode_encoded:
  "key \<noteq> [] \<Longrightarrow> data \<noteq> [] \<Longrightarrow> decode_with_key_data key (key @ data) = Some (Inr data)"
  by (simp add: decode_with_key_data_def key_and_data_def)

lemma null_cipher: "cipher_ok (null_from create_digest)"
  by (simp add: cipher_ok_def null_from_def null_as_cryptde_def null_set_key_pair_def null_encode_def null_decode_def
      encode_with_key_data_def decode_encoded)

interpretation null: cipher "null_from create_digest" for create_digest
  by unfold_locales (rule null_cipher)

text \<open>Signatures verify under the signer's key, and under no other key of the same length.\<close>

lemma null_signature:
  assumes "null_private_key n = other_key_data key" "key \<noteq> []" "\<forall>d. hash d \<noteq> []"
  obtains sig where "null_sign hash n data = Inr sig" "null_verify_signature hash data sig key = Some True"
    "\<forall>other. length other = length key \<longrightarrow> other \<noteq> key \<longrightarrow> null_verify_signature hash data sig other = Some False"
    "\<forall>data'. hash data' \<noteq> hash data \<longrightarrow> null_verify_signature hash data' sig key = Some False"
proof -
  have "null_sign hash n data = Inr (key @ hash data)"
    using assms by (simp add: null_sign_def encode_with_key_data_def)
  moreover have "null_verify_signature hash data (key @ hash data) key = Some True"
    "\<forall>data'. hash data' \<noteq> hash data \<longrightarrow> null_verify_signature hash data' (key @ hash data) key = Some False"
    using assms by (auto simp: null_verify_signature_def key_and_data_def decode_encoded)
  moreover have "null_verify_signature hash data (key @ hash data) other = Some False"
    if "length other = length key" "other \<noteq> key" for other
    using that by (simp add: null_verify_signature_def key_and_data_def)
  ultimately show thesis using that by blast
qed

section \<open>A codec for examples\<close>

text \<open>Any countable type has a codec: a number of zeros.\<close>

definition unary_codec :: "'a::countable codec" where
  "unary_codec = \<lparr>codec_to_vec = (\<lambda>x. Some (replicate (Suc (to_nat x)) 0)), codec_from_slice = (\<lambda>d. Some (from_nat (length d - 1)))\<rparr>"

lemma unary_codec_ok: "codec_ok unary_codec"
  by (simp add: codec_ok_def unary_codec_def)

end
