(* ===== verification/Route.thy ===== *)
theory Route
  imports Cryptde
begin

text \<open>
  Model of \<open>node/src/sub_lib/route.rs\<close> and \<open>hop.rs\<close>: a route is a list of hops, each
  encrypted to the Node that will read it.  Making a payer from a wallet signs with the
  wallet's key and is an argument \<open>as_payer\<close>, which may panic.
\<close>

section \<open>Hops and segments\<close>

datatype component = CNeighborhood | CHopper | CProxyServer | CProxyClient

record 'p live_hop =
  hop_public_key :: public_key
  hop_payer :: "'p option"
  hop_component :: component

definition live_hop_new :: "public_key \<Rightarrow> 'p option \<Rightarrow> component \<Rightarrow> 'p live_hop" where
  "live_hop_new key payer component = \<lparr>hop_public_key = key, hop_payer = payer, hop_component = component\<rparr>"

type_synonym route = "crypt_data list"

record route_segment =
  segment_keys :: "public_key list"
  segment_recipient :: component

definition route_segment_new :: "public_key list \<Rightarrow> component \<Rightarrow> route_segment" where
  "route_segment_new ks recipient = \<lparr>segment_keys = ks, segment_recipient = recipient\<rparr>"

definition hop_encode :: "'p live_hop codec \<Rightarrow> 'p live_hop \<Rightarrow> public_key \<Rightarrow> cryptde \<Rightarrow> codex_error + crypt_data" where
  "hop_encode codec hop key cryptde = encodex codec cryptde key hop"

definition hop_decode :: "'p live_hop codec \<Rightarrow> cryptde \<Rightarrow> crypt_data \<Rightarrow> (codex_error + 'p live_hop) option" where
  "hop_decode codec cryptde data = decodex codec cryptde data"

definition payer_owns_secret_key :: "('p \<Rightarrow> u8 list \<Rightarrow> bool option) \<Rightarrow> 'p live_hop \<Rightarrow> u8 list \<Rightarrow> bool option" where
  "payer_owns_secret_key owns hop dig =
     (case hop_payer hop of Some p \<Rightarrow> owns p dig | None \<Rightarrow> Some False)"

section \<open>Constructing a route\<close>

text \<open>
  What paying for a route needs: the codecs, the payer of a wallet for the Node at a key
  under a contract, and the address that stands for no contract.
\<close>

record ('p, 'w, 'a) payment =
  hop_codec :: "'p live_hop codec"
  id_codec :: "u32 codec"
  as_payer :: "'w \<Rightarrow> public_key \<Rightarrow> 'a \<Rightarrow> 'p option"
  zero_address :: 'a

definition payer_for :: "('p, 'w, 'a) payment \<Rightarrow> 'w option \<Rightarrow> 'a option \<Rightarrow> public_key \<Rightarrow> 'p option option" where
  "payer_for pay consuming_wallet contract_address key =
     (case consuming_wallet of
        None \<Rightarrow> Some None
      | Some w \<Rightarrow> map_option Some (as_payer pay w key (case contract_address of Some a \<Rightarrow> a | None \<Rightarrow> zero_address pay)))"

definition tuple_windows :: "'b list \<Rightarrow> ('b \<times> 'b) list" where
  "tuple_windows xs = zip xs (tl xs)"

definition validate_route_segments :: "route_segment \<Rightarrow> route_segment option \<Rightarrow> route_error option" where
  "validate_route_segments over back =
     (if segment_keys over = [] then Some TooFewKeysInRouteSegment
      else (case back of
              None \<Rightarrow> None
            | Some b \<Rightarrow>
                if segment_keys b = [] then Some TooFewKeysInRouteSegment
                else if hd (segment_keys b) \<noteq> last (segment_keys over) then Some DisjointRouteSegments
                else None))"

definition over_segment :: "('p, 'w, 'a) payment \<Rightarrow> bool \<Rightarrow> 'w option \<Rightarrow> public_key list \<Rightarrow> component \<Rightarrow> 'a option \<Rightarrow>
    'p live_hop list option" where
  "over_segment pay one_way consuming_wallet over_keys over_component contract_address = do {
     hops \<leftarrow> those (map (\<lambda>(current_key, next_key). do {
         payer \<leftarrow> payer_for pay consuming_wallet contract_address current_key;
         Some (live_hop_new next_key payer CHopper) }) (tuple_windows over_keys));
     let last_key = (if tuple_windows over_keys = [] then None else Some (last over_keys));
     if one_way then
       (case last_key of
          Some last_hop_key \<Rightarrow> do {
            payer \<leftarrow> payer_for pay consuming_wallet contract_address last_hop_key;
            Some (hops @ [live_hop_new [] payer over_component]) }
        | None \<Rightarrow> Some (hops @ [live_hop_new [] None over_component]))
     else Some hops }"

definition back_segment :: "('p, 'w, 'a) payment \<Rightarrow> route_segment option \<Rightarrow> 'w option \<Rightarrow> component \<Rightarrow> 'p live_hop list \<Rightarrow> 'a option \<Rightarrow>
    'p live_hop list option" where
  "back_segment pay back_option consuming_wallet over_component hops contract_address =
     (case back_option of
        None \<Rightarrow> Some hops
      | Some back \<Rightarrow> do {
          let back_keys = segment_keys back;
          back_hops \<leftarrow> those (map (\<lambda>(key_index, current_key, next_key). do {
              payer \<leftarrow> payer_for pay consuming_wallet contract_address current_key;
              Some (live_hop_new next_key payer (if key_index = 0 then over_component else CHopper)) })
            (List.enumerate 0 (tuple_windows back_keys)));
          (case last_opt back_keys of
             Some current_key \<Rightarrow> do {
               payer \<leftarrow> payer_for pay consuming_wallet contract_address current_key;
               Some (hops @ back_hops @ [live_hop_new [] payer (segment_recipient back)]) }
           | None \<Rightarrow> Some (hops @ back_hops @ [live_hop_new [] None (segment_recipient back)])) })"

fun encode_hops :: "'p live_hop codec \<Rightarrow> cryptde \<Rightarrow> public_key \<Rightarrow> 'p live_hop list \<Rightarrow> codex_error + crypt_data list" where
  "encode_hops codec cryptde hop_key [] = Inr []"
| "encode_hops codec cryptde hop_key (data_hop # hops) =
     (case hop_encode codec data_hop hop_key cryptde of
        Inl e \<Rightarrow> Inl e
      | Inr c \<Rightarrow>
          (case encode_hops codec cryptde (hop_public_key data_hop) hops of
             Inl e \<Rightarrow> Inl e
           | Inr cs \<Rightarrow> Inr (c # cs)))"

definition encrypt_return_route_id :: "u32 codec \<Rightarrow> u32 \<Rightarrow> cryptde \<Rightarrow> crypt_data option" where
  "encrypt_return_route_id codec return_route_id cryptde =
     (case encodex codec cryptde (cde_public_key cryptde) return_route_id of
        Inr c \<Rightarrow> Some c
      | Inl _ \<Rightarrow> None)"

definition hops_to_route :: "('p, 'w, 'a) payment \<Rightarrow> 'p live_hop list \<Rightarrow> public_key \<Rightarrow> u32 option \<Rightarrow> cryptde \<Rightarrow> (codex_error + route) option" where
  "hops_to_route pay hops top_hop_key return_route_id_opt cryptde =
     (case encode_hops (hop_codec pay) cryptde top_hop_key hops of
        Inl e \<Rightarrow> Some (Inl e)
      | Inr hops_enc \<Rightarrow>
          (case return_route_id_opt of
             Some return_route_id \<Rightarrow> do {
               c \<leftarrow> encrypt_return_route_id (id_codec pay) return_route_id cryptde;
               Some (Inr (hops_enc @ [c])) }
           | None \<Rightarrow> Some (Inr hops_enc)))"

definition construct :: "('p, 'w, 'a) payment \<Rightarrow> route_segment \<Rightarrow> route_segment option \<Rightarrow> cryptde \<Rightarrow> 'w option \<Rightarrow> u32 option \<Rightarrow> 'a option \<Rightarrow>
    (codex_error + route) option" where
  "construct pay over back cryptde consuming_wallet return_route_id_opt contract_address =
     (case validate_route_segments over back of
        Some error \<Rightarrow> Some (Inl (RoutingError error))
      | None \<Rightarrow> do {
          hops \<leftarrow> over_segment pay (back = None) consuming_wallet (segment_keys over) (segment_recipient over) contract_address;
          hops \<leftarrow> back_segment pay back consuming_wallet (segment_recipient over) hops contract_address;
          hops_to_route pay hops (hd (segment_keys over)) return_route_id_opt cryptde })"

definition single_hop :: "('p, 'w, 'a) payment \<Rightarrow> public_key \<Rightarrow> cryptde \<Rightarrow> (codex_error + route) option" where
  "single_hop pay destination cryptde =
     construct pay (route_segment_new [cde_public_key cryptde, destination] CNeighborhood) None cryptde None None None"

definition one_way :: "('p, 'w, 'a) payment \<Rightarrow> route_segment \<Rightarrow> cryptde \<Rightarrow> 'w option \<Rightarrow> 'a option \<Rightarrow> (codex_error + route) option" where
  "one_way pay route_segment cryptde consuming_wallet contract_address =
     construct pay route_segment None cryptde consuming_wallet None contract_address"

definition round_trip :: "('p, 'w, 'a) payment \<Rightarrow> route_segment \<Rightarrow> route_segment \<Rightarrow> cryptde \<Rightarrow> 'w option \<Rightarrow> u32 \<Rightarrow> 'a option \<Rightarrow>
    (codex_error + route) option" where
  "round_trip pay over back cryptde consuming_wallet return_route_id contract_address =
     construct pay over (Some back) cryptde consuming_wallet (Some return_route_id) contract_address"

section \<open>Following a route\<close>

definition route_id :: "u32 codec \<Rightarrow> route \<Rightarrow> cryptde \<Rightarrow> (codex_error option + u32) option" where
  "route_id codec route cryptde =
     (case first_opt route of
        Some first \<Rightarrow> do {
          r \<leftarrow> decodex codec cryptde first;
          Some (case r of Inr n \<Rightarrow> Inr n | Inl e \<Rightarrow> Inl (Some e)) }
      | None \<Rightarrow> Some (Inl None))"

definition next_hop :: "'p live_hop codec \<Rightarrow> route \<Rightarrow> cryptde \<Rightarrow> (codex_error + 'p live_hop) option" where
  "next_hop codec route cryptde =
     (case first_opt route of
        None \<Rightarrow> Some (Inl (RoutingError EmptyRoute))
      | Some first \<Rightarrow> hop_decode codec cryptde first)"

text \<open>The route after the call: on a decoding error the top hop is gone and nothing is appended.\<close>

definition shift :: "'p live_hop codec \<Rightarrow> route \<Rightarrow> cryptde \<Rightarrow> ((codex_error + 'p live_hop) \<times> route) option" where
  "shift codec route cryptde =
     (case route of
        [] \<Rightarrow> Some (Inl (RoutingError EmptyRoute), route)
      | top_hop # hops \<Rightarrow> do {
          r \<leftarrow> hop_decode codec cryptde top_hop;
          Some (case r of
             Inl e \<Rightarrow> (Inl e, hops)
           | Inr hop \<Rightarrow> (Inr hop, hops @ [cde_random cryptde (length top_hop)])) })"

section \<open>What a route carries\<close>

text \<open>
  A route that carries a list of hops, the first one readable by the Node of a key and
  each following one by the Node that the hop before it names.
\<close>

fun carries :: "'p live_hop codec \<Rightarrow> (public_key \<Rightarrow> cryptde) \<Rightarrow> public_key \<Rightarrow> 'p live_hop list \<Rightarrow> crypt_data list \<Rightarrow> bool" where
  "carries codec node key [] route \<longleftrightarrow> True"
| "carries codec node key (hop # hops) route \<longleftrightarrow>
     (case route of
        [] \<Rightarrow> False
      | c # cs \<Rightarrow> decodex codec (node key) c = Some (Inr hop) \<and> carries codec node (hop_public_key hop) hops cs)"

lemma carries_append: "carries codec node key hops route \<Longrightarrow> carries codec node key hops (route @ rest)"
  by (induction hops arbitrary: key route) (auto split: list.splits)

text \<open>The keys to which the hops of a list are encrypted.\<close>

definition reader_keys :: "public_key \<Rightarrow> 'p live_hop list \<Rightarrow> public_key list" where
  "reader_keys key hops = key # butlast (map hop_public_key hops)"

lemma next_hop_carries: "carries codec node key (hop # hops) route \<Longrightarrow> next_hop codec route (node key) = Some (Inr hop)"
  by (auto simp: next_hop_def hop_decode_def first_opt_def split: list.splits)

lemma shift_carries:
  assumes "carries codec node key (hop # hops) route"
  obtains route' where "shift codec route (node key) = Some (Inr hop, route')" "carries codec node (hop_public_key hop) hops route'"
    "length route' = length route" "\<exists>g. route' = tl route @ [g]"
  using assms that by (auto simp: shift_def hop_decode_def carries_append split: list.splits)

section \<open>The hops of a constructed route\<close>

text \<open>
  The hops along a list of keys: each names the next key and the payer for the current
  one; the first hop is for a given component, the others are for the Hopper.
\<close>

definition hops_along :: "(public_key \<Rightarrow> 'p option) \<Rightarrow> component \<Rightarrow> public_key list \<Rightarrow> 'p live_hop list" where
  "hops_along payer first ks = map (\<lambda>(i, current_key, next_key). live_hop_new next_key (payer current_key) (if i = 0 then first else CHopper))
     (List.enumerate 0 (tuple_windows ks))"

definition last_hop :: "(public_key \<Rightarrow> 'p option) \<Rightarrow> component \<Rightarrow> public_key list \<Rightarrow> 'p live_hop" where
  "last_hop payer recipient ks = live_hop_new [] (payer (last ks)) recipient"

lemma those_map_Some: "those (map (\<lambda>x. Some (f x)) xs) = Some (map f xs)"
  by (induction xs) simp_all

lemma hops_along_hopper: "hops_along payer CHopper ks = map (\<lambda>(c, n). live_hop_new n (payer c) CHopper) (tuple_windows ks)"
proof -
  have "map (\<lambda>(i, c, n). live_hop_new n (payer c) CHopper) (List.enumerate k ws) = map (\<lambda>(c, n). live_hop_new n (payer c) CHopper) ws" for k ws
    by (induction ws arbitrary: k) auto
  then show ?thesis by (simp add: hops_along_def)
qed

lemma tuple_windows_empty [simp]: "tuple_windows ks = [] \<longleftrightarrow> length ks \<le> 1"
  by (cases ks rule: remdups_adj.cases) (auto simp: tuple_windows_def)

lemma hops_along_keys: "map hop_public_key (hops_along payer first ks) = tl ks"
proof -
  have "map (\<lambda>(i, c, n). n) (List.enumerate k (zip xs ys)) = take (min (length xs) (length ys)) ys" for k and xs ys :: "public_key list"
    by (induction xs arbitrary: k ys) (auto split: list.split simp: zip_Cons1)
  then show ?thesis by (simp add: hops_along_def live_hop_new_def split_def o_def tuple_windows_def)
qed

lemma over_segment_hops:
  assumes "\<forall>k. payer_for pay wallet contract k = Some (payer k)"
  shows "over_segment pay False wallet ks recipient contract = Some (hops_along payer CHopper ks)"
    "2 \<le> length ks \<Longrightarrow> over_segment pay True wallet ks recipient contract =
       Some (hops_along payer CHopper ks @ [last_hop payer recipient ks])"
  using assms by (simp_all add: over_segment_def hops_along_hopper last_hop_def those_map_Some split_def)

lemma back_segment_hops:
  assumes "\<forall>k. payer_for pay wallet contract k = Some (payer k)" "segment_keys back \<noteq> []"
  shows "back_segment pay (Some back) wallet over_component hops contract =
     Some (hops @ hops_along payer over_component (segment_keys back) @ [last_hop payer (segment_recipient back) (segment_keys back)])"
  using assms by (simp add: back_segment_def hops_along_def last_hop_def those_map_Some split_def last_opt_def Let_def)

context cipher
begin

lemma encode_hops_ok:
  assumes "codec_ok codec" "key \<noteq> []" "\<forall>hop \<in> set (butlast hops). hop_public_key hop \<noteq> []"
  shows "\<exists>cs. encode_hops codec (node j) key hops = Inr cs \<and> carries codec node key hops cs \<and> length cs = length hops"
  using assms(2,3)
proof (induction hops arbitrary: key)
  case (Cons hop hops)
  obtain c where c: "encodex codec (node j) key hop = Inr c" "decodex codec (node key) c = Some (Inr hop)"
    using encodex_decodex [OF assms(1) Cons.prems(1)] by blast
  show ?case
  proof (cases "hops = []")
    case True
    then show ?thesis using c by (simp add: hop_encode_def)
  next
    case False
    with Cons.prems have "hop_public_key hop \<noteq> []" "\<forall>h \<in> set (butlast hops). hop_public_key h \<noteq> []" by simp_all
    with Cons.IH obtain cs where "encode_hops codec (node j) (hop_public_key hop) hops = Inr cs"
      "carries codec node (hop_public_key hop) hops cs" "length cs = length hops" by blast
    with c show ?thesis by (simp add: hop_encode_def)
  qed
qed simp

text \<open>A one-way route carries the hops along its keys and ends at its recipient.\<close>

lemma one_way_carries:
  assumes payer: "\<forall>k. payer_for pay wallet contract k = Some (payer k)" and codec: "codec_ok (hop_codec pay)"
    and ks: "2 \<le> length ks" "\<forall>k \<in> set ks. k \<noteq> []"
  obtains r where "one_way pay (route_segment_new ks recipient) (node j) wallet contract = Some (Inr r)"
    "carries (hop_codec pay) node (hd ks) (hops_along payer CHopper ks @ [last_hop payer recipient ks]) r"
proof -
  define hops where "hops = hops_along payer CHopper ks @ [last_hop payer recipient ks]"
  have "hd ks \<noteq> []" "ks \<noteq> []" using ks by (cases ks; force)+
  moreover have "\<forall>hop \<in> set (butlast hops). hop_public_key hop \<noteq> []"
  proof
    fix hop assume "hop \<in> set (butlast hops)"
    then have "hop_public_key hop \<in> set (map hop_public_key (hops_along payer CHopper ks))" by (simp add: hops_def)
    then show "hop_public_key hop \<noteq> []" unfolding hops_along_keys using ks(2) \<open>ks \<noteq> []\<close> by (auto dest: list.set_sel(2))
  qed
  ultimately obtain cs where "encode_hops (hop_codec pay) (node j) (hd ks) hops = Inr cs" "carries (hop_codec pay) node (hd ks) hops cs"
    using encode_hops_ok [OF codec] by blast
  with \<open>ks \<noteq> []\<close> that show thesis
    by (simp add: one_way_def construct_def validate_route_segments_def route_segment_new_def over_segment_hops [OF payer] ks
        back_segment_def hops_to_route_def hops_def)
qed

text \<open>
  A round trip carries the hops over and back; after them comes the return route's
  number, which the Node that made the route can read.
\<close>

lemma round_trip_carries:
  assumes payer: "\<forall>k. payer_for pay wallet contract k = Some (payer k)" and codec: "codec_ok (hop_codec pay)" "codec_ok (id_codec pay)"
    and ks: "over \<noteq> []" "back \<noteq> []" "hd back = last over" "\<forall>k \<in> set over \<union> set back. k \<noteq> []" "j \<noteq> []"
  obtains cs c where
    "round_trip pay (route_segment_new over over_recipient) (route_segment_new back back_recipient) (node j) wallet i contract = Some (Inr (cs @ [c]))"
    "carries (hop_codec pay) node (hd over)
       (hops_along payer CHopper over @ hops_along payer over_recipient back @ [last_hop payer back_recipient back]) cs"
    "length cs = length over + length back - 1" "route_id (id_codec pay) [c] (node j) = Some (Inr i)"
proof -
  define hops where "hops = hops_along payer CHopper over @ hops_along payer over_recipient back @ [last_hop payer back_recipient back]"
  have "hd over \<noteq> []" using ks by auto
  moreover have "\<forall>hop \<in> set (butlast hops). hop_public_key hop \<noteq> []"
  proof
    fix hop assume "hop \<in> set (butlast hops)"
    then have "hop_public_key hop \<in> set (map hop_public_key (hops_along payer CHopper over)) \<union>
        set (map hop_public_key (hops_along payer over_recipient back))" by (auto simp: hops_def butlast_append)
    then show "hop_public_key hop \<noteq> []" unfolding hops_along_keys using ks(1,2,4) by (auto dest: list.set_sel(2))
  qed
  ultimately obtain cs where cs: "encode_hops (hop_codec pay) (node j) (hd over) hops = Inr cs" "carries (hop_codec pay) node (hd over) hops cs"
    "length cs = length hops" using encode_hops_ok [OF codec(1)] by blast
  obtain c where c: "encodex (id_codec pay) (node j) j i = Inr c" "decodex (id_codec pay) (node j) c = Some (Inr i)"
    using encodex_decodex [OF codec(2) ks(5)] by blast
  have "length hops = length over + length back - 1"
    using ks(1,2) by (cases over; cases "back") (auto simp: hops_def hops_along_def tuple_windows_def)
  with that cs c ks show thesis
    by (simp add: round_trip_def construct_def validate_route_segments_def route_segment_new_def over_segment_hops [OF payer]
        back_segment_hops [OF payer] hops_to_route_def hops_def encrypt_return_route_id_def route_id_def)
qed

end

end
