(* ===== verification/Payer.thy ===== *)
theory Payer
  imports Route
begin

text \<open>
  Model of \<open>node/src/sub_lib/wallet.rs\<close>, \<open>blockchain/payer.rs\<close> and the cache of banned wallets
  of \<open>accountant/db_access_objects/banned_dao.rs\<close>.  The Ethereum signatures and the hash are
  arguments; \<open>eth_ok\<close> is what the sources rely on, that the key which made a signature is
  recovered from it.
\<close>

record 's eth_ops =
  eth_secret_address :: "u8 list \<Rightarrow> u8 list"
  eth_public_address :: "u8 list \<Rightarrow> u8 list"
  eth_sign :: "u8 list \<Rightarrow> u8 list \<Rightarrow> 's option"
  eth_recover :: "'s \<Rightarrow> u8 list \<Rightarrow> u8 list option"
  eth_verify :: "u8 list \<Rightarrow> 's \<Rightarrow> u8 list \<Rightarrow> bool option"
  keccak256 :: "u8 list \<Rightarrow> u8 list"

definition eth_ok :: "'s eth_ops \<Rightarrow> bool" where
  "eth_ok eth \<longleftrightarrow> (\<forall>sk d. \<exists>s pk. eth_sign eth sk d = Some s \<and> eth_recover eth s d = Some pk \<and>
     eth_verify eth pk s d = Some True \<and> eth_public_address eth pk = eth_secret_address eth sk)"

definition create_digest :: "'s eth_ops \<Rightarrow> u8 list \<Rightarrow> u8 list \<Rightarrow> u8 list" where
  "create_digest eth msg address = keccak256 eth (msg @ address)"

section \<open>Wallets\<close>

datatype wallet_error = InvalidAddress | SignatureError string

definition wallet_address :: "'s eth_ops \<Rightarrow> wallet \<Rightarrow> u8 list option" where
  "wallet_address eth w =
     (case w of
        WalletAddress address \<Rightarrow> Some address
      | WalletPublicKey public \<Rightarrow> Some (eth_public_address eth public)
      | WalletSecretKey secret \<Rightarrow> Some (eth_secret_address eth secret)
      | WalletUninitialized \<Rightarrow> None)"

definition as_address_wallet :: "'s eth_ops \<Rightarrow> wallet \<Rightarrow> wallet option" where
  "as_address_wallet eth w = map_option WalletAddress (wallet_address eth w)"

definition wallet_sign :: "'s eth_ops \<Rightarrow> wallet \<Rightarrow> u8 list \<Rightarrow> wallet_error + 's" where
  "wallet_sign eth w msg =
     (case w of
        WalletSecretKey secret \<Rightarrow>
          (case eth_sign eth secret msg of Some s \<Rightarrow> Inr s | None \<Rightarrow> Inl (SignatureError ''''))
      | _ \<Rightarrow> Inl (SignatureError ''Cannot sign with non-keypair wallet''))"

definition wallet_verify :: "'s eth_ops \<Rightarrow> (u8 list \<Rightarrow> u8 list) \<Rightarrow> wallet \<Rightarrow> 's \<Rightarrow> u8 list \<Rightarrow> bool option" where
  "wallet_verify eth public_of w sig msg =
     (case w of
        WalletSecretKey secret \<Rightarrow>
          (case eth_verify eth (public_of secret) sig msg of Some result \<Rightarrow> Some result | None \<Rightarrow> Some False)
      | _ \<Rightarrow> None)"

definition wallet_congruent :: "'s eth_ops \<Rightarrow> wallet \<Rightarrow> wallet \<Rightarrow> bool" where
  "wallet_congruent eth w v \<longleftrightarrow>
     w = v \<or> (w \<noteq> WalletUninitialized \<and> v \<noteq> WalletUninitialized \<and> wallet_address eth w = wallet_address eth v)"

section \<open>Payers\<close>

record 's payer =
  payer_wallet :: wallet
  payer_proof :: 's

definition payer_new :: "'s eth_ops \<Rightarrow> wallet \<Rightarrow> 's \<Rightarrow> 's payer option" where
  "payer_new eth w proof = do {
     w \<leftarrow> as_address_wallet eth w;
     Some \<lparr>payer_wallet = w, payer_proof = proof\<rparr> }"

definition payer_congruent :: "'s eth_ops \<Rightarrow> 's payer \<Rightarrow> 's payer \<Rightarrow> bool" where
  "payer_congruent eth p q \<longleftrightarrow> wallet_congruent eth (payer_wallet p) (payer_wallet q) \<and> payer_proof p = payer_proof q"

definition owns_secret_key :: "'s eth_ops \<Rightarrow> 's payer \<Rightarrow> u8 list \<Rightarrow> bool option" where
  "owns_secret_key eth p dig =
     (case eth_recover eth (payer_proof p) dig of
        Some payer_public_key \<Rightarrow>
          (case eth_verify eth payer_public_key (payer_proof p) dig of
             Some result \<Rightarrow>
               if result then map_option (\<lambda>a. eth_public_address eth payer_public_key = a) (wallet_address eth (payer_wallet p))
               else Some False
           | None \<Rightarrow> Some False)
      | None \<Rightarrow> Some False)"

definition wallet_as_payer :: "'s eth_ops \<Rightarrow> wallet \<Rightarrow> public_key \<Rightarrow> u8 list \<Rightarrow> 's payer option" where
  "wallet_as_payer eth w key contract_address =
     (case wallet_sign eth w (create_digest eth key contract_address) of
        Inr proof \<Rightarrow> payer_new eth w proof
      | Inl _ \<Rightarrow> None)"

section \<open>Banned wallets\<close>

type_synonym banned_cache = "wallet fset"

definition ban_insert :: "'s eth_ops \<Rightarrow> banned_cache \<Rightarrow> wallet \<Rightarrow> banned_cache option" where
  "ban_insert eth cache w = map_option (\<lambda>w. finsert w cache) (as_address_wallet eth w)"

definition ban_remove :: "'s eth_ops \<Rightarrow> banned_cache \<Rightarrow> wallet \<Rightarrow> banned_cache option" where
  "ban_remove eth cache w = map_option (\<lambda>w. cache |-| {|w|}) (as_address_wallet eth w)"

definition is_banned :: "'s eth_ops \<Rightarrow> banned_cache \<Rightarrow> wallet \<Rightarrow> bool option" where
  "is_banned eth cache w = map_option (\<lambda>w. w |\<in>| cache) (as_address_wallet eth w)"

definition is_delinquent :: "'s eth_ops \<Rightarrow> banned_cache \<Rightarrow> 's payer \<Rightarrow> bool option" where
  "is_delinquent eth cache p = is_banned eth cache (payer_wallet p)"

section \<open>What a payer proves\<close>

lemma as_address_wallet_idem [simp]:
  "as_address_wallet eth w = Some v \<Longrightarrow> as_address_wallet eth v = Some v"
  "as_address_wallet eth w = Some v \<Longrightarrow> wallet_address eth v = wallet_address eth w"
  by (auto simp: as_address_wallet_def wallet_address_def split: wallet.splits)

text \<open>A wallet with a secret key makes a payer that proves, for the digest it was made for, that it owns the key.\<close>

lemma as_payer_owns:
  assumes "eth_ok eth"
  obtains p where "wallet_as_payer eth (WalletSecretKey sk) key contract = Some p"
    "payer_wallet p = WalletAddress (eth_secret_address eth sk)"
    "owns_secret_key eth p (create_digest eth key contract) = Some True"
proof -
  obtain s pk where s: "eth_sign eth sk (create_digest eth key contract) = Some s" "eth_recover eth s (create_digest eth key contract) = Some pk"
    "eth_verify eth pk s (create_digest eth key contract) = Some True" "eth_public_address eth pk = eth_secret_address eth sk"
    using assms unfolding eth_ok_def by metis
  then show thesis
    using that [of "\<lparr>payer_wallet = WalletAddress (eth_secret_address eth sk), payer_proof = s\<rparr>"]
    by (simp add: wallet_as_payer_def wallet_sign_def payer_new_def as_address_wallet_def wallet_address_def owns_secret_key_def)
qed

text \<open>Every wallet of one address is banned together, and freed together.\<close>

lemma ban_round_trip:
  assumes "wallet_congruent eth w v" "v \<noteq> WalletUninitialized" "ban_insert eth cache w = Some cache'"
  shows "is_banned eth cache' v = Some True" "\<exists>cache''. ban_remove eth cache' v = Some cache'' \<and> is_banned eth cache'' w = Some False"
  using assms by (auto simp: ban_insert_def ban_remove_def is_banned_def as_address_wallet_def wallet_congruent_def)

end
