(* ===== verification/Versioned_Data.thy ===== *)
theory Versioned_Data
  imports Cryptde Std_Net "HOL-Library.Finite_Map"
begin

text \<open>
  Model of the versions of data that Nodes exchange: \<open>masq_lib/src/data_version.rs\<close>,
  \<open>node/src/sub_lib/data_version.rs\<close> (a version packed in three bytes) and
  \<open>versioned_data.rs\<close> (the table of migration steps and the search for a chain of them).
  The iteration order of a \<open>HashMap\<close> is an argument.
\<close>

section \<open>Versions\<close>

datatype data_version = DataVersion (dv_major: u16) (dv_minor: u16)

text \<open>
  \<open>partial_cmp\<close> of the integers and of versions.  The operators \<open><\<close> and \<open>\<le>\<close> of versions are
  those that Rust derives from it.
\<close>

datatype ordering = Lesser | Same | Greater

definition integer_partial_cmp :: "'a::linorder \<Rightarrow> 'a \<Rightarrow> ordering option" where
  "integer_partial_cmp x y = Some (if x < y then Lesser else if x = y then Same else Greater)"

definition data_version_partial_cmp :: "data_version \<Rightarrow> data_version \<Rightarrow> ordering option" where
  "data_version_partial_cmp v w =
     (case integer_partial_cmp (dv_major v) (dv_major w) of
        None \<Rightarrow> None
      | Some Same \<Rightarrow> integer_partial_cmp (dv_minor v) (dv_minor w)
      | Some ord \<Rightarrow> Some ord)"

lemma data_version_eq_iff: "v = w \<longleftrightarrow> dv_major v = dv_major w \<and> dv_minor v = dv_minor w"
  by (cases v, cases w) simp

lemma data_version_partial_cmp_eq:
  "data_version_partial_cmp v w = Some Lesser \<longleftrightarrow> dv_major v < dv_major w \<or> dv_major v = dv_major w \<and> dv_minor v < dv_minor w"
  "data_version_partial_cmp v w = Some Same \<longleftrightarrow> v = w"
  by (auto simp: data_version_partial_cmp_def integer_partial_cmp_def data_version_eq_iff split: if_splits)

instantiation data_version :: linorder
begin

definition less_eq_data_version :: "data_version \<Rightarrow> data_version \<Rightarrow> bool" where
  "v \<le> w \<longleftrightarrow> data_version_partial_cmp v w \<in> {Some Lesser, Some Same}"

definition less_data_version :: "data_version \<Rightarrow> data_version \<Rightarrow> bool" where
  "v < w \<longleftrightarrow> data_version_partial_cmp v w = Some Lesser"

instance
  by standard (auto simp: less_eq_data_version_def less_data_version_def data_version_partial_cmp_eq data_version_eq_iff)

end

definition future_version :: data_version where
  "future_version = DataVersion 0xFFFF 0xFFFF"

definition data_version_new :: "u16 \<Rightarrow> u16 \<Rightarrow> data_version option" where
  "data_version_new major minor = (if 4095 < major \<or> 4095 < minor then None else Some (DataVersion major minor))"

definition data_version_display :: "data_version \<Rightarrow> string" where
  "data_version_display v =
     (if v = future_version then ''?.?'' else decimal (unat (dv_major v)) @ ''.'' @ decimal (unat (dv_minor v)))"

text \<open>\<open>str::parse::<u16>\<close>.\<close>

fun parse_digits :: "nat \<Rightarrow> string \<Rightarrow> nat option" where
  "parse_digits n [] = Some n"
| "parse_digits n (c # cs) =
     (case to_digit 10 c of None \<Rightarrow> None | Some d \<Rightarrow> parse_digits (10 * n + d) cs)"

definition parse_u16 :: "string \<Rightarrow> u16 option" where
  "parse_u16 s = do {
     let digits = (case s of c # cs \<Rightarrow> if c = CHR ''+'' then cs else s | [] \<Rightarrow> []);
     if digits = [] then None else do {
       n \<leftarrow> parse_digits 0 digits;
       if n < 65536 then Some (of_nat n) else None } }"

text \<open>\<open>DataVersion::from_str\<close>; the outer \<^term>\<open>None\<close> is the panic of \<open>DataVersion::new\<close>.\<close>

definition data_version_from_str :: "string \<Rightarrow> (string + data_version) option" where
  "data_version_from_str s =
     (let numbers_opt = fold (\<lambda>part sofar.
              (case (sofar, parse_u16 part) of
                 (None, _) \<Rightarrow> None
               | (Some _, None) \<Rightarrow> None
               | (Some prefix, Some n) \<Rightarrow> Some (prefix @ [n]))) (split_char CHR ''.'' s) (Some []);
          error = Inl (''DataVersion syntax is <major>.<minor>, not '' @ [CHR 0x27] @ s @ [CHR 0x27])
      in (case numbers_opt of
            None \<Rightarrow> Some error
          | Some numbers \<Rightarrow>
              (if length numbers \<noteq> 2 then Some error
               else map_option Inr (data_version_new (numbers ! 0) (numbers ! 1)))))"

subsection \<open>A version in three bytes\<close>

type_synonym packed_version = "u8 \<times> u8 \<times> u8"

definition packed_version_new :: "u16 \<Rightarrow> u16 \<Rightarrow> string + packed_version" where
  "packed_version_new major minor =
     (if 4096 \<le> major then Inl ''Major version out of bounds''
      else if 4096 \<le> minor then Inl ''Minor version out of bounds''
      else (let a = drop_bit 4 (major AND 0xFF0);
                b = push_bit 4 (major AND 0x0F) OR drop_bit 8 (minor AND 0xF00);
                c = minor AND 0xFF
            in Inr (ucast a, ucast b, ucast c)))"

fun packed_major :: "packed_version \<Rightarrow> u16" where
  "packed_major (a, b, c) = push_bit 4 (ucast a) OR drop_bit 4 (ucast b AND 0xF0)"

fun packed_minor :: "packed_version \<Rightarrow> u16" where
  "packed_minor (a, b, c) = push_bit 8 (ucast b AND 0x0F) OR ucast c"

section \<open>Migrations\<close>

datatype step_error =
    StepDeserializationError data_version data_version
  | SemanticError string

datatype migration_error =
    MigrationNotFound data_version data_version
  | MigrationFailed step_error

text \<open>A step may panic when it cannot serialize its result.\<close>

type_synonym migration_step = "u8 list \<Rightarrow> (step_error + u8 list) option"

type_synonym migration_table = "(data_version, (data_version, migration_step) fmap) fmap"

record migrations =
  current_version :: data_version
  migration_table :: migration_table

definition migrations_new :: "data_version \<Rightarrow> migrations" where
  "migrations_new v = \<lparr>current_version = v, migration_table = fmempty\<rparr>"

definition combo_step :: "migration_step list \<Rightarrow> migration_step" where
  "combo_step substeps data =
     fold (\<lambda>substep sofar. do {
         r \<leftarrow> sofar;
         (case r of Inl e \<Rightarrow> Some (Inl e) | Inr input \<Rightarrow> substep input) }) substeps (Some (Inr data))"

text \<open>The steps of \<open>migrate_item!\<close> and \<open>migrate_value!\<close>: read, convert, write.\<close>

definition migrate_item :: "data_version \<Rightarrow> 'f codec \<Rightarrow> data_version \<Rightarrow> 't codec \<Rightarrow> ('f \<Rightarrow> step_error + 't) \<Rightarrow> migration_step" where
  "migrate_item from_version from_codec to_version to_codec convert data =
     (case codec_from_slice from_codec data of
        None \<Rightarrow> Some (Inl (StepDeserializationError from_version to_version))
      | Some in_item \<Rightarrow>
          (case convert in_item of
             Inl e \<Rightarrow> Some (Inl e)
           | Inr out_item \<Rightarrow> map_option Inr (codec_to_vec to_codec out_item)))"

definition migrate_value :: "data_version \<Rightarrow> 'v codec \<Rightarrow> 't codec \<Rightarrow> ('v \<Rightarrow> step_error + 't) \<Rightarrow> migration_step" where
  "migrate_value to_version value_codec to_codec convert data =
     (case codec_from_slice value_codec data of
        None \<Rightarrow> Some (Inl (StepDeserializationError future_version to_version))
      | Some value \<Rightarrow>
          (case convert value of
             Inl e \<Rightarrow> Some (Inl e)
           | Inr out_item \<Rightarrow> map_option Inr (codec_to_vec to_codec out_item)))"

text \<open>\<^term>\<open>False\<close> is a panic.\<close>

definition validate_step :: "migrations \<Rightarrow> data_version \<Rightarrow> data_version \<Rightarrow> bool" where
  "validate_step m from to \<longleftrightarrow>
     to \<noteq> future_version \<and> from \<noteq> to \<and> \<not> current_version m < to \<and>
     (from \<noteq> future_version \<longrightarrow>
        \<not> to < from \<and> dv_major from = dv_major to \<and>
        dv_major from = dv_major (current_version m) \<and> dv_major to = dv_major (current_version m))"

definition add_step :: "migrations \<Rightarrow> data_version \<Rightarrow> data_version \<Rightarrow> migration_step \<Rightarrow> migrations option" where
  "add_step m from to step =
     (if validate_step m from to then
        (let from_map = (case fmlookup (migration_table m) from of None \<Rightarrow> fmempty | Some fm \<Rightarrow> fm)
         in Some (m\<lparr>migration_table := fmupd from (fmupd to step from_map) (migration_table m)\<rparr>))
      else None)"

text \<open>
  The search of \<open>find_migration_chain\<close>.  It looks at every step from a version and recurses,
  so its depth is bounded only by the table; the first argument is the depth allowed.
\<close>

fun find_migration_chain :: "nat \<Rightarrow> (data_version fset \<Rightarrow> data_version list) \<Rightarrow> migration_table \<Rightarrow> data_version \<Rightarrow> data_version \<Rightarrow>
    migration_step list option" where
  "find_migration_chain 0 order table from to = None"
| "find_migration_chain (Suc n) order table from to = do {
     from_map \<leftarrow> fmlookup table from;
     candidates \<leftarrow> those (map (\<lambda>next_key. do {
         migration \<leftarrow> fmlookup from_map next_key;
         if next_key = to then Some (Some [migration])
         else do {
           tail \<leftarrow> find_migration_chain n order table next_key to;
           Some (if tail = [] then None else Some (migration # tail)) } }) (order (fmdom from_map)));
     Some (fold (\<lambda>candidate sofar. if sofar = [] \<or> length candidate < length sofar then candidate else sofar)
       (List.map_filter id candidates) []) }"

text \<open>Every step goes to a later version that is again in the table, so this depth is enough.\<close>

definition chain_depth :: "migration_table \<Rightarrow> nat" where
  "chain_depth table = Suc (fcard (fmdom table))"

definition migration :: "(data_version fset \<Rightarrow> data_version list) \<Rightarrow> migrations \<Rightarrow> data_version \<Rightarrow> (migration_step option \<times> migrations) option" where
  "migration order m from_version =
     (case fmlookup (migration_table m) from_version of
        None \<Rightarrow> Some (None, m)
      | Some from_map \<Rightarrow>
          (case fmlookup from_map (current_version m) of
             Some step \<Rightarrow> Some (Some step, m)
           | None \<Rightarrow> do {
               elements \<leftarrow> find_migration_chain (chain_depth (migration_table m)) order (migration_table m) from_version (current_version m);
               if elements = [] then Some (None, m)
               else (let step = combo_step elements
                     in Some (Some step, m\<lparr>migration_table :=
                          fmupd from_version (fmupd (current_version m) step from_map) (migration_table m)\<rparr>)) }))"

record versioned_data =
  vd_version :: data_version
  vd_bytes :: "u8 list"

definition versioned_data_new :: "'a codec \<Rightarrow> migrations \<Rightarrow> 'a \<Rightarrow> versioned_data option" where
  "versioned_data_new codec m data = do {
     bytes \<leftarrow> codec_to_vec codec data;
     Some \<lparr>vd_version = current_version m, vd_bytes = bytes\<rparr> }"

definition extract_bytes :: "(data_version fset \<Rightarrow> data_version list) \<Rightarrow> migrations \<Rightarrow> versioned_data \<Rightarrow>
    ((migration_error + u8 list) \<times> migrations) option" where
  "extract_bytes order m vd =
     (let from_version = (if current_version m < vd_version vd then future_version else vd_version vd)
      in if from_version = current_version m then Some (Inr (vd_bytes vd), m)
         else do {
           (step_opt, m) \<leftarrow> migration order m from_version;
           (case step_opt of
              None \<Rightarrow> Some (Inl (MigrationNotFound from_version (current_version m)), m)
            | Some step \<Rightarrow> do {
                r \<leftarrow> step (vd_bytes vd);
                Some (case r of Inl e \<Rightarrow> Inl (MigrationFailed e) | Inr bytes \<Rightarrow> Inr bytes, m) }) })"

definition vd_extract :: "'a codec \<Rightarrow> (data_version fset \<Rightarrow> data_version list) \<Rightarrow> migrations \<Rightarrow> versioned_data \<Rightarrow>
    ((migration_error + 'a) \<times> migrations) option" where
  "vd_extract codec order m vd = do {
     (r, m) \<leftarrow> extract_bytes order m vd;
     Some (case r of
         Inl e \<Rightarrow> Inl e
       | Inr migrated_bytes \<Rightarrow>
           (case codec_from_slice codec migrated_bytes of
              None \<Rightarrow> Inl (MigrationFailed (StepDeserializationError (current_version m) (current_version m)))
            | Some item \<Rightarrow> Inr item), m) }"

section \<open>Reading what was written\<close>

lemma version_masks:
  "0xFF0 = push_bit 4 (mask 8 :: u16)" "0x0F = (mask 4 :: u16)" "0xF00 = push_bit 8 (mask 4 :: u16)"
  "0xFF = (mask 8 :: u16)" "0xF0 = push_bit 4 (mask 4 :: u16)"
  by (simp_all add: mask_eq_exp_minus_1 push_bit_eq_mult)

lemma packed_version_round_trip:
  assumes "major < 4096" "minor < 4096"
  shows "\<exists>v. packed_version_new major minor = Inr v \<and> packed_major v = major \<and> packed_minor v = minor"
proof -
  have small: "\<not> bit w n" if "w < 4096" "12 \<le> n" for w :: u16 and n
  proof
    assume "bit w n"
    then have "bit (unat w) n" by (simp add: bit_unsigned_iff bit_imp_le_length)
    moreover have "unat w < 2 ^ n"
      using that by (simp add: word_less_nat_alt order.strict_trans2 [OF _ power_increasing [of 12 n 2]])
    ultimately show False by (simp add: bit_iff_odd)
  qed
  define a where "a = (ucast (drop_bit 4 (major AND 0xFF0)) :: u8)"
  define b where "b = (ucast (push_bit 4 (major AND 0x0F) OR drop_bit 8 (minor AND 0xF00)) :: u8)"
  define c where "c = (ucast (minor AND 0xFF) :: u8)"
  have "packed_major (a, b, c) = major"
  proof (rule bit_word_eqI)
    fix n assume "n < LENGTH(16)"
    then show "bit (packed_major (a, b, c)) n = bit major n"
      using small [OF assms(1), of n] by (cases "n < 12") (auto simp: a_def b_def c_def version_masks bit_simps)
  qed
  moreover have "packed_minor (a, b, c) = minor"
  proof (rule bit_word_eqI)
    fix n assume "n < LENGTH(16)"
    then show "bit (packed_minor (a, b, c)) n = bit minor n"
      using small [OF assms(2), of n] by (cases "n < 12") (auto simp: a_def b_def c_def version_masks bit_simps)
  qed
  ultimately show ?thesis using assms
    by (simp add: packed_version_new_def Let_def linorder_not_le a_def b_def c_def)
qed

lemma parse_digits_decimal: "parse_digits m (decimal n @ s) = parse_digits (m * 10 ^ length (decimal n) + n) s"
proof (induction n arbitrary: s rule: decimal.induct)
  case (1 n)
  show ?case
  proof (cases "n < 10")
    case True
    then show ?thesis by (simp add: decimal.simps [of n] mult.commute)
  next
    case False
    have "decimal n = decimal (n div 10) @ [char_of (48 + n mod 10)]" using False by (subst decimal.simps) simp
    moreover have "10 * (m * 10 ^ k + n div 10) + n mod 10 = m * 10 ^ Suc k + n" for k by (simp add: algebra_simps)
    ultimately show ?thesis using 1 [OF False, of "char_of (48 + n mod 10) # s"] by (simp add: algebra_simps)
  qed
qed

lemma decimal_chars: "c \<in> set (decimal n) \<Longrightarrow> \<exists>d < 10::nat. c = char_of (48 + d)"
proof (induction n rule: decimal.induct)
  case (1 n)
  then show ?case by (subst (asm) (2) decimal.simps) (auto split: if_splits intro: exI [of _ "n mod 10"])
qed

lemma decimal_not_empty [simp]: "decimal n \<noteq> []"
  by (subst decimal.simps) simp

lemma decimal_digits_only:
  assumes "to_digit 10 c = None"
  shows "c \<notin> set (decimal n)"
  using decimal_chars [of c n] assms by auto

lemma parse_u16_decimal [simp]: "parse_u16 (decimal (unat w)) = Some w"
proof -
  have "CHR ''+'' \<notin> set (decimal (unat w))" by (rule decimal_digits_only) (simp add: to_digit_def digit_value_def)
  then have "(case decimal (unat w) of c # cs \<Rightarrow> if c = CHR ''+'' then cs else decimal (unat w) | [] \<Rightarrow> []) = decimal (unat w)"
    by (cases "decimal (unat w)") auto
  moreover have "parse_digits 0 (decimal (unat w)) = Some (unat w)" using parse_digits_decimal [of 0 "unat w" "[]"] by simp
  ultimately show ?thesis using unsigned_less [of w, where ?'a = nat] by (simp add: parse_u16_def)
qed

lemma data_version_round_trip:
  assumes "dv_major v \<le> 4095" "dv_minor v \<le> 4095"
  shows "data_version_from_str (data_version_display v) = Some (Inr v)"
proof -
  have dot: "CHR ''.'' \<notin> set (decimal n)" for n by (rule decimal_digits_only) (simp add: to_digit_def digit_value_def)
  have "v \<noteq> future_version" using assms by (auto simp: future_version_def)
  then have "split_char CHR ''.'' (data_version_display v) = [decimal (unat (dv_major v)), decimal (unat (dv_minor v))]"
    using dot by (simp add: data_version_display_def split_char_once split_char_none)
  with assms show ?thesis by (simp add: data_version_from_str_def data_version_new_def linorder_not_less)
qed

section \<open>The table of steps\<close>

text \<open>Every step of a table was accepted by \<^const>\<open>validate_step\<close>, and no version is without a step.\<close>

definition edge :: "migration_table \<Rightarrow> data_version \<Rightarrow> data_version \<Rightarrow> migration_step \<Rightarrow> bool" where
  "edge table a b s \<longleftrightarrow> (\<exists>from_map. fmlookup table a = Some from_map \<and> fmlookup from_map b = Some s)"

definition migrations_ok :: "migrations \<Rightarrow> bool" where
  "migrations_ok m \<longleftrightarrow> current_version m \<noteq> future_version \<and>
     (\<forall>a b s. edge (migration_table m) a b s \<longrightarrow> validate_step m a b)"

text \<open>No dead end: a step that does not reach the current version reaches a version of the table.\<close>

definition no_dead_end :: "migrations \<Rightarrow> bool" where
  "no_dead_end m \<longleftrightarrow> (\<forall>a b s. edge (migration_table m) a b s \<longrightarrow> b = current_version m \<or> b |\<in>| fmdom (migration_table m))"

lemma validate_step_table [simp]: "validate_step (m\<lparr>migration_table := t\<rparr>) a b = validate_step m a b"
  by (simp add: validate_step_def)

lemma migrations_new_ok: "v \<noteq> future_version \<Longrightarrow> migrations_ok (migrations_new v)"
  by (simp add: migrations_ok_def migrations_new_def edge_def)

lemma add_step_ok:
  assumes "migrations_ok m" "add_step m a b s = Some m'"
  shows "migrations_ok m'" "edge (migration_table m') a b s"
  using assms
  by (auto simp: migrations_ok_def add_step_def edge_def Let_def split: if_splits option.splits)

lemma migrations_okD:
  assumes "migrations_ok m" "edge (migration_table m) a b s"
  shows "b \<noteq> future_version" "a \<noteq> future_version \<Longrightarrow> a < b" "b \<le> current_version m"
proof -
  have "validate_step m a b" using assms by (auto simp: migrations_ok_def)
  then show "b \<noteq> future_version" "a \<noteq> future_version \<Longrightarrow> a < b" "b \<le> current_version m"
    by (auto simp: validate_step_def)
qed

subsection \<open>Chains of steps\<close>

inductive migration_path :: "migration_table \<Rightarrow> data_version \<Rightarrow> data_version \<Rightarrow> migration_step list \<Rightarrow> bool" for table where
  path_step: "edge table a b s \<Longrightarrow> migration_path table a b [s]"
| path_cons: "edge table a b s \<Longrightarrow> migration_path table b c ss \<Longrightarrow> migration_path table a c (s # ss)"

definition shorter :: "'a list \<Rightarrow> 'a list \<Rightarrow> 'a list" where
  "shorter candidate sofar = (if sofar = [] \<or> length candidate < length sofar then candidate else sofar)"

lemma fold_shorter:
  assumes "[] \<notin> set cs"
  shows "fold shorter cs sofar \<in> insert sofar (set cs)" "fold shorter cs sofar = [] \<longleftrightarrow> sofar = [] \<and> cs = []"
    "c \<in> set cs \<Longrightarrow> length (fold shorter cs sofar) \<le> length c" "sofar \<noteq> [] \<Longrightarrow> length (fold shorter cs sofar) \<le> length sofar"
  using assms
proof (induction cs arbitrary: sofar)
  case (Cons x cs)
  {
    case 1
    then show ?case using Cons.IH(1) [of "shorter x sofar"] by (auto simp: shorter_def split: if_splits)
  next
    case 2
    then show ?case using Cons.IH(2) [of "shorter x sofar"] by (auto simp: shorter_def)
  next
    case 3
    have "shorter x sofar \<noteq> []" using 3 by (auto simp: shorter_def)
    then have "length (fold shorter cs (shorter x sofar)) \<le> length (shorter x sofar)" using Cons.IH(4) 3 by simp
    moreover have "length (shorter x sofar) \<le> length x" by (auto simp: shorter_def)
    ultimately show ?case using Cons.IH(3) [of "shorter x sofar"] 3 by auto
  next
    case 4
    then have "shorter x sofar \<noteq> []" "length (shorter x sofar) \<le> length sofar" by (auto simp: shorter_def)
    then show ?case using Cons.IH(4) [of "shorter x sofar"] 4 by fastforce
  }
qed simp_all

text \<open>The candidates that the search compares: each is a step, alone or before the chain found from where it leads.\<close>

definition candidate_from :: "(data_version \<Rightarrow> migration_step list option) \<Rightarrow> data_version \<Rightarrow> (data_version, migration_step) fmap \<Rightarrow> data_version \<Rightarrow>
    migration_step list option option" where
  "candidate_from search to from_map next_key = do {
     migration \<leftarrow> fmlookup from_map next_key;
     if next_key = to then Some (Some [migration])
     else do {
       tail \<leftarrow> search next_key;
       Some (if tail = [] then None else Some (migration # tail)) } }"

lemma find_migration_chain_Suc:
  "find_migration_chain (Suc n) order table from to = do {
     from_map \<leftarrow> fmlookup table from;
     candidates \<leftarrow> those (map (candidate_from (\<lambda>k. find_migration_chain n order table k to) to from_map) (order (fmdom from_map)));
     Some (fold shorter (List.map_filter id candidates) []) }"
  by (simp add: candidate_from_def [abs_def] shorter_def [abs_def])

lemma those_Some_conv: "those (map f xs) = Some ys \<longleftrightarrow> map f xs = map Some ys"
  by (induction xs arbitrary: ys) (auto split: option.splits simp: Cons_eq_map_conv)

lemma those_total: "(\<forall>x \<in> set xs. f x \<noteq> None) \<Longrightarrow> \<exists>ys. those (map f xs) = Some ys"
  by (induction xs) auto

lemma those_None: "x \<in> set xs \<Longrightarrow> f x = None \<Longrightarrow> those (map f xs) = None"
  by (induction xs) (auto split: option.split)

lemma chain_candidates:
  assumes "\<forall>S. fset_of_list (order S) = S" "find_migration_chain (Suc n) order table from to = Some chain"
  obtains from_map cs where "fmlookup table from = Some from_map" "chain = fold shorter cs []"
    "\<And>c. c \<in> set cs \<longleftrightarrow> (\<exists>k. candidate_from (\<lambda>k. find_migration_chain n order table k to) to from_map k = Some (Some c))"
    "\<And>k. k |\<in>| fmdom from_map \<Longrightarrow> candidate_from (\<lambda>k. find_migration_chain n order table k to) to from_map k \<noteq> None"
proof -
  let ?C = "candidate_from (\<lambda>k. find_migration_chain n order table k to) to"
  from assms(2) obtain from_map candidates where fm: "fmlookup table from = Some from_map"
      "map (?C from_map) (order (fmdom from_map)) = map Some candidates" "chain = fold shorter (List.map_filter id candidates) []"
    unfolding find_migration_chain_Suc by (auto simp: bind_eq_Some_conv those_Some_conv)
  have order: "set (order S) = fset S" for S using assms(1) by (metis fset_of_list.rep_eq)
  have "Some ` set candidates = ?C from_map ` fset (fmdom from_map)"
    using arg_cong [OF fm(2), of set] by (simp add: order)
  moreover have "?C from_map k = None" if "k |\<notin>| fmdom from_map" for k using that by (simp add: candidate_from_def fmdom_notD)
  ultimately have mem: "x \<in> set candidates \<longleftrightarrow> (\<exists>k. ?C from_map k = Some x)" for x
    by (smt (verit, best) image_iff option.distinct(1) option.inject)
  have total: "?C from_map k \<noteq> None" if "k |\<in>| fmdom from_map" for k
    using that \<open>Some ` set candidates = _\<close> by (metis image_eqI image_iff option.distinct(1))
  show thesis
  proof (rule that [OF fm(1,3) _ total])
    fix c
    show "c \<in> set (List.map_filter id candidates) \<longleftrightarrow> (\<exists>k. ?C from_map k = Some (Some c))"
      using mem [of "Some c"] by (force simp: List.map_filter_def)
  qed
qed

lemma candidate_from_Some:
  "candidate_from search to from_map k = Some (Some c) \<longleftrightarrow>
     (\<exists>s. fmlookup from_map k = Some s \<and> (if k = to then c = [s] else (\<exists>tail. search k = Some tail \<and> tail \<noteq> [] \<and> c = s # tail)))"
  by (auto simp: candidate_from_def bind_eq_Some_conv)

text \<open>What the search finds is a shortest chain of steps, and it finds one when there is one.\<close>

lemma find_migration_chain_shortest:
  assumes order: "\<forall>S. fset_of_list (order S) = S"
    and "find_migration_chain n order table from to = Some chain"
  shows "(chain \<noteq> [] \<longrightarrow> migration_path table from to chain) \<and>
    (\<forall>other. migration_path table from to other \<longrightarrow> chain \<noteq> [] \<and> length chain \<le> length other)"
  using assms(2)
proof (induction n arbitrary: "from" chain)
  case (Suc n)
  let ?S = "\<lambda>k. find_migration_chain n order table k to"
  obtain from_map cs where fm: "fmlookup table from = Some from_map" "chain = fold shorter cs []"
    and cs: "\<And>c. c \<in> set cs \<longleftrightarrow> (\<exists>k. candidate_from ?S to from_map k = Some (Some c))"
    and total: "\<And>k. k |\<in>| fmdom from_map \<Longrightarrow> candidate_from ?S to from_map k \<noteq> None"
    using chain_candidates [OF order Suc.prems] by metis
  have nonempty: "[] \<notin> set cs" by (auto simp: cs candidate_from_Some split: if_splits)
  have "migration_path table from to c" if c: "c \<in> set cs" for c
  proof -
    from c obtain k s where "fmlookup from_map k = Some s"
      "if k = to then c = [s] else (\<exists>tail. ?S k = Some tail \<and> tail \<noteq> [] \<and> c = s # tail)"
      unfolding cs candidate_from_Some by blast
    with Suc.IH fm(1) show ?thesis by (auto simp: edge_def split: if_splits intro: migration_path.intros)
  qed
  then have found: "chain \<noteq> [] \<longrightarrow> migration_path table from to chain"
    using fold_shorter(1) [OF nonempty, of "[]"] by (auto simp: fm(2))
  moreover have "chain \<noteq> [] \<and> length chain \<le> length other" if other: "migration_path table from to other" for other
  proof -
    obtain c where c: "c \<in> set cs" "length c \<le> length other"
      using other
    proof cases
      case (path_step s)
      then have "[s] \<in> set cs" using fm(1) by (auto simp: cs candidate_from_Some edge_def)
      with path_step that show thesis by auto
    next
      case (path_cons b s ss)
      then have s: "fmlookup from_map b = Some s" using fm(1) by (simp add: edge_def)
      show thesis
      proof (cases "b = to")
        case True
        with s have "[s] \<in> set cs" by (auto simp: cs candidate_from_Some)
        with path_cons that show thesis by (metis length_Cons list.size(3) Suc_le_mono zero_le)
      next
        case False
        with s total [of b] obtain tail where tail: "?S b = Some tail"
          by (cases "?S b") (auto simp: candidate_from_def fmdomI)
        with Suc.IH path_cons have "tail \<noteq> []" "length tail \<le> length ss" by blast+
        with s False tail have "s # tail \<in> set cs" by (auto simp: cs candidate_from_Some)
        with path_cons that \<open>length tail \<le> length ss\<close> show thesis by (metis length_Cons Suc_le_mono)
      qed
    qed
    from c(1) have "chain \<noteq> []" unfolding fm(2) using fold_shorter(2) [OF nonempty, of "[]"] by auto
    moreover have "length chain \<le> length c" unfolding fm(2) by (rule fold_shorter(3) [OF nonempty c(1)])
    ultimately show ?thesis using c(2) by (meson le_trans)
  qed
  ultimately show ?case by blast
qed simp

text \<open>Without dead ends the search returns, within the depth that \<^const>\<open>migration\<close> allows.\<close>

definition later :: "migration_table \<Rightarrow> data_version \<Rightarrow> data_version set" where
  "later table v = {k. k |\<in>| fmdom table \<and> k \<noteq> future_version \<and> (v = future_version \<or> v < k)}"

lemma finite_later [simp]: "finite (later table v)"
  by (rule finite_subset [of _ "fset (fmdom table)"]) (auto simp: later_def)

lemma later_step:
  assumes "migrations_ok m" "edge (migration_table m) a b s" "b |\<in>| fmdom (migration_table m)"
  shows "card (later (migration_table m) b) < card (later (migration_table m) a)"
proof (rule psubset_card_mono [OF finite_later], rule psubsetI)
  note b = migrations_okD [OF assms(1,2)]
  show "later (migration_table m) b \<subseteq> later (migration_table m) a" using b(1) less_trans [OF b(2)] by (auto simp: later_def)
  show "later (migration_table m) b \<noteq> later (migration_table m) a" using b(1,2) assms(3) by (auto simp: later_def)
qed

lemma find_migration_chain_total:
  assumes "migrations_ok m" "no_dead_end m" and order: "\<forall>S. fset_of_list (order S) = S"
    and "v |\<in>| fmdom (migration_table m)" "card (later (migration_table m) v) < n"
  shows "\<exists>chain. find_migration_chain n order (migration_table m) v (current_version m) = Some chain"
  using assms(4,5)
proof (induction n arbitrary: v)
  case (Suc n)
  let ?S = "\<lambda>k. find_migration_chain n order (migration_table m) k (current_version m)"
  obtain from_map where fm: "fmlookup (migration_table m) v = Some from_map" using Suc.prems(1) by (auto simp: fmdomE)
  have "candidate_from ?S (current_version m) from_map k \<noteq> None" if k: "k \<in> set (order (fmdom from_map))" for k
  proof -
    have "k |\<in>| fmdom from_map" using k order by (metis fset_of_list.rep_eq)
    then obtain s where s: "fmlookup from_map k = Some s" by auto
    then have e: "edge (migration_table m) v k s" using fm by (auto simp: edge_def)
    show ?thesis
    proof (cases "k = current_version m")
      case False
      then have dom: "k |\<in>| fmdom (migration_table m)" using assms(2) e by (auto simp: no_dead_end_def)
      then have "card (later (migration_table m) k) < n" using later_step [OF assms(1) e] Suc.prems(2) by linarith
      with Suc.IH dom obtain chain where "?S k = Some chain" by blast
      with s show ?thesis by (simp add: candidate_from_def)
    qed (use s in \<open>simp add: candidate_from_def\<close>)
  qed
  then obtain cs where "those (map (candidate_from ?S (current_version m) from_map) (order (fmdom from_map))) = Some cs"
    using those_total by metis
  then show ?case unfolding find_migration_chain_Suc by (simp add: fm)
qed simp

lemma later_depth: "card (later table v) < chain_depth table"
proof -
  have "card (later table v) \<le> card (fset (fmdom table))" by (rule card_mono) (auto simp: later_def)
  then show ?thesis by (simp add: chain_depth_def fcard.rep_eq less_Suc_eq_le)
qed

subsection \<open>Migrating\<close>

lemma path_first_edge: "migration_path table a b chain \<Longrightarrow> \<exists>k s. edge table a k s"
  by (cases rule: migration_path.cases) auto

lemma validate_step_current:
  assumes "migrations_ok m" "edge (migration_table m) v k s"
  shows "validate_step m v (current_version m)"
proof -
  have "validate_step m v k" "current_version m \<noteq> future_version" using assms by (auto simp: migrations_ok_def)
  moreover have "v < current_version m" if "v \<noteq> future_version"
    using migrations_okD(2) [OF assms that] migrations_okD(3) [OF assms] by (rule less_le_trans)
  ultimately show ?thesis by (auto simp: validate_step_def)
qed

lemma migration_ok:
  assumes "migrations_ok m" "no_dead_end m" "\<forall>S. fset_of_list (order S) = S"
  obtains step_opt m' where "migration order m v = Some (step_opt, m')" "migrations_ok m'" "current_version m' = current_version m"
    "step_opt = None \<longleftrightarrow> (\<nexists>chain. migration_path (migration_table m) v (current_version m) chain)"
    "\<And>step. step_opt = Some step \<Longrightarrow> edge (migration_table m') v (current_version m) step \<and>
       (\<not> edge (migration_table m) v (current_version m) step \<longrightarrow>
         (\<exists>chain. step = combo_step chain \<and> migration_path (migration_table m) v (current_version m) chain \<and>
           (\<forall>other. migration_path (migration_table m) v (current_version m) other \<longrightarrow> length chain \<le> length other)))"
proof (cases "fmlookup (migration_table m) v")
  case None
  then have "\<not> migration_path (migration_table m) v (current_version m) chain" for chain
    using path_first_edge by (fastforce simp: edge_def)
  with None that [of None m] assms(1) show thesis by (simp add: migration_def)
next
  case (Some from_map)
  show thesis
  proof (cases "fmlookup from_map (current_version m)")
    case None
    let ?F = "find_migration_chain (chain_depth (migration_table m)) order (migration_table m) v (current_version m)"
    obtain chain where chain: "?F = Some chain"
      using find_migration_chain_total [OF assms _ later_depth] fmdomI [of "migration_table m" v] Some by blast
    note shortest = find_migration_chain_shortest [OF assms(3) chain]
    show thesis
    proof (cases "chain = []")
      case True
      with that [of None m] Some None chain shortest assms(1) show thesis by (simp add: migration_def)
    next
      case False
      define m' where "m' = m\<lparr>migration_table := fmupd v (fmupd (current_version m) (combo_step chain) from_map) (migration_table m)\<rparr>"
      from False shortest obtain k s where "edge (migration_table m) v k s" using path_first_edge by blast
      then have "validate_step m v (current_version m)" by (rule validate_step_current [OF assms(1)])
      then have "migrations_ok m'" using assms(1) Some
        by (auto simp: migrations_ok_def m'_def edge_def split: if_splits)
      then show thesis
        using that [of "Some (combo_step chain)" m'] False Some None chain shortest
        by (auto simp: migration_def Let_def m'_def edge_def)
    qed
  next
    case (Some step)
    then have e: "edge (migration_table m) v (current_version m) step" using \<open>fmlookup (migration_table m) v = _\<close> by (simp add: edge_def)
    then have "migration_path (migration_table m) v (current_version m) [step]" by (rule path_step)
    with that [of "Some step" m] Some \<open>fmlookup (migration_table m) v = _\<close> assms(1) e show thesis
      by (auto simp: migration_def)
  qed
qed

text \<open>
  C31: migrating data of a table without dead ends.  Whatever the order in which the hash
  tables list their keys, \<open>Migrations::migration\<close> returns, and it keeps the table valid.  It
  returns no step exactly when no chain of steps leads to the current version, and a step
  that was not in the table is the composition of a shortest such chain, kept for later.
\<close>

theorem migration_shortest:
  assumes "migrations_ok m" "no_dead_end m" "\<forall>S. fset_of_list (order S) = S"
  shows "\<exists>step_opt m'. migration order m v = Some (step_opt, m') \<and> migrations_ok m' \<and>
    (step_opt = None \<longleftrightarrow> (\<nexists>chain. migration_path (migration_table m) v (current_version m) chain)) \<and>
    (\<forall>step. step_opt = Some step \<longrightarrow> edge (migration_table m') v (current_version m) step \<and>
       (\<not> edge (migration_table m) v (current_version m) step \<longrightarrow>
         (\<exists>chain. step = combo_step chain \<and> migration_path (migration_table m) v (current_version m) chain \<and>
           (\<forall>other. migration_path (migration_table m) v (current_version m) other \<longrightarrow> length chain \<le> length other))))"
  using migration_ok [OF assms, of v] by metis

text \<open>What was written with the current version is read back.\<close>

lemma extract_current:
  assumes "codec_ok codec"
  obtains vd where "versioned_data_new codec m x = Some vd" "vd_extract codec order m vd = Some (Inr x, m)"
proof -
  obtain d where "codec_to_vec codec x = Some d" "codec_from_slice codec d = Some x" using assms unfolding codec_ok_def by blast
  then show thesis using that [of "\<lparr>vd_version = current_version m, vd_bytes = d\<rparr>"]
    by (simp add: versioned_data_new_def vd_extract_def extract_bytes_def)
qed

text \<open>A table with a chain of three versions, and one with a fork.\<close>

definition chained :: "migration_step \<Rightarrow> migrations option" where
  "chained step = do {
     m \<leftarrow> add_step (migrations_new (DataVersion 0 3)) (DataVersion 0 1) (DataVersion 0 2) step;
     add_step m (DataVersion 0 2) (DataVersion 0 3) step }"

definition forked :: "migration_step \<Rightarrow> migrations option" where
  "forked step = do {
     m \<leftarrow> add_step (migrations_new (DataVersion 0 4)) (DataVersion 0 1) (DataVersion 0 2) step;
     m \<leftarrow> add_step m (DataVersion 0 1) (DataVersion 0 3) step;
     add_step m (DataVersion 0 3) (DataVersion 0 4) step }"

lemmas add_step_eval = add_step_def validate_step_def migrations_new_def less_data_version_def data_version_partial_cmp_eq future_version_def

lemma chained_table:
  "chained step = Some \<lparr>current_version = DataVersion 0 3, migration_table =
     fmupd (DataVersion 0 2) (fmupd (DataVersion 0 3) step fmempty)
       (fmupd (DataVersion 0 1) (fmupd (DataVersion 0 2) step fmempty) fmempty)\<rparr>"
  by (simp add: chained_def add_step_eval)

lemma forked_table:
  "forked step = Some \<lparr>current_version = DataVersion 0 4, migration_table =
     fmupd (DataVersion 0 3) (fmupd (DataVersion 0 4) step fmempty)
       (fmupd (DataVersion 0 1) (fmupd (DataVersion 0 3) step (fmupd (DataVersion 0 2) step fmempty))
          (fmupd (DataVersion 0 1) (fmupd (DataVersion 0 2) step fmempty) fmempty))\<rparr>"
  by (simp add: forked_def add_step_eval)

lemma chained_ok: "chained step = Some m \<Longrightarrow> migrations_ok m"
proof -
  have "migrations_ok (migrations_new (DataVersion 0 3))" by (rule migrations_new_ok) (simp add: future_version_def)
  then show "chained step = Some m \<Longrightarrow> migrations_ok m"
    unfolding chained_def bind_eq_Some_conv using add_step_ok(1) by blast
qed

lemma forked_ok: "forked step = Some m \<Longrightarrow> migrations_ok m"
proof -
  have "migrations_ok (migrations_new (DataVersion 0 4))" by (rule migrations_new_ok) (simp add: future_version_def)
  then show "forked step = Some m \<Longrightarrow> migrations_ok m"
    unfolding forked_def bind_eq_Some_conv using add_step_ok(1) by blast
qed

theorem migration_shortest_witness:
  "\<exists>m step_opt m'. chained (\<lambda>d. Some (Inr d)) = Some m \<and> migration sorted_list_of_fset m (DataVersion 0 1) = Some (step_opt, m') \<and> step_opt \<noteq> None \<and> migrations_ok m'"
proof -
  obtain m where m: "chained (\<lambda>d. Some (Inr d)) = Some m" using chained_table by blast
  have "no_dead_end m" using m by (auto simp: chained_table no_dead_end_def edge_def split: if_splits)
  then obtain step_opt m' where r: "migration sorted_list_of_fset m (DataVersion 0 1) = Some (step_opt, m')" "migrations_ok m'"
    "step_opt = None \<longleftrightarrow> (\<nexists>chain. migration_path (migration_table m) (DataVersion 0 1) (current_version m) chain)"
    using migration_shortest [OF chained_ok [OF m], of sorted_list_of_fset "DataVersion 0 1"] by (auto simp: fset_of_list.rep_eq fset_inverse)
  have "edge (migration_table m) (DataVersion 0 1) (DataVersion 0 2) (\<lambda>d. Some (Inr d))"
    "edge (migration_table m) (DataVersion 0 2) (current_version m) (\<lambda>d. Some (Inr d))"
    using m by (auto simp: chained_table edge_def)
  then have "migration_path (migration_table m) (DataVersion 0 1) (current_version m) [\<lambda>d. Some (Inr d), \<lambda>d. Some (Inr d)]"
    by (rule path_cons [OF _ path_step])
  with m r show ?thesis by blast
qed



end
