(* ===== verification/Hopper.thy ===== *)
theory Hopper
  imports Payer Versioned_Data
begin

text \<open>
  Model of the Hopper: the packages of \<open>node/src/sub_lib/hopper.rs\<close>, \<open>sub_lib/dispatcher.rs\<close> and
  \<open>hopper/live_cores_package.rs\<close>, the services \<open>hopper/consuming_service.rs\<close> and
  \<open>hopper/routing_service.rs\<close>, and the actor of \<open>hopper/mod.rs\<close>.  A handler returns the list of
  messages it sends; log output is left out.
\<close>

section \<open>Messages\<close>

record inbound_client_data =
  ibcd_timestamp :: nat
  client_addr :: socket_addr
  reception_port :: "u16 option"
  ibcd_last_data :: bool
  is_clandestine :: bool
  ibcd_sequence_number :: "u64 option"
  ibcd_data :: "u8 list"

definition clone_but_data :: "nat \<Rightarrow> inbound_client_data \<Rightarrow> inbound_client_data" where
  "clone_but_data now ibcd = ibcd\<lparr>ibcd_timestamp := now, ibcd_data := []\<rparr>"

datatype endpoint = EndpointKey public_key | EndpointSocket socket_addr

record transmit_msg =
  transmit_endpoint :: endpoint
  transmit_last_data :: bool
  transmit_sequence_number :: "u64 option"
  transmit_data :: "u8 list"

record report_routing_service_provided =
  report_timestamp :: nat
  report_paying_wallet :: wallet
  report_payload_size :: nat
  report_service_rate :: u64
  report_byte_rate :: u64

datatype message_type_lite = ClientRequestLite | ClientResponseLite | GossipLite | GossipFailureLite | DnsResolveFailedLite

datatype message_type =
    ClientRequest versioned_data
  | ClientResponse versioned_data
  | GossipMessage versioned_data
  | GossipFailureMessage versioned_data
  | DnsResolveFailed versioned_data

fun into_message_type_lite :: "message_type \<Rightarrow> message_type_lite" where
  "into_message_type_lite (ClientRequest _) = ClientRequestLite"
| "into_message_type_lite (ClientResponse _) = ClientResponseLite"
| "into_message_type_lite (GossipMessage _) = GossipLite"
| "into_message_type_lite (GossipFailureMessage _) = GossipFailureLite"
| "into_message_type_lite (DnsResolveFailed _) = DnsResolveFailedLite"

record live_cores_package =
  lcp_version :: packed_version
  lcp_route :: route
  lcp_payload :: crypt_data

record no_lookup_incipient_cores_package =
  no_lookup_public_key :: public_key
  no_lookup_node_addr :: node_addr
  no_lookup_payload :: crypt_data

record incipient_cores_package =
  incipient_route :: route
  incipient_payload :: crypt_data

record 'x expired_cores_package =
  immediate_neighbor :: socket_addr
  paying_wallet :: "wallet option"
  remaining_route :: route
  expired_payload :: 'x
  payload_len :: nat

text \<open>
  What all Nodes share: CBOR for every type that is sent, the payloads of every kind of
  message with their migrations, Ethereum signatures, and the order of a hash table's keys.
  The payloads of all kinds are one type.
\<close>

record ('s, 'x) cores_format =
  cores_hop_codec :: "'s payer live_hop codec"
  lcp_codec :: "live_cores_package codec"
  message_codec :: "message_type codec"
  payload_codec :: "message_type_lite \<Rightarrow> 'x codec"
  payload_migrations :: "message_type_lite \<Rightarrow> migrations"
  cores_eth :: "'s eth_ops"
  key_order :: "data_version fset \<Rightarrow> data_version list"

section \<open>Packages\<close>

definition no_lookup_incipient_new :: "('s, 'x) cores_format \<Rightarrow> cryptde \<Rightarrow> public_key \<Rightarrow> node_addr \<Rightarrow> message_type \<Rightarrow>
    codex_error + no_lookup_incipient_cores_package" where
  "no_lookup_incipient_new fmt cryptde key addr payload =
     (case encodex (message_codec fmt) cryptde key payload of
        Inl e \<Rightarrow> Inl e
      | Inr encrypted_payload \<Rightarrow>
          Inr \<lparr>no_lookup_public_key = key, no_lookup_node_addr = addr, no_lookup_payload = encrypted_payload\<rparr>)"

definition incipient_new :: "('s, 'x) cores_format \<Rightarrow> cryptde \<Rightarrow> route \<Rightarrow> message_type \<Rightarrow> public_key \<Rightarrow>
    codex_error + incipient_cores_package" where
  "incipient_new fmt cryptde route payload payload_destination_key =
     (case encodex (message_codec fmt) cryptde payload_destination_key payload of
        Inl e \<Rightarrow> Inl e
      | Inr encrypted_payload \<Rightarrow> Inr \<lparr>incipient_route = route, incipient_payload = encrypted_payload\<rparr>)"

definition lcp_current_version :: "packed_version option" where
  "lcp_current_version = (case packed_version_new 0 0 of Inr v \<Rightarrow> Some v | Inl _ \<Rightarrow> None)"

definition lcp_new :: "route \<Rightarrow> crypt_data \<Rightarrow> live_cores_package option" where
  "lcp_new route payload = do {
     v \<leftarrow> lcp_current_version;
     Some \<lparr>lcp_version = v, lcp_route = route, lcp_payload = payload\<rparr> }"

definition into_next_live :: "('s, 'x) cores_format \<Rightarrow> live_cores_package \<Rightarrow> cryptde \<Rightarrow>
    (codex_error + 's payer live_hop \<times> live_cores_package) option" where
  "into_next_live fmt lcp cryptde = do {
     (r, route) \<leftarrow> shift (cores_hop_codec fmt) (lcp_route lcp) cryptde;
     (case r of
        Inl e \<Rightarrow> Some (Inl e)
      | Inr hop \<Rightarrow> do {
          next_live \<leftarrow> lcp_new route (lcp_payload lcp);
          Some (Inr (hop, next_live)) }) }"

text \<open>How the wallets of a Node pay: with the payer that \<open>Wallet::as_payer\<close> makes.\<close>

definition payment_of :: "('s, 'x) cores_format \<Rightarrow> u32 codec \<Rightarrow> ('s payer, wallet, u8 list) payment" where
  "payment_of fmt ids = \<lparr>hop_codec = cores_hop_codec fmt, id_codec = ids, as_payer = wallet_as_payer (cores_eth fmt), zero_address = replicate 20 0\<rparr>"

definition from_no_lookup_incipient :: "('s, 'x) cores_format \<Rightarrow> u32 codec \<Rightarrow> no_lookup_incipient_cores_package \<Rightarrow> cryptde \<Rightarrow>
    (codex_error + live_cores_package \<times> public_key) option" where
  "from_no_lookup_incipient fmt ids pkg cryptde = do {
     r \<leftarrow> single_hop (payment_of fmt ids) (no_lookup_public_key pkg) cryptde;
     (case r of
        Inl e \<Rightarrow> Some (Inl e)
      | Inr route \<Rightarrow> do {
          (shifted, route) \<leftarrow> shift (cores_hop_codec fmt) route cryptde;
          (case shifted of
             Inl _ \<Rightarrow> None
           | Inr _ \<Rightarrow> do {
               lcp \<leftarrow> lcp_new route (no_lookup_payload pkg);
               Some (Inr (lcp, no_lookup_public_key pkg)) }) }) }"

definition from_incipient :: "('s, 'x) cores_format \<Rightarrow> incipient_cores_package \<Rightarrow> cryptde \<Rightarrow>
    (codex_error + live_cores_package \<times> 's payer live_hop) option" where
  "from_incipient fmt pkg cryptde = do {
     (r, route) \<leftarrow> shift (cores_hop_codec fmt) (incipient_route pkg) cryptde;
     (case r of
        Inl e \<Rightarrow> Some (Inl e)
      | Inr hop \<Rightarrow> do {
          lcp \<leftarrow> lcp_new route (incipient_payload pkg);
          Some (Inr (lcp, hop)) }) }"

definition to_expired :: "('s, 'x) cores_format \<Rightarrow> live_cores_package \<Rightarrow> socket_addr \<Rightarrow> cryptde \<Rightarrow> cryptde \<Rightarrow>
    (codex_error + message_type expired_cores_package) option" where
  "to_expired fmt lcp neighbor main_cryptde payload_cryptde = do {
     r \<leftarrow> next_hop (cores_hop_codec fmt) (lcp_route lcp) main_cryptde;
     (case r of
        Inl e \<Rightarrow> Some (Inl e)
      | Inr top_hop \<Rightarrow> do {
          d \<leftarrow> decodex (message_codec fmt) payload_cryptde (lcp_payload lcp);
          Some (case d of
              Inl e \<Rightarrow> Inl e
            | Inr decoded_payload \<Rightarrow>
                Inr \<lparr>immediate_neighbor = neighbor, paying_wallet = map_option payer_wallet (hop_payer top_hop),
                     remaining_route = lcp_route lcp, expired_payload = decoded_payload, payload_len = length (lcp_payload lcp)\<rparr>) }) }"

section \<open>The Hopper\<close>

datatype 'x hopper_output =
    ToDispatcher transmit_msg
  | ToHopper inbound_client_data
  | ToAccountant report_routing_service_provided
  | ToProxyClient "'x expired_cores_package"
  | ToProxyServer "'x expired_cores_package"
  | ToProxyServerDnsFailure "'x expired_cores_package"
  | ToNeighborhood "'x expired_cores_package"
  | ToNeighborhoodFailure "'x expired_cores_package"

text \<open>
  \<open>services\<close> is \<^term>\<open>None\<close> until the actor is bound, and then tells whether a Proxy Client
  is running.
\<close>

record hopper =
  main_cryptde :: cryptde
  alias_cryptde :: cryptde
  services :: "bool option"
  per_routing_service :: u64
  per_routing_byte :: u64
  is_decentralized :: bool

definition hopper_new :: "cryptde \<Rightarrow> cryptde \<Rightarrow> u64 \<Rightarrow> u64 \<Rightarrow> bool \<Rightarrow> hopper" where
  "hopper_new main alias service byte decentralized =
     \<lparr>main_cryptde = main, alias_cryptde = alias, services = None, per_routing_service = service, per_routing_byte = byte,
      is_decentralized = decentralized\<rparr>"

definition hopper_bind :: "bool \<Rightarrow> hopper \<Rightarrow> hopper" where
  "hopper_bind proxy_client h = h\<lparr>services := Some proxy_client\<rparr>"

subsection \<open>Consuming\<close>

definition launch_lcp :: "crypt_data \<Rightarrow> endpoint \<Rightarrow> 'x hopper_output list" where
  "launch_lcp encrypted_package next_stop =
     [ToDispatcher \<lparr>transmit_endpoint = next_stop, transmit_last_data = False, transmit_sequence_number = None,
        transmit_data = encrypted_package\<rparr>]"

definition zero_hop :: "nat \<Rightarrow> crypt_data \<Rightarrow> 'x hopper_output list" where
  "zero_hop now encrypted_package =
     [ToHopper \<lparr>ibcd_timestamp = now, client_addr = (V4 0x7F000001, 0), reception_port = None, ibcd_last_data = False,
        is_clandestine = True, ibcd_sequence_number = None, ibcd_data = encrypted_package\<rparr>]"

definition consume_no_lookup :: "('s, 'x) cores_format \<Rightarrow> u32 codec \<Rightarrow> hopper \<Rightarrow> no_lookup_incipient_cores_package \<Rightarrow> 'x hopper_output list option" where
  "consume_no_lookup fmt ids h pkg = do {
     r \<leftarrow> from_no_lookup_incipient fmt ids pkg (main_cryptde h);
     (case r of
        Inl _ \<Rightarrow> Some []
      | Inr (live_package, _) \<Rightarrow>
          (case encodex (lcp_codec fmt) (main_cryptde h) (no_lookup_public_key pkg) live_package of
             Inl _ \<Rightarrow> Some []
           | Inr encrypted_package \<Rightarrow> do {
               socket \<leftarrow> first_opt (node_addr_sockets (no_lookup_node_addr pkg));
               Some (launch_lcp encrypted_package (EndpointSocket socket)) })) }"

definition consume :: "('s, 'x) cores_format \<Rightarrow> nat \<Rightarrow> hopper \<Rightarrow> incipient_cores_package \<Rightarrow> 'x hopper_output list option" where
  "consume fmt now h pkg = do {
     r \<leftarrow> from_incipient fmt pkg (main_cryptde h);
     (case r of
        Inl _ \<Rightarrow> Some []
      | Inr (live_package, hop) \<Rightarrow>
          Some (case encodex (lcp_codec fmt) (main_cryptde h) (hop_public_key hop) live_package of
             Inl _ \<Rightarrow> []
           | Inr encrypted_package \<Rightarrow>
               if hop_public_key hop = cde_public_key (main_cryptde h) then zero_hop now encrypted_package
               else launch_lcp encrypted_package (EndpointKey (hop_public_key hop)))) }"

subsection \<open>Routing\<close>

definition extract_expired_package :: "('s, 'x) cores_format \<Rightarrow> hopper \<Rightarrow> socket_addr \<Rightarrow> live_cores_package \<Rightarrow> component \<Rightarrow>
    message_type expired_cores_package option option" where
  "extract_expired_package fmt h neighbor lcp component =
     (let payload_cryptde = (case component of CProxyServer \<Rightarrow> alias_cryptde h | _ \<Rightarrow> main_cryptde h)
      in do {
        r \<leftarrow> to_expired fmt lcp neighbor (main_cryptde h) payload_cryptde;
        Some (case r of Inr pkg \<Rightarrow> Some pkg | Inl _ \<Rightarrow> None) })"

text \<open>\<open>try_from\<close> of the payload and the package with the result in place of the message.\<close>

definition migrate_payload :: "('s, 'x) cores_format \<Rightarrow> message_type_lite \<Rightarrow> versioned_data \<Rightarrow> (migration_error + 'x) option" where
  "migrate_payload fmt kind vd =
     map_option fst (vd_extract (payload_codec fmt kind) (key_order fmt) (payload_migrations fmt kind) vd)"

definition expired_with :: "message_type expired_cores_package \<Rightarrow> 'x \<Rightarrow> 'x expired_cores_package" where
  "expired_with pkg x = \<lparr>immediate_neighbor = immediate_neighbor pkg, paying_wallet = paying_wallet pkg,
     remaining_route = remaining_route pkg, expired_payload = x, payload_len = payload_len pkg\<rparr>"

definition deliver :: "('s, 'x) cores_format \<Rightarrow> message_type_lite \<Rightarrow> versioned_data \<Rightarrow> ('x expired_cores_package \<Rightarrow> 'x hopper_output) \<Rightarrow>
    message_type expired_cores_package \<Rightarrow> 'x hopper_output list option" where
  "deliver fmt kind vd recipient pkg = do {
     r \<leftarrow> migrate_payload fmt kind vd;
     Some (case r of Inl _ \<Rightarrow> [] | Inr x \<Rightarrow> [recipient (expired_with pkg x)]) }"

definition route_expired_package :: "('s, 'x) cores_format \<Rightarrow> hopper \<Rightarrow> component \<Rightarrow> message_type expired_cores_package \<Rightarrow> bool \<Rightarrow>
    'x hopper_output list option" where
  "route_expired_package fmt h component pkg owns =
     (case (component, expired_payload pkg) of
        (CProxyClient, ClientRequest vd) \<Rightarrow>
          if \<not> is_decentralized h \<or> owns then do {
            proxy_client \<leftarrow> services h;
            if proxy_client then deliver fmt ClientRequestLite vd ToProxyClient pkg else Some [] }
          else Some []
      | (CProxyServer, ClientResponse vd) \<Rightarrow> deliver fmt ClientResponseLite vd ToProxyServer pkg
      | (CProxyServer, DnsResolveFailed vd) \<Rightarrow> deliver fmt DnsResolveFailedLite vd ToProxyServerDnsFailure pkg
      | (CNeighborhood, GossipMessage vd) \<Rightarrow> deliver fmt GossipLite vd ToNeighborhood pkg
      | (CNeighborhood, GossipFailureMessage vd) \<Rightarrow> deliver fmt GossipFailureLite vd ToNeighborhoodFailure pkg
      | _ \<Rightarrow> Some [])"

definition route_data_to_peripheral_component :: "('s, 'x) cores_format \<Rightarrow> hopper \<Rightarrow> component \<Rightarrow> socket_addr \<Rightarrow> live_cores_package \<Rightarrow> bool \<Rightarrow>
    'x hopper_output list option" where
  "route_data_to_peripheral_component fmt h component neighbor lcp owns = do {
     r \<leftarrow> extract_expired_package fmt h neighbor lcp component;
     (case r of
        None \<Rightarrow> Some []
      | Some expired_package \<Rightarrow> route_expired_package fmt h component expired_package owns) }"

definition route_data_around_again :: "('s, 'x) cores_format \<Rightarrow> hopper \<Rightarrow> live_cores_package \<Rightarrow> inbound_client_data \<Rightarrow> 'x hopper_output list option" where
  "route_data_around_again fmt h lcp ibcd_but_data = do {
     r \<leftarrow> into_next_live fmt lcp (main_cryptde h);
     (case r of
        Inl _ \<Rightarrow> Some []
      | Inr (_, next_lcp) \<Rightarrow>
          (case encodex (lcp_codec fmt) (main_cryptde h) (cde_public_key (main_cryptde h)) next_lcp of
             Inl _ \<Rightarrow> None
           | Inr payload \<Rightarrow> Some [ToHopper (ibcd_but_data\<lparr>ibcd_data := payload\<rparr>)])) }"

definition route_data_internally :: "('s, 'x) cores_format \<Rightarrow> banned_cache \<Rightarrow> hopper \<Rightarrow> 's payer live_hop \<Rightarrow> socket_addr \<Rightarrow> live_cores_package \<Rightarrow>
    inbound_client_data \<Rightarrow> 'x hopper_output list option" where
  "route_data_internally fmt bans h hop neighbor lcp ibcd_but_data =
     (if hop_component hop = CHopper then route_data_around_again fmt h lcp ibcd_but_data
      else do {
        delinquent \<leftarrow> (case hop_payer hop of None \<Rightarrow> Some False | Some payer \<Rightarrow> is_delinquent (cores_eth fmt) bans payer);
        if delinquent then Some []
        else do {
          owns \<leftarrow> payer_owns_secret_key (owns_secret_key (cores_eth fmt)) hop (cde_digest (main_cryptde h));
          route_data_to_peripheral_component fmt h (hop_component hop) neighbor lcp owns } })"

definition to_transmit_data_msg :: "('s, 'x) cores_format \<Rightarrow> hopper \<Rightarrow> live_cores_package \<Rightarrow> bool \<Rightarrow> (codex_error + transmit_msg) option" where
  "to_transmit_data_msg fmt h lcp last_data = do {
     r \<leftarrow> into_next_live fmt lcp (main_cryptde h);
     Some (case r of
         Inl e \<Rightarrow> Inl e
       | Inr (hop, next_live_package) \<Rightarrow>
           (case encodex (lcp_codec fmt) (main_cryptde h) (hop_public_key hop) next_live_package of
              Inl e \<Rightarrow> Inl e
            | Inr next_live_package_enc \<Rightarrow>
                Inr \<lparr>transmit_endpoint = EndpointKey (hop_public_key hop), transmit_last_data = last_data,
                     transmit_sequence_number = None, transmit_data = next_live_package_enc\<rparr>)) }"

definition route_data_externally :: "('s, 'x) cores_format \<Rightarrow> banned_cache \<Rightarrow> nat \<Rightarrow> hopper \<Rightarrow> live_cores_package \<Rightarrow> 's payer option \<Rightarrow> bool \<Rightarrow>
    'x hopper_output list option" where
  "route_data_externally fmt bans now h lcp payer_opt last_data =
     (case payer_opt of
        None \<Rightarrow> Some []
      | Some payer \<Rightarrow> do {
          owns \<leftarrow> owns_secret_key (cores_eth fmt) payer (cde_digest (main_cryptde h));
          if \<not> owns then Some []
          else do {
            delinquent \<leftarrow> is_delinquent (cores_eth fmt) bans payer;
            if delinquent then Some []
            else do {
              let report = \<lparr>report_timestamp = now, report_paying_wallet = payer_wallet payer,
                report_payload_size = length (lcp_payload lcp), report_service_rate = per_routing_service h,
                report_byte_rate = per_routing_byte h\<rparr>;
              r \<leftarrow> to_transmit_data_msg fmt h lcp last_data;
              Some (ToAccountant report # (case r of Inl _ \<Rightarrow> [] | Inr m \<Rightarrow> [ToDispatcher m])) } } })"

definition is_destined_for_here :: "hopper \<Rightarrow> 's payer live_hop \<Rightarrow> bool" where
  "is_destined_for_here h hop \<longleftrightarrow> hop_public_key hop = cde_public_key (main_cryptde h)"

definition route_data :: "('s, 'x) cores_format \<Rightarrow> banned_cache \<Rightarrow> nat \<Rightarrow> hopper \<Rightarrow> socket_addr \<Rightarrow> 's payer live_hop \<Rightarrow> live_cores_package \<Rightarrow> bool \<Rightarrow>
    inbound_client_data \<Rightarrow> 'x hopper_output list option" where
  "route_data fmt bans now h sender_addr hop lcp last_data ibcd_but_data =
     (if hop_component hop = CHopper \<and> \<not> is_destined_for_here h hop
      then route_data_externally fmt bans now h lcp (hop_payer hop) last_data
      else route_data_internally fmt bans h hop sender_addr lcp ibcd_but_data)"

definition route_ibcd :: "('s, 'x) cores_format \<Rightarrow> banned_cache \<Rightarrow> nat \<Rightarrow> hopper \<Rightarrow> inbound_client_data \<Rightarrow> 'x hopper_output list option" where
  "route_ibcd fmt bans now h ibcd = do {
     r \<leftarrow> decodex (lcp_codec fmt) (main_cryptde h) (ibcd_data ibcd);
     (case r of
        Inl _ \<Rightarrow> Some []
      | Inr live_package \<Rightarrow> do {
          r \<leftarrow> next_hop (cores_hop_codec fmt) (lcp_route live_package) (main_cryptde h);
          (case r of
             Inl _ \<Rightarrow> Some []
           | Inr hop \<Rightarrow> route_data fmt bans now h (client_addr ibcd) hop live_package (ibcd_last_data ibcd) (clone_but_data now ibcd)) }) }"

subsection \<open>The actor\<close>

text \<open>An unbound Hopper panics on every message.\<close>

definition hopper_no_lookup :: "('s, 'x) cores_format \<Rightarrow> u32 codec \<Rightarrow> hopper \<Rightarrow> no_lookup_incipient_cores_package \<Rightarrow> 'x hopper_output list option" where
  "hopper_no_lookup fmt ids h pkg = do { _ \<leftarrow> services h; consume_no_lookup fmt ids h pkg }"

definition hopper_incipient :: "('s, 'x) cores_format \<Rightarrow> nat \<Rightarrow> hopper \<Rightarrow> incipient_cores_package \<Rightarrow> 'x hopper_output list option" where
  "hopper_incipient fmt now h pkg = do { _ \<leftarrow> services h; consume fmt now h pkg }"

definition hopper_inbound :: "('s, 'x) cores_format \<Rightarrow> banned_cache \<Rightarrow> nat \<Rightarrow> hopper \<Rightarrow> inbound_client_data \<Rightarrow> 'x hopper_output list option" where
  "hopper_inbound fmt bans now h ibcd = do { _ \<leftarrow> services h; route_ibcd fmt bans now h ibcd }"

end
