(* ===== verification/Node_Descriptor.thy ===== *)
theory Node_Descriptor
  imports Node_Record Versioned_Data
begin

text \<open>
  Model of the chains of \<open>masq_lib/src/blockchains\<close>, of the text form of \<open>NodeAddr\<close>
  (\<open>node/src/sub_lib/node_addr.rs\<close>) and of \<open>NodeDescriptor\<close>
  (\<open>node/src/sub_lib/neighborhood.rs\<close>), which a user gives to a Node as a neighbor.
  Strings are strings of ASCII characters.  How a public key is written in a descriptor is
  up to the encryption in use and is an argument.
\<close>

section \<open>Chains\<close>

record blockchain_record =
  self_id :: chain
  num_chain_id :: u64
  literal_identifier :: string
  contract_address :: "u8 list"
  contract_creation_block :: u64

definition POLYGON_MAINNET_CONTRACT_ADDRESS :: "u8 list" where
  "POLYGON_MAINNET_CONTRACT_ADDRESS =
     [0xEe, 0x9A, 0x35, 0x2F, 0x6a, 0xAc, 0x4a, 0xF1, 0xA5, 0xB9, 0xf4, 0x67, 0xF6, 0xa9, 0x3E, 0x0f, 0xfB, 0xe9, 0xDd, 0x35]"

definition ETH_MAINNET_CONTRACT_ADDRESS :: "u8 list" where
  "ETH_MAINNET_CONTRACT_ADDRESS =
     [0x06, 0xF3, 0xC3, 0x23, 0xf0, 0x23, 0x8c, 0x72, 0xBF, 0x35, 0x01, 0x10, 0x71, 0xf2, 0xb5, 0xB7, 0xF4, 0x3A, 0x05, 0x4c]"

definition BASE_MAINNET_CONTRACT_ADDRESS :: "u8 list" where
  "BASE_MAINNET_CONTRACT_ADDRESS =
     [0x45, 0xD9, 0xC1, 0x01, 0xa3, 0x87, 0x0C, 0xa5, 0x02, 0x45, 0x82, 0xfd, 0x78, 0x8F, 0x4E, 0x1e, 0x8F, 0x79, 0x71, 0xc3]"

definition BASE_SEPOLIA_TESTNET_CONTRACT_ADDRESS :: "u8 list" where
  "BASE_SEPOLIA_TESTNET_CONTRACT_ADDRESS =
     [0x89, 0x8e, 0x1c, 0xe7, 0x20, 0x08, 0x4A, 0x90, 0x2b, 0xc3, 0x7d, 0xd8, 0x22, 0xed, 0x6d, 0x6a, 0x5f, 0x02, 0x7e, 0x10]"

definition POLYGON_AMOY_TESTNET_CONTRACT_ADDRESS :: "u8 list" where
  "POLYGON_AMOY_TESTNET_CONTRACT_ADDRESS =
     [0xd9, 0x8c, 0x3e, 0xbd, 0x6b, 0x7f, 0x9b, 0x7c, 0xda, 0x24, 0x49, 0xec, 0xac, 0x00, 0xd1, 0xe5, 0xf4, 0x7a, 0x81, 0x93]"

definition ETH_ROPSTEN_TESTNET_CONTRACT_ADDRESS :: "u8 list" where
  "ETH_ROPSTEN_TESTNET_CONTRACT_ADDRESS =
     [0x38, 0x4d, 0xec, 0x25, 0xe0, 0x3f, 0x94, 0x93, 0x17, 0x67, 0xce, 0x4c, 0x35, 0x56, 0x16, 0x84, 0x68, 0xba, 0x24, 0xc3]"

definition MULTINODE_TESTNET_CONTRACT_ADDRESS :: "u8 list" where
  "MULTINODE_TESTNET_CONTRACT_ADDRESS =
     [0x59, 0x88, 0x2e, 0x4a, 0x8f, 0x5d, 0x24, 0x64, 0x3d, 0x4d, 0xda, 0x42, 0x29, 0x22, 0xa8, 0x70, 0xf1, 0xb3, 0xe6, 0x64]"

definition POLYGON_MAINNET_FULL_IDENTIFIER :: string where
  "POLYGON_MAINNET_FULL_IDENTIFIER = ''polygon-mainnet''"

definition POLYGON_AMOY_FULL_IDENTIFIER :: string where
  "POLYGON_AMOY_FULL_IDENTIFIER = ''polygon-amoy''"

definition ETH_MAINNET_FULL_IDENTIFIER :: string where
  "ETH_MAINNET_FULL_IDENTIFIER = ''eth-mainnet''"

definition ETH_ROPSTEN_FULL_IDENTIFIER :: string where
  "ETH_ROPSTEN_FULL_IDENTIFIER = ''eth-ropsten''"

definition BASE_MAINNET_FULL_IDENTIFIER :: string where
  "BASE_MAINNET_FULL_IDENTIFIER = ''base-mainnet''"

definition BASE_SEPOLIA_FULL_IDENTIFIER :: string where
  "BASE_SEPOLIA_FULL_IDENTIFIER = ''base-sepolia''"

definition DEV_CHAIN_FULL_IDENTIFIER :: string where
  "DEV_CHAIN_FULL_IDENTIFIER = ''dev''"

definition CHAINS :: "blockchain_record list" where
  "CHAINS =
    [\<lparr>self_id = PolyMainnet, num_chain_id = 137, literal_identifier = POLYGON_MAINNET_FULL_IDENTIFIER,
      contract_address = POLYGON_MAINNET_CONTRACT_ADDRESS, contract_creation_block = 14863650\<rparr>,
     \<lparr>self_id = EthMainnet, num_chain_id = 1, literal_identifier = ETH_MAINNET_FULL_IDENTIFIER,
      contract_address = ETH_MAINNET_CONTRACT_ADDRESS, contract_creation_block = 11170708\<rparr>,
     \<lparr>self_id = BaseMainnet, num_chain_id = 8453, literal_identifier = BASE_MAINNET_FULL_IDENTIFIER,
      contract_address = BASE_MAINNET_CONTRACT_ADDRESS, contract_creation_block = 19711235\<rparr>,
     \<lparr>self_id = BaseSepolia, num_chain_id = 84532, literal_identifier = BASE_SEPOLIA_FULL_IDENTIFIER,
      contract_address = BASE_SEPOLIA_TESTNET_CONTRACT_ADDRESS, contract_creation_block = 14732730\<rparr>,
     \<lparr>self_id = PolyAmoy, num_chain_id = 80002, literal_identifier = POLYGON_AMOY_FULL_IDENTIFIER,
      contract_address = POLYGON_AMOY_TESTNET_CONTRACT_ADDRESS, contract_creation_block = 5323366\<rparr>,
     \<lparr>self_id = EthRopsten, num_chain_id = 3, literal_identifier = ETH_ROPSTEN_FULL_IDENTIFIER,
      contract_address = ETH_ROPSTEN_TESTNET_CONTRACT_ADDRESS, contract_creation_block = 8688171\<rparr>,
     \<lparr>self_id = Dev, num_chain_id = 2, literal_identifier = DEV_CHAIN_FULL_IDENTIFIER,
      contract_address = MULTINODE_TESTNET_CONTRACT_ADDRESS, contract_creation_block = 0\<rparr>]"

definition DEFAULT_CHAIN :: chain where
  "DEFAULT_CHAIN = PolyMainnet"

definition chain_from :: "string \<Rightarrow> chain option" where
  "chain_from str =
     (if str = POLYGON_MAINNET_FULL_IDENTIFIER then Some PolyMainnet
      else if str = ETH_MAINNET_FULL_IDENTIFIER then Some EthMainnet
      else if str = BASE_MAINNET_FULL_IDENTIFIER then Some BaseMainnet
      else if str = BASE_SEPOLIA_FULL_IDENTIFIER then Some BaseSepolia
      else if str = POLYGON_AMOY_FULL_IDENTIFIER then Some PolyAmoy
      else if str = ETH_ROPSTEN_FULL_IDENTIFIER then Some EthRopsten
      else if str = DEV_CHAIN_FULL_IDENTIFIER then Some Dev
      else None)"

definition chain_rec :: "chain \<Rightarrow> blockchain_record option" where
  "chain_rec ch = find (\<lambda>b. self_id b = ch) CHAINS"

definition return_record_opt_body :: "(blockchain_record \<Rightarrow> bool) \<Rightarrow> blockchain_record list \<Rightarrow> blockchain_record option option" where
  "return_record_opt_body closure collection_of_chains =
     (case filter closure collection_of_chains of
        [] \<Rightarrow> Some None
      | [r] \<Rightarrow> Some (Some r)
      | _ \<Rightarrow> None)"

definition return_record_opt_standard_impl :: "(blockchain_record \<Rightarrow> bool) \<Rightarrow> blockchain_record option option" where
  "return_record_opt_standard_impl closure = return_record_opt_body closure CHAINS"

definition chain_from_chain_identifier_opt :: "string \<Rightarrow> chain option option" where
  "chain_from_chain_identifier_opt identifier =
     map_option (map_option self_id) (return_record_opt_standard_impl (\<lambda>b. literal_identifier b = identifier))"

lemmas identifiers = POLYGON_MAINNET_FULL_IDENTIFIER_def POLYGON_AMOY_FULL_IDENTIFIER_def ETH_MAINNET_FULL_IDENTIFIER_def
  ETH_ROPSTEN_FULL_IDENTIFIER_def BASE_MAINNET_FULL_IDENTIFIER_def BASE_SEPOLIA_FULL_IDENTIFIER_def DEV_CHAIN_FULL_IDENTIFIER_def

text \<open>Every chain has its record, and the identifier in the record leads back to the chain.\<close>

lemma chain_rec_identifier:
  obtains r where "chain_rec ch = Some r" "self_id r = ch" "chain_from_chain_identifier_opt (literal_identifier r) = Some (Some ch)"
    "chain_from (literal_identifier r) = Some ch"
proof (cases ch)
qed (rule that, simp add: chain_rec_def CHAINS_def, simp_all add: CHAINS_def chain_from_chain_identifier_opt_def
    return_record_opt_standard_impl_def return_record_opt_body_def chain_from_def identifiers)+

section \<open>Addresses as text\<close>

definition hex_digit :: "nat \<Rightarrow> char" where
  "hex_digit n = (if n < 10 then char_of (48 + n) else char_of (87 + n))"

fun hexadecimal :: "nat \<Rightarrow> string" where
  "hexadecimal n = (if n < 16 then [hex_digit n] else hexadecimal (n div 16) @ [hex_digit (n mod 16)])"

declare hexadecimal.simps [simp del]

text \<open>
  \<open>Display\<close> of an IPv6 address: the longest run of zero segments, the first such run if it
  has more than one segment, is left out.
\<close>

fun zero_span :: "nat \<Rightarrow> nat \<times> nat \<Rightarrow> nat \<times> nat \<Rightarrow> u16 list \<Rightarrow> nat \<times> nat" where
  "zero_span i current longest [] = longest"
| "zero_span i current longest (segment # segments) =
     (if segment = 0 then
        (let current = (if snd current = 0 then i else fst current, snd current + 1)
         in zero_span (Suc i) current (if snd longest < snd current then current else longest) segments)
      else zero_span (Suc i) (0, 0) longest segments)"

definition show_segments :: "u16 list \<Rightarrow> string" where
  "show_segments segments = join '':'' (map (\<lambda>s. hexadecimal (unat s)) segments)"

definition show_ipv6 :: "u128 \<Rightarrow> string" where
  "show_ipv6 ip =
     (let segments = segments6 ip
      in if take 6 segments = [0, 0, 0, 0, 0, 0xFFFF] then ''::ffff:'' @ show_ipv4 (ucast ip)
         else (case zero_span 0 (0, 0) (0, 0) segments of (start, len) \<Rightarrow>
           if 1 < len then show_segments (take start segments) @ ''::'' @ show_segments (drop (start + len) segments)
           else show_segments segments))"

fun show_ip_addr :: "ip_addr \<Rightarrow> string" where
  "show_ip_addr (V4 ip) = show_ipv4 ip"
| "show_ip_addr (V6 ip) = show_ipv6 ip"

definition node_addr_display :: "node_addr \<Rightarrow> string" where
  "node_addr_display addr = show_ip_addr (addr_ip addr) @ '':'' @ join ''/'' (map (\<lambda>x. decimal (unat x)) (addr_ports addr))"

definition LOWEST_USABLE_INSECURE_PORT :: u16 where
  "LOWEST_USABLE_INSECURE_PORT = 1025"

text \<open>The texts of the errors; each shows a part of the input.\<close>

datatype node_addr_error =
    NodeAddrSyntax string
  | NodeAddrIp string
  | NodeAddrPort string

definition port_from_str :: "string \<Rightarrow> node_addr_error + u16" where
  "port_from_str s =
     (case parse_u16 s of
        None \<Rightarrow> Inl (NodeAddrPort s)
      | Some port \<Rightarrow> if port < LOWEST_USABLE_INSECURE_PORT then Inl (NodeAddrPort s) else Inr port)"

definition ports_from_str :: "string list \<Rightarrow> node_addr_error + u16 list" where
  "ports_from_str pieces = fold (\<lambda>s so_far.
     (case (so_far, port_from_str s) of
        (Inl e, _) \<Rightarrow> Inl e
      | (Inr _, Inl e) \<Rightarrow> Inl e
      | (Inr ports, Inr port) \<Rightarrow> Inr (ports @ [port]))) pieces (Inr [])"

definition node_addr_from_str :: "string \<Rightarrow> node_addr_error + node_addr" where
  "node_addr_from_str input =
     (let pieces = split_char CHR '':'' input
      in if length pieces \<noteq> 2 \<or> pieces ! 0 = [] then Inl (NodeAddrSyntax input)
         else (case ip_addr_from_str (pieces ! 0) of
                 None \<Rightarrow> Inl (NodeAddrIp (pieces ! 0))
               | Some ip \<Rightarrow>
                   (case ports_from_str (split_char CHR ''/'' (pieces ! 1)) of
                      Inl msg \<Rightarrow> Inl msg
                    | Inr ports \<Rightarrow> Inr (node_addr_new ip ports))))"

section \<open>Descriptors as text\<close>

definition MASQ_URL_PREFIX :: string where
  "MASQ_URL_PREFIX = ''masq://''"

definition CENTRAL_DELIMITER :: char where
  "CENTRAL_DELIMITER = CHR 0x40"

definition CHAIN_IDENTIFIER_DELIMITER :: char where
  "CHAIN_IDENTIFIER_DELIMITER = CHR '':''"

datatype descriptor_parsing_error =
    CentralDelimiterProbablyMissing string
  | CentralDelimOrNodeAddr string string
  | CentralDelimOrIdentifier string
  | ChainIdentifierDelimiter string
  | PrefixMissing string
  | WrongChainIdentifier string

datatype descriptor_error = ParsingError descriptor_parsing_error | KeyError string | AddrError node_addr_error

definition descriptor_to_string :: "(public_key \<Rightarrow> string) \<Rightarrow> node_descriptor \<Rightarrow> string option" where
  "descriptor_to_string public_key_to_descriptor_fragment d = do {
     let contact_public_key_string = take 43 (public_key_to_descriptor_fragment (encryption_public_key d));
     let node_addr_string = (case desc_node_addr_opt d of Some addr \<Rightarrow> node_addr_display addr | None \<Rightarrow> '':'');
     r \<leftarrow> chain_rec (blockchain d);
     Some (MASQ_URL_PREFIX @ literal_identifier r @ [CHAIN_IDENTIFIER_DELIMITER] @ contact_public_key_string @
       [CENTRAL_DELIMITER] @ node_addr_string) }"

definition is_ascii_punctuation :: "char \<Rightarrow> bool" where
  "is_ascii_punctuation c \<longleftrightarrow> (let n = of_char c :: nat in (33 \<le> n \<and> n \<le> 47) \<or> (58 \<le> n \<and> n \<le> 64) \<or> (91 \<le> n \<and> n \<le> 96) \<or> (123 \<le> n \<and> n \<le> 126))"

definition is_alphabetic :: "char \<Rightarrow> bool" where
  "is_alphabetic c \<longleftrightarrow> (let n = of_char c :: nat in (65 \<le> n \<and> n \<le> 90) \<or> (97 \<le> n \<and> n \<le> 122))"

definition is_ascii_hexdigit :: "char \<Rightarrow> bool" where
  "is_ascii_hexdigit c \<longleftrightarrow> (let n = of_char c :: nat in (48 \<le> n \<and> n \<le> 57) \<or> (65 \<le> n \<and> n \<le> 70) \<or> (97 \<le> n \<and> n \<le> 102))"

definition assert_purely_numerical :: "string \<Rightarrow> bool" where
  "assert_purely_numerical s \<longleftrightarrow> list_all (\<lambda>c. \<not> is_alphabetic c) (filter (\<lambda>c. \<not> is_ascii_punctuation c) s)"

definition approx_position_assertion :: "string \<Rightarrow> string \<times> string \<Rightarrow> descriptor_parsing_error option" where
  "approx_position_assertion descriptor halves =
     (if assert_purely_numerical (fst halves) then Some (CentralDelimOrIdentifier descriptor)
      else if \<not> assert_purely_numerical (snd halves) \<and> length (filter (\<lambda>c. c = CHR '':'') (snd halves)) < 3 \<or>
           list_ex (\<lambda>c. \<not> is_ascii_hexdigit c) (filter (\<lambda>c. \<not> is_ascii_punctuation c) (snd halves))
        then Some (CentralDelimOrNodeAddr descriptor (snd halves))
      else None)"

definition separate_by_delimiter :: "string \<Rightarrow> char \<Rightarrow> descriptor_parsing_error \<Rightarrow> descriptor_parsing_error + string \<times> string" where
  "separate_by_delimiter s delimiter e =
     (if delimiter \<in> set s then Inr (takeWhile (\<lambda>c. c \<noteq> delimiter) s, tl (dropWhile (\<lambda>c. c \<noteq> delimiter) s)) else Inl e)"

definition strip_prefix :: "string \<Rightarrow> descriptor_parsing_error + string" where
  "strip_prefix s =
     (if take (length MASQ_URL_PREFIX) s = MASQ_URL_PREFIX then Inr (drop (length MASQ_URL_PREFIX) s) else Inl (PrefixMissing s))"

definition first_dividing :: "string \<Rightarrow> descriptor_parsing_error + string \<times> string" where
  "first_dividing descriptor =
     (case strip_prefix descriptor of
        Inl e \<Rightarrow> Inl e
      | Inr without_prefix \<Rightarrow>
          (case separate_by_delimiter without_prefix CENTRAL_DELIMITER (CentralDelimiterProbablyMissing descriptor) of
             Inl e \<Rightarrow> Inl e
           | Inr halves \<Rightarrow> (case approx_position_assertion descriptor halves of Some e \<Rightarrow> Inl e | None \<Rightarrow> Inr halves)))"

definition second_dividing :: "string \<Rightarrow> string \<Rightarrow> (descriptor_parsing_error + chain \<times> string) option" where
  "second_dividing front descriptor =
     (case separate_by_delimiter front CHAIN_IDENTIFIER_DELIMITER (ChainIdentifierDelimiter descriptor) of
        Inl e \<Rightarrow> Some (Inl e)
      | Inr (chain_identifier, _) \<Rightarrow> do {
          ch_opt \<leftarrow> chain_from_chain_identifier_opt chain_identifier;
          Some (case ch_opt of
             Some ch \<Rightarrow> Inr (ch, drop (length chain_identifier + 1) front)
           | None \<Rightarrow> Inl (WrongChainIdentifier chain_identifier)) })"

definition parse_url :: "string \<Rightarrow> (descriptor_parsing_error + chain \<times> string \<times> string) option" where
  "parse_url descriptor =
     (case first_dividing descriptor of
        Inl e \<Rightarrow> Some (Inl e)
      | Inr (front_end, tail) \<Rightarrow> do {
          r \<leftarrow> second_dividing front_end descriptor;
          Some (case r of Inl e \<Rightarrow> Inl e | Inr (ch, key) \<Rightarrow> Inr (ch, key, tail)) })"

definition descriptor_try_from :: "(string \<Rightarrow> string + public_key) \<Rightarrow> string \<Rightarrow> (descriptor_error + node_descriptor) option" where
  "descriptor_try_from descriptor_fragment_to_first_contact_public_key str_descriptor = do {
     r \<leftarrow> parse_url str_descriptor;
     Some (case r of
        Inl e \<Rightarrow> Inl (ParsingError e)
      | Inr (ch, key, str_node_addr) \<Rightarrow>
          (case descriptor_fragment_to_first_contact_public_key key of
             Inl e \<Rightarrow> Inl (KeyError e)
           | Inr encryption_key \<Rightarrow>
               if str_node_addr = '':''
               then Inr \<lparr>blockchain = ch, encryption_public_key = encryption_key, desc_node_addr_opt = None\<rparr>
               else (case node_addr_from_str str_node_addr of
                       Inl e \<Rightarrow> Inl (AddrError e)
                     | Inr addr \<Rightarrow> Inr \<lparr>blockchain = ch, encryption_public_key = encryption_key, desc_node_addr_opt = Some addr\<rparr>))) }"

section \<open>Reading back\<close>

lemma not_in_decimal [simp]: "CHR ''/'' \<notin> set (decimal n)" "CHR '':'' \<notin> set (decimal n)" "CHR 0x40 \<notin> set (decimal n)" "CHR ''.'' \<notin> set (decimal n)"
  by (rule decimal_digits_only, simp add: to_digit_def digit_value_def)+

lemma port_from_str_decimal: "LOWEST_USABLE_INSECURE_PORT \<le> p \<Longrightarrow> port_from_str (decimal (unat p)) = Inr p"
  by (simp add: port_from_str_def linorder_not_less)

lemma ports_from_str_decimal:
  assumes "\<forall>p \<in> set ports. LOWEST_USABLE_INSECURE_PORT \<le> p"
  shows "ports_from_str (map (\<lambda>x. decimal (unat x)) ports) = Inr ports"
proof -
  have "fold (\<lambda>s so_far. (case (so_far, port_from_str s) of
        (Inl e, _) \<Rightarrow> Inl e
      | (Inr _, Inl e) \<Rightarrow> Inl e
      | (Inr ports, Inr port) \<Rightarrow> Inr (ports @ [port]))) (map (\<lambda>x. decimal (unat x)) ports) (Inr acc) = Inr (acc @ ports)" for acc
    using assms by (induction ports arbitrary: acc) (simp_all add: port_from_str_decimal)
  from this [of "[]"] show ?thesis by (simp add: ports_from_str_def)
qed

text \<open>Addresses that can be written and read: IPv4, with usable ports in order.\<close>

definition addr_writable :: "node_addr \<Rightarrow> bool" where
  "addr_writable addr \<longleftrightarrow> (\<exists>ip. addr_ip addr = V4 ip) \<and> addr_ports addr \<noteq> [] \<and> sorted (addr_ports addr) \<and> distinct (addr_ports addr) \<and>
     (\<forall>p \<in> set (addr_ports addr). LOWEST_USABLE_INSECURE_PORT \<le> p)"

lemma show_ipv4_chars:
  obtains a b c d where "show_ipv4 ip = decimal a @ ''.'' @ decimal b @ ''.'' @ decimal c @ ''.'' @ decimal d"
proof -
  have "length (octets4 ip) = Suc (Suc (Suc (Suc 0)))" by simp
  then obtain a b c d where "octets4 ip = [a, b, c, d]" unfolding length_Suc_conv by auto
  then show thesis using that by (simp add: show_ipv4_def)
qed

lemma node_addr_round_trip:
  assumes "addr_writable addr"
  shows "node_addr_from_str (node_addr_display addr) = Inr addr"
proof -
  from assms obtain ip where ip: "addr_ip addr = V4 ip" and ps: "addr_ports addr \<noteq> []" "sorted (addr_ports addr)" "distinct (addr_ports addr)"
    "\<forall>p \<in> set (addr_ports addr). LOWEST_USABLE_INSECURE_PORT \<le> p" unfolding addr_writable_def by blast
  let ?ports = "join ''/'' (map (\<lambda>x. decimal (unat x)) (addr_ports addr))"
  obtain a b c d where "show_ipv4 ip = decimal a @ ''.'' @ decimal b @ ''.'' @ decimal c @ ''.'' @ decimal d" by (rule show_ipv4_chars)
  then have v4: "CHR '':'' \<notin> set (show_ipv4 ip)" "show_ipv4 ip \<noteq> []" by auto
  have "CHR '':'' \<notin> set ?ports" using set_join [of "''/''" "map (\<lambda>x. decimal (unat x)) (addr_ports addr)"] by auto
  then have "split_char CHR '':'' (node_addr_display addr) = [show_ipv4 ip, ?ports]"
    using v4 by (simp add: node_addr_display_def ip split_char_once split_char_none)
  moreover have "split_char CHR ''/'' ?ports = map (\<lambda>x. decimal (unat x)) (addr_ports addr)"
    using ps(1) by (intro split_join) auto
  moreover have "node_addr_new (V4 ip) (addr_ports addr) = addr"
    using ps ip by (simp add: node_addr_new_def sorted_sort_id remdups_adj_distinct)
  ultimately show ?thesis
    using v4(2) by (simp add: node_addr_from_str_def ip_addr_from_str_show_ipv4 ports_from_str_decimal [OF ps(4)])
qed

text \<open>The characters of a written address: a point, a slash, the digits and a colon.\<close>

definition addr_char :: "char \<Rightarrow> bool" where
  "addr_char c \<longleftrightarrow> (let n = of_char c :: nat in 46 \<le> n \<and> n \<le> 58)"

lemma addr_char_kinds:
  assumes "addr_char c"
  shows "\<not> is_alphabetic c" "is_ascii_punctuation c \<or> is_ascii_hexdigit c"
  using assms by (auto simp: addr_char_def is_alphabetic_def is_ascii_punctuation_def is_ascii_hexdigit_def Let_def)

lemma decimal_addr_char: "c \<in> set (decimal n) \<Longrightarrow> addr_char c"
  by (auto simp: addr_char_def dest!: decimal_chars)

lemma addr_display_chars:
  assumes "addr_writable addr" "c \<in> set (node_addr_display addr)"
  shows "addr_char c"
proof -
  from assms(1) obtain ip where ip: "addr_ip addr = V4 ip" unfolding addr_writable_def by blast
  obtain a b c' d where "show_ipv4 ip = decimal a @ ''.'' @ decimal b @ ''.'' @ decimal c' @ ''.'' @ decimal d" by (rule show_ipv4_chars)
  with assms(2) ip set_join [of "''/''" "map (\<lambda>x. decimal (unat x)) (addr_ports addr)"]
  have "addr_char c \<or> c \<in> {CHR ''.'', CHR '':'', CHR ''/''}" by (auto simp: node_addr_display_def intro: decimal_addr_char)
  then show ?thesis by (auto simp: addr_char_def)
qed

lemma identifier_chars:
  assumes "chain_rec ch = Some r"
  shows "CHR 0x40 \<notin> set (literal_identifier r)" "CHR '':'' \<notin> set (literal_identifier r)" "\<not> assert_purely_numerical (literal_identifier r @ s)"
proof -
  have "literal_identifier r \<in> {''polygon-mainnet'', ''eth-mainnet'', ''base-mainnet'', ''base-sepolia'', ''polygon-amoy'', ''eth-ropsten'', ''dev''}"
    using assms by (auto simp: chain_rec_def CHAINS_def identifiers split: if_splits)
  then have i: "\<exists>c \<in> {CHR ''p'', CHR ''e'', CHR ''b'', CHR ''d''}. \<exists>cs. literal_identifier r = c # cs"
    and "CHR 0x40 \<notin> set (literal_identifier r) \<and> CHR '':'' \<notin> set (literal_identifier r)" by auto
  then show "CHR 0x40 \<notin> set (literal_identifier r)" "CHR '':'' \<notin> set (literal_identifier r)" by auto
  from i show "\<not> assert_purely_numerical (literal_identifier r @ s)"
    by (auto simp: assert_purely_numerical_def is_alphabetic_def is_ascii_punctuation_def)
qed

lemma separate_at: "c \<notin> set a \<Longrightarrow> separate_by_delimiter (a @ c # b) c e = Inr (a, b)"
  by (simp add: separate_by_delimiter_def takeWhile_append dropWhile_append)

lemma approx_position_ok:
  assumes "\<not> assert_purely_numerical front" "\<forall>c \<in> set tail. addr_char c"
  shows "approx_position_assertion descriptor (front, tail) = None"
proof -
  have "assert_purely_numerical tail" using assms(2) addr_char_kinds by (auto simp: assert_purely_numerical_def list_all_iff)
  moreover have "\<not> list_ex (\<lambda>c. \<not> is_ascii_hexdigit c) (filter (\<lambda>c. \<not> is_ascii_punctuation c) tail)"
    using assms(2) addr_char_kinds by (auto simp: list_ex_iff)
  ultimately show ?thesis using assms(1) by (simp add: approx_position_assertion_def)
qed

lemma parse_url_written:
  assumes "chain_rec ch = Some r" "CHR 0x40 \<notin> set key" "\<forall>c \<in> set tail. addr_char c"
  shows "parse_url (MASQ_URL_PREFIX @ literal_identifier r @ CHR '':'' # key @ CHR 0x40 # tail) = Some (Inr (ch, key, tail))"
proof -
  obtain r' where "chain_rec ch = Some r'" "chain_from_chain_identifier_opt (literal_identifier r') = Some (Some ch)"
    by (rule chain_rec_identifier)
  with assms(1) have r: "chain_from_chain_identifier_opt (literal_identifier r) = Some (Some ch)" by simp
  note i = identifier_chars [OF assms(1)]
  let ?front = "literal_identifier r @ CHR '':'' # key"
  have f: "separate_by_delimiter (?front @ CHR 0x40 # tail) CENTRAL_DELIMITER e = Inr (?front, tail)" for e
    unfolding CENTRAL_DELIMITER_def using i(1) assms(2) by (intro separate_at) simp
  have "separate_by_delimiter ?front CHAIN_IDENTIFIER_DELIMITER e = Inr (literal_identifier r, key)" for e
    unfolding CHAIN_IDENTIFIER_DELIMITER_def by (rule separate_at [OF i(2)])
  moreover have "approx_position_assertion descriptor (?front, tail) = None" for descriptor
    by (rule approx_position_ok [OF i(3) assms(3)])
  ultimately show ?thesis using f
    by (simp add: parse_url_def first_dividing_def strip_prefix_def second_dividing_def r)
qed

text \<open>
  C36: a descriptor survives being written and read.  With an encryption that reads a key
  back from its text, where the text of a key has no at sign, a descriptor with an IPv4
  address whose ports are usable and in order, or with no address, prints as a text from
  which the same descriptor is read.
\<close>

theorem descriptor_round_trip:
  assumes "contact (take 43 (fragment (encryption_public_key d))) = Inr (encryption_public_key d)"
    and "CHR 0x40 \<notin> set (fragment (encryption_public_key d))"
    and "\<forall>addr. desc_node_addr_opt d = Some addr \<longrightarrow> addr_writable addr"
  shows "\<exists>s. descriptor_to_string fragment d = Some s \<and> descriptor_try_from contact s = Some (Inr d)"
proof -
  obtain r where r: "chain_rec (blockchain d) = Some r" by (rule chain_rec_identifier)
  let ?key = "take 43 (fragment (encryption_public_key d))" and
    ?tail = "case desc_node_addr_opt d of Some addr \<Rightarrow> node_addr_display addr | None \<Rightarrow> '':''"
  have "descriptor_to_string fragment d = Some (MASQ_URL_PREFIX @ literal_identifier r @ CHR '':'' # ?key @ CHR 0x40 # ?tail)"
    by (simp add: descriptor_to_string_def r CENTRAL_DELIMITER_def CHAIN_IDENTIFIER_DELIMITER_def)
  moreover have "\<forall>c \<in> set ?tail. addr_char c"
    using assms(3) addr_display_chars by (auto simp: addr_char_def split: option.split)
  then have "parse_url (MASQ_URL_PREFIX @ literal_identifier r @ CHR '':'' # ?key @ CHR 0x40 # ?tail) = Some (Inr (blockchain d, ?key, ?tail))"
    using assms(2) by (intro parse_url_written [OF r]) (auto dest: in_set_takeD)
  moreover have "node_addr_display addr \<noteq> '':''" if "addr_writable addr" for addr
    using node_addr_round_trip [OF that] by (auto simp: node_addr_from_str_def)
  ultimately show ?thesis
    using assms(1,3) by (auto simp: descriptor_try_from_def node_addr_round_trip split: option.split)
qed

definition sample_descriptor :: node_descriptor where
  "sample_descriptor = \<lparr>blockchain = BaseSepolia, encryption_public_key = [65, 81],
     desc_node_addr_opt = Some \<lparr>addr_ip = V4 0x01020304, addr_ports = [5000, 6000]\<rparr>\<rparr>"

theorem descriptor_round_trip_witness:
  "\<exists>s. descriptor_to_string (map (\<lambda>w. char_of (unat w))) sample_descriptor = Some s \<and>
     descriptor_try_from (\<lambda>s. Inr (map (\<lambda>c. of_nat (of_char c)) s)) s = Some (Inr sample_descriptor)"
proof (rule descriptor_round_trip)
  show "\<forall>addr. desc_node_addr_opt sample_descriptor = Some addr \<longrightarrow> addr_writable addr"
    by (simp add: sample_descriptor_def addr_writable_def LOWEST_USABLE_INSECURE_PORT_def)
qed (simp add: sample_descriptor_def, simp add: sample_descriptor_def, code_simp)

section \<open>Addresses that are not read back\<close>

lemma split_char_colons: "length (split_char c s) \<noteq> 2 \<longleftrightarrow> length (filter (\<lambda>x. x = c) s) \<noteq> 1"
  by (simp add: length_split_char)

lemma join_colons: "ss \<noteq> [] \<Longrightarrow> length ss - 1 \<le> length (filter (\<lambda>x. x = c) (join [c] ss))"
  by (induction "[c]" ss rule: join.induct) auto

lemma show_ipv6_colons: "2 \<le> length (filter (\<lambda>x. x = CHR '':'') (show_ipv6 ip))"
proof -
  have "length (segments6 ip) = 8" by (simp add: segments6_def)
  moreover from this have "segments6 ip \<noteq> []" by (metis list.size(3) zero_neq_numeral)
  ultimately have "7 \<le> length (filter (\<lambda>x. x = CHR '':'') (show_segments (segments6 ip)))"
    using join_colons [of "map (\<lambda>s. hexadecimal (unat s)) (segments6 ip)" "CHR '':''"] by (auto simp: show_segments_def)
  then show ?thesis by (auto simp: show_ipv6_def Let_def split: prod.split)
qed

text \<open>
  C37: an IPv6 address cannot be read back.  Whatever the address and the ports, the text
  that \<open>Display\<close> makes of them is refused by \<open>FromStr\<close> as malformed: the address has colons
  of its own, and reading splits at every colon.
\<close>

theorem ipv6_not_readable:
  "node_addr_from_str (node_addr_display \<lparr>addr_ip = V6 ip, addr_ports = ports\<rparr>) =
     Inl (NodeAddrSyntax (node_addr_display \<lparr>addr_ip = V6 ip, addr_ports = ports\<rparr>))"
proof -
  have "length (filter (\<lambda>x. x = CHR '':'') (node_addr_display \<lparr>addr_ip = V6 ip, addr_ports = ports\<rparr>)) \<noteq> 1"
    using show_ipv6_colons [of ip] by (auto simp: node_addr_display_def)
  then show ?thesis by (simp add: node_addr_from_str_def length_split_char)
qed

end
