(* ===== verification/Neighborhood.thy ===== *)
theory Neighborhood
  imports Routing Gossip_Acceptor Hopper Node_Descriptor "HOL-Library.Char_ord"
begin

text \<open>
  Model of the actor of \<open>node/src/neighborhood/mod.rs\<close>: its state, the handler of every
  message it receives, and what it sends.  The search for routes and the handling of gossip
  are in \<open>Routing\<close> and \<open>Gossip_Acceptor\<close>; here they are composed.  A handler returns the new
  state and the messages it sends, in order; \<^term>\<open>None\<close> is a panic.  Logging is left out.
\<close>

section \<open>Messages and state\<close>

datatype hops = OneHop | TwoHops | ThreeHops | FourHops | FiveHops | SixHops

fun hops_number :: "hops \<Rightarrow> nat" where
  "hops_number OneHop = 1"
| "hops_number TwoHops = 2"
| "hops_number ThreeHops = 3"
| "hops_number FourHops = 4"
| "hops_number FiveHops = 5"
| "hops_number SixHops = 6"

definition hops_from_str :: "string \<Rightarrow> hops option" where
  "hops_from_str value =
     (if value = ''1'' then Some OneHop
      else if value = ''2'' then Some TwoHops
      else if value = ''3'' then Some ThreeHops
      else if value = ''4'' then Some FourHops
      else if value = ''5'' then Some FiveHops
      else if value = ''6'' then Some SixHops
      else None)"

definition hops_display :: "hops \<Rightarrow> string" where
  "hops_display h = decimal (hops_number h)"

record route_query_message =
  target_key_opt :: "public_key option"
  target_component :: component
  return_component_opt :: "component option"
  query_payload_size :: nat
  hostname_opt :: "string option"

definition data_indefinite_route_request :: "string option \<Rightarrow> nat \<Rightarrow> route_query_message" where
  "data_indefinite_route_request hostname payload_size =
     \<lparr>target_key_opt = None, target_component = CProxyClient, return_component_opt = Some CProxyServer,
      query_payload_size = payload_size, hostname_opt = hostname\<rparr>"

datatype expected_service =
    ServiceRouting public_key wallet rate_pack
  | ServiceExit public_key wallet rate_pack
  | ServiceNothing

datatype expected_services =
    OneWayServices "expected_service list"
  | RoundTripServices "expected_service list" "expected_service list" u32

record route_query_response =
  response_route :: route
  response_services :: expected_services

text \<open>The texts of the errors of a route query, with the values they show.\<close>

datatype route_query_error =
    NoRoutesFound nat public_key component "public_key option"
  | NoSegmentKeys
  | NoConsumingWallet
  | NoKeysProvided
  | UnknownNeighbor

datatype config_change =
    UpdateMinHops hops
  | UpdatePassword string
  | UpdateWallets wallet wallet

datatype node_query = QueryIpAddress ip_addr | QueryPublicKey public_key

record node_query_response_metadata =
  response_public_key :: public_key
  response_node_addr_opt :: "node_addr option"
  response_rate_pack :: rate_pack

record ui_set_exit_location_request =
  request_fallback_routing :: bool
  request_exit_locations :: "exit_location list"
  request_show_countries :: bool

record ui_set_exit_location_response =
  fallback_routing :: bool
  exit_country_selection :: "exit_location list"
  shown_exit_countries :: "string list option"
  missing_countries :: "string list"

datatype ui_body =
    UiSetExitLocationResponse ui_set_exit_location_response
  | UiExitLocationError u64 string
  | UiConnectionStatusResponse ui_connection_stage

text \<open>A message from a user interface, as far as its body can be read.\<close>

datatype ui_request =
    UiSetExitLocation ui_set_exit_location_request u64
  | UiConnectionStatus u64
  | UiShutdown
  | UiCrash string
  | UiUnknown

datatype neighborhood_output =
    NoLookupPackage no_lookup_incipient_cores_package
  | CoresPackage incipient_cores_package
  | StageToUi ui_connection_stage
  | StartAccountant
  | AskAboutDebutLater connection_progress
  | ProgressMessage connection_progress_message
  | NodeQueryAnswer "node_query_response_metadata option"
  | SavePastNeighbors "node_descriptor list option"
  | UiMessage u64 u64 ui_body
  | RouteQueryAnswer "route_query_response option"
  | StopWithCode nat
  | ExitProcess nat

text \<open>
  The state of the actor.  The recipients are set together by the \<open>BindMessage\<close>, and
  \<open>nbh_bound\<close> tells whether they are; \<open>nbh_connected\<close> tells whether the database with the
  persistent configuration is connected.
\<close>

record neighborhood =
  nbh_bound :: bool
  nbh_pass_targets :: pass_targets
  nbh_producer :: gossip_producer
  nbh_database :: neighborhood_database
  nbh_consuming_wallet_opt :: "wallet option"
  nbh_mode :: neighborhood_mode_light
  nbh_min_hops :: hops
  nbh_db_patch_size :: u8
  nbh_next_return_route_id :: u32
  nbh_status :: overall_connection_status
  nbh_chain :: chain
  nbh_crashable :: bool
  nbh_connected :: bool
  nbh_db_password_opt :: "string option"
  nbh_preferences :: user_exit_preferences

text \<open>
  What the actor uses of its surroundings: encryption, codecs and formats; the surroundings
  of the gossip acceptor; how gossip and gossip failures are payloads; the orders in which
  hash sets are iterated; the readings of the clock when gossip for a key is produced; the
  key that a descriptor has for the Node of a key; and the number of hops in the persistent
  configuration, if the database can be opened and has it.
\<close>

record ('s, 'x) neighborhood_env =
  env_format :: "('s, 'x) cores_format"
  env_ids :: "u32 codec"
  env_cryptde :: cryptde
  env_acceptor :: acceptor_env
  gossip_payload :: "gossip \<Rightarrow> 'x"
  failure_payload :: "gossip_failure \<Rightarrow> 'x"
  search_order :: "public_key list \<Rightarrow> public_key fset \<Rightarrow> public_key list"
  set_order :: "public_key fset \<Rightarrow> public_key list"
  produce_clock :: "public_key \<Rightarrow> u32 \<times> u32 \<times> u32"
  contact_key :: "public_key \<Rightarrow> public_key option"
  config_min_hops :: "hops option"

abbreviation own_key :: "('s, 'x) neighborhood_env \<Rightarrow> public_key" where
  "own_key env \<equiv> cde_public_key (env_cryptde env)"

section \<open>Construction\<close>

definition DEFAULT_MIN_HOPS :: hops where
  "DEFAULT_MIN_HOPS = ThreeHops"

definition RESPONSE_UNDESIRABILITY_FACTOR :: nat where
  "RESPONSE_UNDESIRABILITY_FACTOR = 1000"

definition CRASH_KEY :: string where
  "CRASH_KEY = ''NEIGHBORHOOD''"

definition calculate_db_patch_size :: "hops \<Rightarrow> u8" where
  "calculate_db_patch_size min_hops =
     of_nat (hops_number (if hops_number min_hops \<le> hops_number DEFAULT_MIN_HOPS then DEFAULT_MIN_HOPS else min_hops))"

record neighborhood_config =
  config_mode :: neighborhood_mode
  config_hops :: hops
  config_earning_wallet :: wallet
  config_consuming_wallet_opt :: "wallet option"
  config_chain :: chain
  config_crashable :: bool
  config_db_password_opt :: "string option"

definition neighborhood_new :: "('s, 'x) neighborhood_env \<Rightarrow> u32 \<Rightarrow> u32 \<Rightarrow> neighborhood_config \<Rightarrow> neighborhood option" where
  "neighborhood_new env now_record now_producer config = do {
     let mode = mode_light (config_mode config);
     let configs = neighbor_configs (config_mode config);
     if mode = ZeroHopLight \<and> configs \<noteq> [] then None
     else do {
       db \<leftarrow> database_new (env_crypt (env_acceptor env)) (env_finder (env_acceptor env)) now_record (own_key env)
         (config_mode config) (config_earning_wallet config);
       if \<exists>nc \<in> set configs. is_mainnet (blockchain nc) \<noteq> is_mainnet (config_chain config) then None
       else do {
         status \<leftarrow> status_new configs;
         Some \<lparr>nbh_bound = False, nbh_pass_targets = fmempty, nbh_producer = producer_new now_producer, nbh_database = db,
               nbh_consuming_wallet_opt = config_consuming_wallet_opt config, nbh_mode = mode, nbh_min_hops = config_hops config,
               nbh_db_patch_size = calculate_db_patch_size (config_hops config), nbh_next_return_route_id = 0,
               nbh_status = status, nbh_chain = config_chain config, nbh_crashable = config_crashable config,
               nbh_connected = False, nbh_db_password_opt = config_db_password_opt config, nbh_preferences = preferences_new\<rparr> } } }"

definition handle_bind_message :: "neighborhood \<Rightarrow> neighborhood" where
  "handle_bind_message nb = nb\<lparr>nbh_bound := True\<rparr>"

text \<open>Sending to the recipients that binding sets; without them, \<open>expect\<close> panics.\<close>

definition send_bound :: "neighborhood \<Rightarrow> neighborhood_output list \<Rightarrow> neighborhood_output list option" where
  "send_bound nb outs = (if nbh_bound nb then Some outs else None)"

section \<open>Packages\<close>

definition gossip_message :: "('s, 'x) neighborhood_env \<Rightarrow> gossip \<Rightarrow> message_type option" where
  "gossip_message env g = do {
     vd \<leftarrow> versioned_data_new (payload_codec (env_format env) GossipLite) (payload_migrations (env_format env) GossipLite)
       (gossip_payload env g);
     Some (GossipMessage vd) }"

definition send_no_lookup_package :: "('s, 'x) neighborhood_env \<Rightarrow> neighborhood \<Rightarrow> message_type \<Rightarrow> public_key \<Rightarrow> node_addr \<Rightarrow>
    neighborhood_output list option" where
  "send_no_lookup_package env nb message target_key target_node_addr =
     (case no_lookup_incipient_new (env_format env) (env_cryptde env) target_key target_node_addr message of
        Inr package \<Rightarrow> send_bound nb [NoLookupPackage package]
      | Inl _ \<Rightarrow> Some [])"

definition handle_gossip_reply :: "('s, 'x) neighborhood_env \<Rightarrow> neighborhood \<Rightarrow> gossip \<Rightarrow> public_key \<Rightarrow> node_addr \<Rightarrow>
    neighborhood_output list option" where
  "handle_gossip_reply env nb g target_key target_node_addr = do {
     message \<leftarrow> gossip_message env g;
     send_no_lookup_package env nb message target_key target_node_addr }"

definition handle_gossip_failed :: "('s, 'x) neighborhood_env \<Rightarrow> neighborhood \<Rightarrow> gossip_failure \<Rightarrow> public_key \<Rightarrow> node_addr \<Rightarrow>
    neighborhood_output list option" where
  "handle_gossip_failed env nb failure target_key target_node_addr = do {
     vd \<leftarrow> versioned_data_new (payload_codec (env_format env) GossipFailureLite) (payload_migrations (env_format env) GossipFailureLite)
       (failure_payload env failure);
     send_no_lookup_package env nb (GossipFailureMessage vd) target_key target_node_addr }"

definition create_single_hop_route :: "('s, 'x) neighborhood_env \<Rightarrow> public_key \<Rightarrow> route option" where
  "create_single_hop_route env destination = do {
     r \<leftarrow> one_way (payment_of (env_format env) (env_ids env)) (route_segment_new [own_key env, destination] CNeighborhood)
       (env_cryptde env) None None;
     (case r of Inr route \<Rightarrow> Some route | Inl _ \<Rightarrow> None) }"

definition gossip_to_neighbor :: "('s, 'x) neighborhood_env \<Rightarrow> neighborhood \<Rightarrow> public_key \<Rightarrow> gossip \<Rightarrow> neighborhood_output list option" where
  "gossip_to_neighbor env nb neighbor g = do {
     route \<leftarrow> create_single_hop_route env neighbor;
     message \<leftarrow> gossip_message env g;
     (case incipient_new (env_format env) (env_cryptde env) route message neighbor of
        Inr package \<Rightarrow> send_bound nb [CoresPackage package]
      | Inl _ \<Rightarrow> None) }"

fun gossip_to_each :: "('s, 'x) neighborhood_env \<Rightarrow> public_key list \<Rightarrow> neighborhood \<Rightarrow> (neighborhood \<times> neighborhood_output list) option" where
  "gossip_to_each env [] nb = Some (nb, [])"
| "gossip_to_each env (neighbor # neighbors) nb = do {
     (gossip_opt, producer, db) \<leftarrow> produce (set_order env) (produce_clock env neighbor) (nbh_producer nb) (nbh_database nb) neighbor;
     let nb = nb\<lparr>nbh_producer := producer, nbh_database := db\<rparr>;
     outs \<leftarrow> (case gossip_opt of Some g \<Rightarrow> gossip_to_neighbor env nb neighbor g | None \<Rightarrow> Some []);
     (nb, outs') \<leftarrow> gossip_to_each env neighbors nb;
     Some (nb, outs @ outs') }"

definition gossip_to_neighbors :: "('s, 'x) neighborhood_env \<Rightarrow> neighborhood \<Rightarrow> (neighborhood \<times> neighborhood_output list) option" where
  "gossip_to_neighbors env nb = do {
     rt \<leftarrow> root (nbh_database nb);
     rt \<leftarrow> record_regenerate_signed_gossip (env_crypt (env_acceptor env)) rt;
     db \<leftarrow> root_mut (\<lambda>_. rt) (nbh_database nb);
     gossip_to_each env (set_order env (half_neighbor_keys rt)) (nb\<lparr>nbh_database := db\<rparr>) }"

section \<open>Answering route queries\<close>

definition advance_return_route_id :: "neighborhood \<Rightarrow> u32 \<times> neighborhood" where
  "advance_return_route_id nb =
     (let return_route_id = nbh_next_return_route_id nb
      in (return_route_id, nb\<lparr>nbh_next_return_route_id := return_route_id + 1\<rparr>))"

definition make_route_segment :: "('s, 'x) neighborhood_env \<Rightarrow> neighborhood \<Rightarrow> public_key \<Rightarrow> public_key option \<Rightarrow> nat \<Rightarrow> component \<Rightarrow> nat \<Rightarrow>
    route_direction \<Rightarrow> string option \<Rightarrow> (route_query_error + route_segment) option" where
  "make_route_segment env nb origin target_opt minimum_hop_count component payload_size direction hostname = do {
     route_opt \<leftarrow> find_best_route_segment (nbh_database nb) (nbh_preferences nb) (search_order env) origin target_opt
       minimum_hop_count payload_size direction hostname;
     Some (case route_opt of
        None \<Rightarrow> Inl (NoRoutesFound minimum_hop_count origin component target_opt)
      | Some route \<Rightarrow> Inr (route_segment_new route component)) }"

definition calculate_expected_service :: "neighborhood \<Rightarrow> public_key \<Rightarrow> public_key option \<Rightarrow> public_key option \<Rightarrow>
    (route_query_error + expected_service) option" where
  "calculate_expected_service nb route_segment_key originator_key exit_key =
     (case node_by_key (nbh_database nb) route_segment_key of
        Some node \<Rightarrow> do {
          rt \<leftarrow> root (nbh_database nb);
          if route_segment_key = public_key rt then Some (Inr ServiceNothing)
          else Some (case (originator_key, exit_key) of
             (Some originator_key, Some exit_key) \<Rightarrow>
               if route_segment_key = originator_key \<or> route_segment_key = exit_key
               then Inr (ServiceExit route_segment_key (earning_wallet node) (inner_rate_pack (inner node)))
               else Inr (ServiceRouting route_segment_key (earning_wallet node) (inner_rate_pack (inner node)))
           | _ \<Rightarrow> Inl NoKeysProvided) }
      | None \<Rightarrow> Some (Inl UnknownNeighbor))"

text \<open>Collecting results up to the first error.\<close>

fun collect_results :: "('k \<Rightarrow> ('e + 'v) option) \<Rightarrow> 'k list \<Rightarrow> ('e + 'v list) option" where
  "collect_results f [] = Some (Inr [])"
| "collect_results f (k # ks) = do {
     r \<leftarrow> f k;
     (case r of
        Inl e \<Rightarrow> Some (Inl e)
      | Inr v \<Rightarrow> do {
          rs \<leftarrow> collect_results f ks;
          Some (case rs of Inl e \<Rightarrow> Inl e | Inr vs \<Rightarrow> Inr (v # vs)) }) }"

definition make_expected_services :: "neighborhood \<Rightarrow> route_segment \<Rightarrow> (route_query_error + expected_service list) option" where
  "make_expected_services nb segment =
     collect_results (\<lambda>key. calculate_expected_service nb key (first_opt (segment_keys segment)) (last_opt (segment_keys segment)))
       (segment_keys segment)"

definition compose_route_query_response :: "('s, 'x) neighborhood_env \<Rightarrow> neighborhood \<Rightarrow> route_segment \<Rightarrow> route_segment \<Rightarrow>
    ((route_query_error + route_query_response) \<times> neighborhood) option" where
  "compose_route_query_response env nb over back_seg =
     (let segments = [over, back_seg]
      in if \<exists>rs \<in> set segments. segment_keys rs = [] then Some (Inl NoSegmentKeys, nb)
         else if nbh_consuming_wallet_opt nb = None \<and> (\<exists>rs \<in> set segments. 2 < length (segment_keys rs)) then Some (Inl NoConsumingWallet, nb)
         else do {
           request_services \<leftarrow> make_expected_services nb over;
           (case request_services of
              Inl e \<Rightarrow> Some (Inl e, nb)
            | Inr expected_request_services \<Rightarrow> do {
                services_back \<leftarrow> make_expected_services nb back_seg;
                (case services_back of
                   Inl e \<Rightarrow> Some (Inl e, nb)
                 | Inr expected_response_services \<Rightarrow> do {
                     let (return_route_id, nb) = advance_return_route_id nb;
                     r \<leftarrow> chain_rec (nbh_chain nb);
                     made \<leftarrow> round_trip (payment_of (env_format env) (env_ids env)) over back_seg (env_cryptde env)
                       (nbh_consuming_wallet_opt nb) return_route_id (Some (contract_address r));
                     (case made of
                        Inl _ \<Rightarrow> None
                      | Inr route \<Rightarrow> Some (Inr \<lparr>response_route = route, response_services =
                          RoundTripServices expected_request_services expected_response_services return_route_id\<rparr>, nb)) }) }) })"

definition USIZE_BOUND :: nat where
  "USIZE_BOUND = 2 ^ 64"

definition make_round_trip_route :: "('s, 'x) neighborhood_env \<Rightarrow> neighborhood \<Rightarrow> route_query_message \<Rightarrow>
    ((route_query_error + route_query_response) \<times> neighborhood) option" where
  "make_round_trip_route env nb request_msg = do {
     over_result \<leftarrow> make_route_segment env nb (own_key env) (target_key_opt request_msg) (hops_number (nbh_min_hops nb))
       (target_component request_msg) (query_payload_size request_msg) Over (hostname_opt request_msg);
     (case over_result of
        Inl e \<Rightarrow> Some (Inl e, nb)
      | Inr over \<Rightarrow> do {
          let anticipated_response_payload_len = query_payload_size request_msg * RESPONSE_UNDESIRABILITY_FACTOR;
          if USIZE_BOUND \<le> anticipated_response_payload_len then None
          else do {
            last_key \<leftarrow> last_opt (segment_keys over);
            return_component \<leftarrow> return_component_opt request_msg;
            back_result \<leftarrow> make_route_segment env nb last_key (Some (own_key env)) (hops_number (nbh_min_hops nb))
              return_component anticipated_response_payload_len Back (hostname_opt request_msg);
            (case back_result of
               Inl e \<Rightarrow> Some (Inl e, nb)
             | Inr back_seg \<Rightarrow> compose_route_query_response env nb over back_seg) } }) }"

definition zero_hop_route_response :: "('s, 'x) neighborhood_env \<Rightarrow> neighborhood \<Rightarrow> (route_query_response \<times> neighborhood) option" where
  "zero_hop_route_response env nb = do {
     let (return_route_id, nb) = advance_return_route_id nb;
     made \<leftarrow> round_trip (payment_of (env_format env) (env_ids env)) (route_segment_new [own_key env, own_key env] CProxyClient)
       (route_segment_new [own_key env, own_key env] CProxyServer) (env_cryptde env) None return_route_id None;
     (case made of
        Inl _ \<Rightarrow> None
      | Inr route \<Rightarrow> Some (\<lparr>response_route = route, response_services =
          RoundTripServices [ServiceNothing, ServiceNothing] [ServiceNothing, ServiceNothing] return_route_id\<rparr>, nb)) }"

definition handle_route_query_message :: "('s, 'x) neighborhood_env \<Rightarrow> neighborhood \<Rightarrow> route_query_message \<Rightarrow>
    (route_query_response option \<times> neighborhood) option" where
  "handle_route_query_message env nb msg =
     (if nbh_mode nb = ZeroHopLight then do {
        (response, nb) \<leftarrow> zero_hop_route_response env nb;
        Some (Some response, nb) }
      else do {
        (result, nb) \<leftarrow> make_round_trip_route env nb msg;
        Some (case result of Inr response \<Rightarrow> Some response | Inl _ \<Rightarrow> None, nb) })"

section \<open>Connectedness\<close>

definition to_stage :: "neighborhood \<Rightarrow> overall_connection_stage \<Rightarrow> (neighborhood \<times> neighborhood_output list) option" where
  "to_stage nb stage =
     (case update_ocs_stage (nbh_status nb) stage of
        (status, stages) \<Rightarrow> do {
          outs \<leftarrow> send_bound nb (map StageToUi stages);
          Some (nb\<lparr>nbh_status := status\<rparr>, outs) })"

definition search_for_a_new_route :: "('s, 'x) neighborhood_env \<Rightarrow> neighborhood \<Rightarrow> (neighborhood \<times> neighborhood_output list) option" where
  "search_for_a_new_route env nb = do {
     let msg = \<lparr>target_key_opt = None, target_component = CProxyClient, return_component_opt = Some CProxyServer,
                query_payload_size = 10000, hostname_opt = None\<rparr>;
     (response_opt, nb) \<leftarrow> handle_route_query_message env nb msg;
     if response_opt \<noteq> None then do {
       (nb, outs) \<leftarrow> to_stage nb RouteFound;
       outs' \<leftarrow> send_bound nb [StartAccountant];
       Some (nb, outs @ outs') }
     else Some (nb, []) }"

definition check_connectedness :: "('s, 'x) neighborhood_env \<Rightarrow> neighborhood \<Rightarrow> (neighborhood \<times> neighborhood_output list) option" where
  "check_connectedness env nb =
     (if \<not> can_make_routes (nbh_status nb) then search_for_a_new_route env nb else Some (nb, []))"

definition to_node_descriptors :: "('s, 'x) neighborhood_env \<Rightarrow> neighborhood \<Rightarrow> public_key list \<Rightarrow> node_descriptor list option" where
  "to_node_descriptors env nb ks = those (map (\<lambda>k. do {
     node_record \<leftarrow> node_by_key (nbh_database nb) k;
     key \<leftarrow> contact_key env (public_key node_record);
     Some \<lparr>blockchain = nbh_chain nb, encryption_public_key = key, desc_node_addr_opt = node_addr_opt node_record\<rparr> }) ks)"

definition curate_past_neighbors :: "('s, 'x) neighborhood_env \<Rightarrow> neighborhood \<Rightarrow> public_key fset \<Rightarrow> public_key fset \<Rightarrow>
    neighborhood_output list option" where
  "curate_past_neighbors env nb neighbor_keys_before neighbor_keys_after =
     (if neighbor_keys_after \<noteq> neighbor_keys_before then
        (case nbh_db_password_opt nb of
           Some db_password \<Rightarrow> do {
             nds \<leftarrow> to_node_descriptors env nb (set_order env neighbor_keys_after);
             let node_descriptors_opt = (if nds = [] then None else Some nds);
             if nbh_connected nb then Some [SavePastNeighbors node_descriptors_opt] else None }
         | None \<Rightarrow> Some [])
      else Some [])"

definition handle_database_changes :: "('s, 'x) neighborhood_env \<Rightarrow> neighborhood \<Rightarrow> public_key fset \<Rightarrow> public_key fset \<Rightarrow>
    (neighborhood \<times> neighborhood_output list) option" where
  "handle_database_changes env nb neighbor_keys_before neighbor_keys_after = do {
     outs \<leftarrow> curate_past_neighbors env nb neighbor_keys_before neighbor_keys_after;
     (nb, outs') \<leftarrow> check_connectedness env nb;
     Some (nb, outs @ outs') }"

section \<open>Exit locations\<close>

definition init_db_countries :: "('s, 'x) neighborhood_env \<Rightarrow> neighborhood \<Rightarrow> string list option" where
  "init_db_countries env nb = do {
     exit_nodes \<leftarrow> find_exit_locations (nbh_database nb) (nbh_preferences nb) (search_order env) (root_key (nbh_database nb))
       (hops_number (nbh_min_hops nb));
     let codes = List.map_filter (\<lambda>pub_key.
         (case node_by_key (nbh_database nb) pub_key of
            Some node_record \<Rightarrow> inner_country_code_opt (inner node_record)
          | None \<Rightarrow> None)) exit_nodes;
     Some (remdups_adj (sort codes)) }"

definition refresh_db_countries :: "('s, 'x) neighborhood_env \<Rightarrow> neighborhood \<Rightarrow> neighborhood option" where
  "refresh_db_countries env nb = do {
     countries \<leftarrow> init_db_countries env nb;
     Some (nb\<lparr>nbh_preferences := (nbh_preferences nb)\<lparr>db_countries := countries\<rparr>\<rparr>) }"

definition code_in_db_countries_or_fallback_active :: "user_exit_preferences \<Rightarrow> string \<Rightarrow> bool" where
  "code_in_db_countries_or_fallback_active prefs code \<longleftrightarrow>
     code \<in> set (db_countries prefs) \<or> fallback_preference prefs = ExitCountryWithFallback"

definition fallback_active_and_code_missing_in_db_countries :: "user_exit_preferences \<Rightarrow> string \<Rightarrow> bool" where
  "fallback_active_and_code_missing_in_db_countries prefs code \<longleftrightarrow>
     fallback_preference prefs = ExitCountryWithFallback \<and> code \<notin> set (db_countries prefs)"

fun synchronize_exit_countries_and_return_missing :: "string list \<Rightarrow> user_exit_preferences \<Rightarrow> string list \<times> user_exit_preferences" where
  "synchronize_exit_countries_and_return_missing [] prefs = ([], prefs)"
| "synchronize_exit_countries_and_return_missing (code # codes) prefs =
     (if code_in_db_countries_or_fallback_active prefs code then
        (let prefs = (if code \<notin> set (exit_countries prefs) then prefs\<lparr>exit_countries := exit_countries prefs @ [code]\<rparr> else prefs);
             missing = (if fallback_active_and_code_missing_in_db_countries prefs code then [code] else []);
             (missing', prefs) = synchronize_exit_countries_and_return_missing codes prefs
         in (missing @ missing', prefs))
      else
        (let (missing', prefs) = synchronize_exit_countries_and_return_missing codes (prefs\<lparr>exit_countries := remove1 code (exit_countries prefs)\<rparr>)
         in (code # missing', prefs)))"

fun synchronize_each :: "exit_location list \<Rightarrow> user_exit_preferences \<Rightarrow> string list \<times> user_exit_preferences" where
  "synchronize_each [] prefs = ([], prefs)"
| "synchronize_each (loc # locs) prefs =
     (let (missing, prefs) = synchronize_exit_countries_and_return_missing (country_codes loc) prefs;
          (missing', prefs) = synchronize_each locs prefs
      in (missing @ missing', prefs))"

definition extract_exit_locations_from_message :: "('s, 'x) neighborhood_env \<Rightarrow> neighborhood \<Rightarrow> ui_set_exit_location_request \<Rightarrow>
    ((exit_location list \<times> string list) \<times> neighborhood) option" where
  "extract_exit_locations_from_message env nb message = do {
     nb \<leftarrow> refresh_db_countries env nb;
     let (countries_not_in_neighborhood, prefs) = synchronize_each (request_exit_locations message) (nbh_preferences nb);
     Some ((request_exit_locations message, countries_not_in_neighborhood), nb\<lparr>nbh_preferences := prefs\<rparr>) }"

text \<open>Changing every record, where the change of one may panic.\<close>

definition try_nodes_mut :: "(node_record \<Rightarrow> node_record option) \<Rightarrow> neighborhood_database \<Rightarrow> neighborhood_database option" where
  "try_nodes_mut f db =
     (if fBall (fmran (by_public_key db)) (\<lambda>nr. f nr \<noteq> None) then Some (nodes_mut (\<lambda>nr. the (f nr)) db) else None)"

definition set_country_undesirability_and_exit_countries :: "neighborhood \<Rightarrow> exit_location list \<Rightarrow> neighborhood option" where
  "set_country_undesirability_and_exit_countries nb exit_locations_by_priority =
     (if exit_locations_by_priority \<noteq> [] then do {
        db \<leftarrow> try_nodes_mut (assign_nodes_country_undesirability (nbh_preferences nb)) (nbh_database nb);
        Some (nb\<lparr>nbh_database := db\<rparr>) }
      else Some (nb\<lparr>nbh_preferences := (nbh_preferences nb)\<lparr>exit_countries := []\<rparr>,
                    nbh_database := nodes_mut (set_undesirability ZERO_UNDESIRABILITY) (nbh_database nb)\<rparr>))"

definition set_exit_locations_opt :: "user_exit_preferences \<Rightarrow> exit_location list \<Rightarrow> user_exit_preferences" where
  "set_exit_locations_opt prefs exit_locations_by_priority = prefs\<lparr>locations_opt :=
     (if exit_countries prefs \<noteq> [] then Some exit_locations_by_priority
      else (case fallback_preference prefs of
              ExitCountryNoFallback \<Rightarrow> None
            | _ \<Rightarrow> Some exit_locations_by_priority))\<rparr>"

definition is_fallback_routing_active :: "user_exit_preferences \<Rightarrow> bool" where
  "is_fallback_routing_active prefs =
     (case fallback_preference prefs of
        Nothing \<Rightarrow> True
      | ExitCountryWithFallback \<Rightarrow> True
      | ExitCountryNoFallback \<Rightarrow> False)"

definition get_locations_opt :: "user_exit_preferences \<Rightarrow> exit_location list" where
  "get_locations_opt prefs = (case locations_opt prefs of Some locs \<Rightarrow> locs | None \<Rightarrow> [])"

definition get_countries_to_show :: "user_exit_preferences \<Rightarrow> bool \<Rightarrow> string list option" where
  "get_countries_to_show prefs show_countries_flag = (if show_countries_flag then Some (db_countries prefs) else None)"

text \<open>The flag, and the missing countries, which the function sorts in place.\<close>

definition error_message_indicates :: "user_exit_preferences \<Rightarrow> string list \<Rightarrow> bool \<times> string list" where
  "error_message_indicates prefs missing =
     (let desired_countries = (case locations_opt prefs of Some exit_vec \<Rightarrow> concat (map country_codes exit_vec) | None \<Rightarrow> [])
      in if desired_countries = [] \<and> missing = [] then (False, missing)
         else (sort missing = sort desired_countries, sort missing))"

definition EXIT_COUNTRY_MISSING_COUNTRIES_ERROR :: u64 where
  "EXIT_COUNTRY_MISSING_COUNTRIES_ERROR = 0x8000000000000000 OR 8"

definition create_exit_location_response :: "user_exit_preferences \<Rightarrow> u64 \<Rightarrow> u64 \<Rightarrow> string list \<Rightarrow> bool \<Rightarrow> neighborhood_output" where
  "create_exit_location_response prefs client_id context_id missing show_countries_flag =
     (let missing_countries_message = join '', '' missing;
          (indicates, missing) = error_message_indicates prefs missing
      in if indicates
         then UiMessage client_id context_id (UiExitLocationError EXIT_COUNTRY_MISSING_COUNTRIES_ERROR missing_countries_message)
         else UiMessage client_id context_id (UiSetExitLocationResponse
           \<lparr>fallback_routing = is_fallback_routing_active prefs, exit_country_selection = get_locations_opt prefs,
            shown_exit_countries = get_countries_to_show prefs show_countries_flag, missing_countries = missing\<rparr>))"

definition handle_exit_location_message :: "('s, 'x) neighborhood_env \<Rightarrow> neighborhood \<Rightarrow> ui_set_exit_location_request \<Rightarrow> u64 \<Rightarrow> u64 \<Rightarrow>
    (neighborhood \<times> neighborhood_output list) option" where
  "handle_exit_location_message env nb message client_id context_id = do {
     ((exit_locations_by_priority, missing), nb) \<leftarrow> extract_exit_locations_from_message env nb message;
     let prefs = (nbh_preferences nb)\<lparr>fallback_preference :=
           (case (request_fallback_routing message, exit_locations_by_priority = []) of
              (_, True) \<Rightarrow> Nothing
            | (True, False) \<Rightarrow> ExitCountryWithFallback
            | (False, False) \<Rightarrow> ExitCountryNoFallback)\<rparr>;
     let prefs = (if \<not> request_show_countries message then set_exit_locations_opt prefs exit_locations_by_priority else prefs);
     let nb = nb\<lparr>nbh_preferences := prefs\<rparr>;
     nb \<leftarrow> (if 1 < fcard (keys (nbh_database nb))
           then set_country_undesirability_and_exit_countries nb exit_locations_by_priority
           else Some nb);
     outs \<leftarrow> send_bound nb [create_exit_location_response (nbh_preferences nb) client_id context_id missing (request_show_countries message)];
     Some (nb, outs) }"

section \<open>Starting\<close>

definition connect_database :: "neighborhood \<Rightarrow> neighborhood" where
  "connect_database nb = (if \<not> nbh_connected nb then nb\<lparr>nbh_connected := True\<rparr> else nb)"

definition validate_or_replace_min_hops_value :: "('s, 'x) neighborhood_env \<Rightarrow> neighborhood \<Rightarrow> neighborhood option" where
  "validate_or_replace_min_hops_value env nb =
     (if nbh_connected nb then do {
        value_in_db \<leftarrow> config_min_hops env;
        Some (if nbh_min_hops nb \<noteq> value_in_db then nb\<lparr>nbh_min_hops := value_in_db\<rparr> else nb) }
      else Some nb)"

definition send_debut_gossip_to_descriptor :: "('s, 'x) neighborhood_env \<Rightarrow> neighborhood \<Rightarrow> gossip \<Rightarrow> node_descriptor \<Rightarrow>
    neighborhood_output list option" where
  "send_debut_gossip_to_descriptor env nb debut_gossip d = do {
     node_addr \<leftarrow> desc_node_addr_opt d;
     message \<leftarrow> gossip_message env debut_gossip;
     send_no_lookup_package env nb message (encryption_public_key d) node_addr }"

definition send_debut_gossip_to_all_initial_descriptors :: "('s, 'x) neighborhood_env \<Rightarrow> neighborhood \<Rightarrow> neighborhood_output list option" where
  "send_debut_gossip_to_all_initial_descriptors env nb =
     (if status_is_empty (nbh_status nb) then Some []
      else do {
        g \<leftarrow> produce_debut (nbh_database nb);
        outs \<leftarrow> those (map (send_debut_gossip_to_descriptor env nb g) (iter_initial_node_descriptors (nbh_status nb)));
        Some (concat outs) })"

definition handle_start_message :: "('s, 'x) neighborhood_env \<Rightarrow> neighborhood \<Rightarrow> (neighborhood \<times> neighborhood_output list) option" where
  "handle_start_message env nb = do {
     nb \<leftarrow> validate_or_replace_min_hops_value env (connect_database nb);
     outs \<leftarrow> send_debut_gossip_to_all_initial_descriptors env nb;
     Some (nb, outs) }"

section \<open>Changes of the Node\<close>

definition set_location :: "node_location option \<Rightarrow> node_record \<Rightarrow> node_record" where
  "set_location loc nr = nr\<lparr>metadata := (metadata nr)\<lparr>node_location_opt := loc\<rparr>,
     inner := (inner nr)\<lparr>inner_country_code_opt := map_option country_code loc\<rparr>\<rparr>"

definition handle_new_ip_location :: "('s, 'x) neighborhood_env \<Rightarrow> neighborhood \<Rightarrow> ip_addr \<Rightarrow> neighborhood option" where
  "handle_new_ip_location env nb new_ip = do {
     loc \<leftarrow> get_node_location (env_finder (env_acceptor env)) (Some new_ip);
     db \<leftarrow> root_mut (set_location loc) (nbh_database nb);
     Some (nb\<lparr>nbh_database := db\<rparr>) }"

definition handle_new_public_ip :: "('s, 'x) neighborhood_env \<Rightarrow> neighborhood \<Rightarrow> ip_addr \<Rightarrow> neighborhood option" where
  "handle_new_public_ip env nb new_ip = do {
     rt \<leftarrow> root (nbh_database nb);
     _ \<leftarrow> node_addr_opt rt;
     db \<leftarrow> new_public_ip (nbh_database nb) new_ip;
     handle_new_ip_location env (nb\<lparr>nbh_database := db\<rparr>) new_ip }"

definition set_min_hops_and_patch_size :: "neighborhood \<Rightarrow> hops \<Rightarrow> neighborhood" where
  "set_min_hops_and_patch_size nb new_min_hops =
     nb\<lparr>nbh_min_hops := new_min_hops, nbh_db_patch_size := calculate_db_patch_size new_min_hops\<rparr>"

fun handle_config_change_msg :: "('s, 'x) neighborhood_env \<Rightarrow> neighborhood \<Rightarrow> config_change \<Rightarrow> (neighborhood \<times> neighborhood_output list) option" where
  "handle_config_change_msg env nb (UpdateWallets consuming_wallet _) =
     Some (if nbh_consuming_wallet_opt nb \<noteq> Some consuming_wallet then nb\<lparr>nbh_consuming_wallet_opt := Some consuming_wallet\<rparr> else nb, [])"
| "handle_config_change_msg env nb (UpdateMinHops new_min_hops) = do {
     let nb = set_min_hops_and_patch_size nb new_min_hops;
     (nb, outs) \<leftarrow> (if can_make_routes (nbh_status nb) then to_stage nb ConnectedToNeighbor else Some (nb, []));
     nb \<leftarrow> refresh_db_countries env nb;
     nb \<leftarrow> (case locations_opt (nbh_preferences nb) of
        Some exit_locations_by_priority \<Rightarrow>
          (let nb = nb\<lparr>nbh_preferences := snd (synchronize_each exit_locations_by_priority (nbh_preferences nb))\<rparr>
           in set_country_undesirability_and_exit_countries nb exit_locations_by_priority)
      | None \<Rightarrow> Some nb);
     (nb, outs') \<leftarrow> search_for_a_new_route env nb;
     Some (nb, outs @ outs') }"
| "handle_config_change_msg env nb (UpdatePassword new_password) = Some (nb\<lparr>nbh_db_password_opt := Some new_password\<rparr>, [])"

section \<open>Gossip\<close>

definition neighbor_keys :: "neighborhood \<Rightarrow> public_key fset option" where
  "neighbor_keys nb = do {
     rt \<leftarrow> root (nbh_database nb);
     Some (full_neighbor_keys rt (nbh_database nb)) }"

definition handle_agrs :: "('s, 'x) neighborhood_env \<Rightarrow> neighborhood \<Rightarrow> accessible_gossip_record list \<Rightarrow> socket_addr \<Rightarrow>
    (neighborhood \<times> neighborhood_output list) option" where
  "handle_agrs env nb agrs gossip_source = do {
     let meta = \<lparr>connection_progress_peers = get_peer_addrs (nbh_status nb), db_patch_size = nbh_db_patch_size nb,
                 user_exit_preferences_opt = Some (nbh_preferences nb)\<rparr>;
     (acceptance_result, targets, db, cpms) \<leftarrow>
       acceptor_handle (env_acceptor env) (nbh_pass_targets nb) (nbh_database nb) agrs gossip_source meta;
     let nb = nb\<lparr>nbh_pass_targets := targets, nbh_database := db\<rparr>;
     let outs = map ProgressMessage cpms;
     (case acceptance_result of
        Accepted \<Rightarrow> do {
          nb \<leftarrow> refresh_db_countries env nb;
          (nb, outs') \<leftarrow> gossip_to_neighbors env nb;
          Some (nb, outs @ outs') }
      | Reply next_debut target_key target_node_addr \<Rightarrow> do {
          nb \<leftarrow> (if nbh_min_hops nb = OneHop then refresh_db_countries env nb else Some nb);
          outs' \<leftarrow> handle_gossip_reply env nb next_debut target_key target_node_addr;
          Some (nb, outs @ outs') }
      | GossipFailed failure target_key target_node_addr \<Rightarrow> do {
          outs' \<leftarrow> handle_gossip_failed env nb failure target_key target_node_addr;
          Some (nb, outs @ outs') }
      | Ignored \<Rightarrow> Some (nb, outs)
      | Ban _ \<Rightarrow> Some (nb, outs)) }"

definition handle_gossip_agrs :: "('s, 'x) neighborhood_env \<Rightarrow> neighborhood \<Rightarrow> accessible_gossip_record list \<Rightarrow> socket_addr \<Rightarrow>
    (neighborhood \<times> neighborhood_output list) option" where
  "handle_gossip_agrs env nb agrs gossip_source = do {
     neighbor_keys_before \<leftarrow> neighbor_keys nb;
     (nb, outs) \<leftarrow> handle_agrs env nb agrs gossip_source;
     neighbor_keys_after \<leftarrow> neighbor_keys nb;
     (nb, outs') \<leftarrow> handle_database_changes env nb neighbor_keys_before neighbor_keys_after;
     Some (nb, outs @ outs') }"

definition handle_gossip :: "('s, 'x) neighborhood_env \<Rightarrow> neighborhood \<Rightarrow> gossip \<Rightarrow> socket_addr \<Rightarrow> (neighborhood \<times> neighborhood_output list) option" where
  "handle_gossip env nb incoming_gossip gossip_source =
     (let crypt = env_crypt (env_acceptor env);
          agrs = List.map_filter (agr_try_from crypt) incoming_gossip
      in if length agrs < length incoming_gossip then Some (nb, [])
         else if \<exists>agr \<in> set agrs. \<not> verify_signature crypt (agr_signed_gossip agr) (agr_signature agr) (inner_public_key (agr_inner agr))
           then Some (nb, [])
         else handle_gossip_agrs env nb agrs gossip_source)"

definition handle_gossip_failure :: "neighborhood \<Rightarrow> socket_addr \<Rightarrow> (neighborhood \<times> neighborhood_output list) option" where
  "handle_gossip_failure nb failure_source =
     (case find_position (\<lambda>n. case desc_node_addr_opt n of None \<Rightarrow> False | Some addr \<Rightarrow> addr_ip addr = fst failure_source)
         (iter_initial_node_descriptors (nbh_status nb)) of
        None \<Rightarrow> None
      | Some position \<Rightarrow> do {
          (_, status) \<leftarrow> status_remove (nbh_status nb) position;
          Some (nb\<lparr>nbh_status := status\<rparr>, if status_is_empty status then [StopWithCode 1] else []) })"

section \<open>Connection progress\<close>

definition send_ask_about_debut_gossip_message :: "neighborhood \<Rightarrow> ip_addr \<Rightarrow> neighborhood_output list option" where
  "send_ask_about_debut_gossip_message nb peer_addr =
     (case get_connection_progress_by_ip (nbh_status nb) peer_addr of
        Inr i \<Rightarrow> Some [AskAboutDebutLater (ocs_progress (nbh_status nb) ! i)]
      | Inl _ \<Rightarrow> None)"

definition handle_connection_progress :: "neighborhood \<Rightarrow> connection_progress_message \<Rightarrow> (neighborhood \<times> neighborhood_output list) option" where
  "handle_connection_progress nb msg =
     (case get_connection_progress_to_modify (nbh_status nb) msg of
        Inr i \<Rightarrow> do {
          status \<leftarrow> modify_progress (nbh_status nb) i (cpm_event msg);
          let nb = nb\<lparr>nbh_status := status\<rparr>;
          (case cpm_event msg of
             TcpConnectionSuccessful \<Rightarrow> do {
               outs \<leftarrow> send_ask_about_debut_gossip_message nb (cpm_peer_addr msg);
               Some (nb, outs) }
           | IntroductionGossipReceived _ \<Rightarrow> to_stage nb ConnectedToNeighbor
           | StandardGossipReceived \<Rightarrow> to_stage nb ConnectedToNeighbor
           | _ \<Rightarrow> Some (nb, [])) }
      | Inl _ \<Rightarrow> Some (nb, []))"

definition handle_ask_about_debut_gossip :: "neighborhood \<Rightarrow> connection_progress \<Rightarrow> neighborhood option" where
  "handle_ask_about_debut_gossip nb prev_connection_progress =
     (case get_connection_progress_by_desc (nbh_status nb) (initial_node_descriptor prev_connection_progress) of
        Inr i \<Rightarrow>
          if prev_connection_progress = ocs_progress (nbh_status nb) ! i then do {
            status \<leftarrow> modify_progress (nbh_status nb) i NoGossipResponseReceived;
            Some (nb\<lparr>nbh_status := status\<rparr>) }
          else Some nb
      | Inl _ \<Rightarrow> Some nb)"

section \<open>Neighbors that go away\<close>

definition handle_remove_neighbor :: "('s, 'x) neighborhood_env \<Rightarrow> neighborhood \<Rightarrow> public_key \<Rightarrow> (neighborhood \<times> neighborhood_output list) option" where
  "handle_remove_neighbor env nb key = do {
     (r, db) \<leftarrow> remove_neighbor (nbh_database nb) key;
     let nb = nb\<lparr>nbh_database := db\<rparr>;
     (case r of
        Inl _ \<Rightarrow> Some (nb, [])
      | Inr db_changed \<Rightarrow> if db_changed then gossip_to_neighbors env nb else Some (nb, [])) }"

definition stop_neighborship :: "('s, 'x) neighborhood_env \<Rightarrow> neighborhood \<Rightarrow> public_key \<Rightarrow> (neighborhood \<times> neighborhood_output list) option" where
  "stop_neighborship env nb neighbor_key = do {
     (r, db) \<leftarrow> remove_neighbor (nbh_database nb) neighbor_key;
     let nb = nb\<lparr>nbh_database := db\<rparr>;
     (case r of
        Inl _ \<Rightarrow> None
      | Inr True \<Rightarrow> gossip_to_neighbors env nb
      | Inr False \<Rightarrow> Some (nb, [])) }"

datatype removed_stream_type = Clandestine | NonClandestine u16 u64

definition handle_stream_shutdown_msg :: "('s, 'x) neighborhood_env \<Rightarrow> neighborhood \<Rightarrow> socket_addr \<Rightarrow> removed_stream_type \<Rightarrow>
    (neighborhood \<times> neighborhood_output list) option" where
  "handle_stream_shutdown_msg env nb peer_addr stream_type =
     (if stream_type \<noteq> Clandestine then None
      else (case node_by_ip (nbh_database nb) (fst peer_addr) of
              None \<Rightarrow> Some (nb, [])
            | Some n \<Rightarrow> stop_neighborship env nb (public_key n)))"

section \<open>The actor\<close>

definition handle_node_query :: "neighborhood \<Rightarrow> node_query \<Rightarrow> node_query_response_metadata option" where
  "handle_node_query nb query =
     map_option (\<lambda>nr. \<lparr>response_public_key = public_key nr, response_node_addr_opt = node_addr_opt nr,
                       response_rate_pack = inner_rate_pack (inner nr)\<rparr>)
       (case query of
          QueryIpAddress ip \<Rightarrow> node_by_ip (nbh_database nb) ip
        | QueryPublicKey key \<Rightarrow> node_by_key (nbh_database nb) key)"

definition add_unreachable_host :: "neighborhood \<Rightarrow> public_key \<Rightarrow> string \<Rightarrow> neighborhood option" where
  "add_unreachable_host nb key hostname = do {
     db \<leftarrow> node_by_key_mut (\<lambda>nr. nr\<lparr>metadata := (metadata nr)\<lparr>unreachable_hosts := finsert hostname (unreachable_hosts (metadata nr))\<rparr>\<rparr>)
       (nbh_database nb) key;
     Some (nb\<lparr>nbh_database := db\<rparr>) }"

fun handle_ui_message :: "('s, 'x) neighborhood_env \<Rightarrow> neighborhood \<Rightarrow> u64 \<Rightarrow> ui_request \<Rightarrow> (neighborhood \<times> neighborhood_output list) option" where
  "handle_ui_message env nb client_id (UiSetExitLocation message context_id) = handle_exit_location_message env nb message client_id context_id"
| "handle_ui_message env nb client_id (UiConnectionStatus context_id) = do {
     outs \<leftarrow> send_bound nb [UiMessage client_id context_id (UiConnectionStatusResponse (ui_stage_from (ocs_stage (nbh_status nb))))];
     Some (nb, outs) }"
| "handle_ui_message env nb client_id UiShutdown = Some (nb, [ExitProcess 0])"
| "handle_ui_message env nb client_id (UiCrash actor) = (if nbh_crashable nb \<and> actor = CRASH_KEY then None else Some (nb, []))"
| "handle_ui_message env nb client_id UiUnknown = Some (nb, [])"

datatype neighborhood_message =
    BindMsg
  | StartMsg
  | NewPublicIpMsg ip_addr
  | ConfigChangeMsg config_change
  | NodeQueryMsg node_query
  | RouteQueryMsg route_query_message
  | GossipMsg gossip socket_addr
  | GossipFailureMsg socket_addr
  | RemoveNeighborMsg public_key
  | ConnectionProgressMsg connection_progress_message
  | AskAboutDebutGossipMsg connection_progress
  | AddUnreachableHostMsg public_key string
  | StreamShutdownMsg socket_addr removed_stream_type
  | UiMsg u64 ui_request

abbreviation silently :: "neighborhood option \<Rightarrow> (neighborhood \<times> neighborhood_output list) option" where
  "silently r \<equiv> map_option (\<lambda>nb. (nb, [])) r"

fun neighborhood_handle :: "('s, 'x) neighborhood_env \<Rightarrow> neighborhood \<Rightarrow> neighborhood_message \<Rightarrow> (neighborhood \<times> neighborhood_output list) option" where
  "neighborhood_handle env nb BindMsg = Some (handle_bind_message nb, [])"
| "neighborhood_handle env nb StartMsg = handle_start_message env nb"
| "neighborhood_handle env nb (NewPublicIpMsg ip) = silently (handle_new_public_ip env nb ip)"
| "neighborhood_handle env nb (ConfigChangeMsg change) = handle_config_change_msg env nb change"
| "neighborhood_handle env nb (NodeQueryMsg query) = Some (nb, [NodeQueryAnswer (handle_node_query nb query)])"
| "neighborhood_handle env nb (RouteQueryMsg msg) = do {
     (response, nb) \<leftarrow> handle_route_query_message env nb msg;
     Some (nb, [RouteQueryAnswer response]) }"
| "neighborhood_handle env nb (GossipMsg g src) = handle_gossip env nb g src"
| "neighborhood_handle env nb (GossipFailureMsg src) = handle_gossip_failure nb src"
| "neighborhood_handle env nb (RemoveNeighborMsg key) = handle_remove_neighbor env nb key"
| "neighborhood_handle env nb (ConnectionProgressMsg msg) = handle_connection_progress nb msg"
| "neighborhood_handle env nb (AskAboutDebutGossipMsg progress) = silently (handle_ask_about_debut_gossip nb progress)"
| "neighborhood_handle env nb (AddUnreachableHostMsg key hostname) = silently (add_unreachable_host nb key hostname)"
| "neighborhood_handle env nb (StreamShutdownMsg peer stream_type) = handle_stream_shutdown_msg env nb peer stream_type"
| "neighborhood_handle env nb (UiMsg client_id request) = handle_ui_message env nb client_id request"

end
