(* ===== verification/Routing_Correct.thy ===== *)
theory Routing_Correct
  imports Routing
begin

text \<open>
  Correctness of the routing engine.  The reference is the set of all routes that the
  rules of the search admit, without pruning and without an order; the engine finds one
  of least undesirability, and none exactly when there is none.
\<close>

section \<open>The routes the rules admit\<close>

definition search_done :: "route_search \<Rightarrow> public_key list \<Rightarrow> nat \<Rightarrow> bool" where
  "search_done rs p h \<longleftrightarrow> (\<exists>prev. node_by_key (rs_db rs) (last p) = Some prev \<and>
     route_qualifies rs p h prev \<and> validate_last_node_country_code rs (public_key prev))"

definition search_open :: "route_search \<Rightarrow> public_key list \<Rightarrow> nat \<Rightarrow> bool" where
  "search_open rs p h \<longleftrightarrow> (\<exists>prev. node_by_key (rs_db rs) (last p) = Some prev \<and>
     (if route_qualifies rs p h prev then \<not> validate_last_node_country_code rs (public_key prev)
      else \<not> route_exhausted rs h))"

inductive candidate :: "route_search \<Rightarrow> public_key list \<Rightarrow> int \<Rightarrow> nat \<Rightarrow> public_key list \<Rightarrow> int \<Rightarrow> bool" for rs where
  here: "search_done rs p h \<Longrightarrow> candidate rs p u h p u"
| hop: "search_open rs p h \<Longrightarrow> node_by_key (rs_db rs) (last p) = Some prev \<Longrightarrow>
    k |\<in>| full_neighbor_keys prev (rs_db rs) \<Longrightarrow> node_by_key (rs_db rs) k = Some nr \<Longrightarrow> next_hop_ok rs p nr \<Longrightarrow>
    compute_new_undesirability rs nr u (h - 1) = Some u' \<Longrightarrow> candidate rs (p @ [public_key nr]) u' (h - 1) q v \<Longrightarrow>
    candidate rs p u h q v"

inductive_cases candidateE: "candidate rs p u h q v"

section \<open>Bounds along a route\<close>

text \<open>
  The setting of a search: a consistent database, an order that lists each set of keys,
  and charges so small that no sum along a route leaves the range of \<open>i64\<close>.
\<close>

definition search_ok :: "route_search \<Rightarrow> nat \<Rightarrow> bool" where
  "search_ok rs B \<longleftrightarrow> db_ok (rs_db rs) \<and>
     (\<forall>p S. fset_of_list (rs_order rs p S) = S \<and> distinct (rs_order rs p S)) \<and>
     (\<forall>k nr. node_by_key (rs_db rs) k = Some nr \<longrightarrow> full_charge nr (rs_payload_size rs) \<le> B) \<and>
     rs_payload_size rs < 2 ^ 63 \<and> B * (fcard (keys (rs_db rs)) + 1) < 2 ^ 63"

definition prefix_ok :: "route_search \<Rightarrow> nat \<Rightarrow> public_key list \<Rightarrow> int \<Rightarrow> bool" where
  "prefix_ok rs B p u \<longleftrightarrow> p \<noteq> [] \<and> distinct p \<and> set p \<subseteq> fset (keys (rs_db rs)) \<and> 0 \<le> u \<and> u \<le> int (B * length p)"

lemma prefix_length: "prefix_ok rs B p u \<Longrightarrow> length p \<le> fcard (keys (rs_db rs))"
  unfolding prefix_ok_def fcard.rep_eq by (metis card_mono distinct_card finite_fset)

lemma prefix_last: "search_ok rs B \<Longrightarrow> prefix_ok rs B p u \<Longrightarrow> \<exists>prev. node_by_key (rs_db rs) (last p) = Some prev \<and> public_key prev = last p"
  unfolding prefix_ok_def search_ok_def by (metis db_ok_key keys_iff last_in_set subsetD)

lemma bound_i64: "search_ok rs B \<Longrightarrow> prefix_ok rs B p u \<Longrightarrow> u \<le> I64_MAX"
proof -
  assume a: "search_ok rs B" "prefix_ok rs B p u"
  have "B * length p \<le> B * (fcard (keys (rs_db rs)) + 1)" using prefix_length [OF a(2)] by (intro mult_le_mono) auto
  with a(1) have "B * length p < 2 ^ 63" unfolding search_ok_def by linarith
  then have "int (B * length p) < int (2 ^ 63)" by (simp only: of_nat_less_iff)
  with a(2) show ?thesis by (simp add: prefix_ok_def I64_MAX_def)
qed

lemma hop_cost:
  assumes ok: "search_ok rs B" and p: "prefix_ok rs B p u" and nr: "node_by_key (rs_db rs) k = Some nr"
    and hop: "next_hop_ok rs p nr"
  shows "\<exists>u'. compute_new_undesirability rs nr u h = Some u' \<and> u \<le> u' \<and> prefix_ok rs B (p @ [public_key nr]) u'"
proof -
  define c where "c = undesirability_value nr (rs_payload_size rs) (undesirability_type_for rs h)"
  have key: "public_key nr = k" using ok nr db_ok_key by (auto simp: search_ok_def)
  have "full_charge nr (rs_payload_size rs) \<le> B" using ok nr by (auto simp: search_ok_def)
  moreover have "B < 2 ^ 63"
  proof -
    have "B * 1 \<le> B * (fcard (keys (rs_db rs)) + 1)" by (intro mult_le_mono) auto
    then show ?thesis using ok unfolding search_ok_def by linarith
  qed
  ultimately have cost: "compute_undesirability nr (of_nat (rs_payload_size rs)) (undesirability_type_for rs h) = Some (int c)"
    and c: "c \<le> B"
    using ok compute_undesirability_value [of nr "rs_payload_size rs"] undesirability_value_bound [of nr "rs_payload_size rs"]
    unfolding c_def search_ok_def by (auto intro: order_trans)
  have p': "distinct (p @ [k])" "set (p @ [k]) \<subseteq> fset (keys (rs_db rs))"
    using p hop nr keys_iff [of k "rs_db rs"] key by (auto simp: prefix_ok_def next_hop_ok_def)
  have "u + int c \<le> int (B * length p) + int B" using p c by (simp add: prefix_ok_def)
  also have "\<dots> = int (B * length (p @ [k]))" by simp
  finally have new: "prefix_ok rs B (p @ [k]) (u + int c)" using p p' by (simp add: prefix_ok_def)
  have "i64_ok (u + int c)" using bound_i64 [OF ok new] new by (simp add: i64_ok_def I64_MAX_def prefix_ok_def)
  then show ?thesis using cost new key by (auto simp: compute_new_undesirability_def i64_add_def)
qed

lemma candidate_bounds:
  assumes "candidate rs p u h q v" "search_ok rs B" "prefix_ok rs B p u"
  shows "u \<le> v \<and> prefix_ok rs B q v"
  using assms
proof (induction rule: candidate.induct)
  case (hop p h prev k nr u u' q v)
  then show ?case using hop_cost [OF hop.prems(1,2) hop.hyps(4,5), of "h - 1"] by auto
qed simp

section \<open>What a search returns\<close>

definition search_result :: "(public_key list \<Rightarrow> int \<Rightarrow> bool) \<Rightarrow> int \<Rightarrow> computed_route_segment list \<Rightarrow> int \<Rightarrow> bool" where
  "search_result C m segs m' \<longleftrightarrow>
     (\<forall>seg \<in> set segs. C (seg_nodes seg) (seg_undesirability seg) \<and> m' \<le> seg_undesirability seg) \<and>
     m' \<le> m \<and> (m' = m \<or> m' \<in> seg_undesirability ` set segs) \<and>
     (\<forall>q v. C q v \<longrightarrow> m' \<le> v \<and> (v \<le> m' \<longrightarrow> \<lparr>seg_nodes = q, seg_undesirability = v\<rparr> \<in> set segs))"

lemma search_result_empty: "(\<And>q v. C q v \<Longrightarrow> m < v) \<Longrightarrow> search_result C m [] m"
  by (force simp: search_result_def)

lemma search_result_append:
  assumes 1: "search_result C m s1 m1" and 2: "search_result D m1 s2 m2" and E: "\<And>q v. E q v \<longleftrightarrow> C q v \<or> D q v"
  shows "search_result E m (s1 @ s2) m2"
proof -
  have le: "m2 \<le> m1" "m1 \<le> m" using 1 2 by (simp_all add: search_result_def)
  have "E (seg_nodes seg) (seg_undesirability seg) \<and> m2 \<le> seg_undesirability seg" if "seg \<in> set (s1 @ s2)" for seg
    using that 1 2 le E unfolding search_result_def by (auto intro: order_trans)
  moreover have "m2 = m \<or> m2 \<in> seg_undesirability ` set (s1 @ s2)"
    using 1 2 unfolding search_result_def by auto
  moreover have "m2 \<le> v \<and> (v \<le> m2 \<longrightarrow> \<lparr>seg_nodes = q, seg_undesirability = v\<rparr> \<in> set (s1 @ s2))" if "E q v" for q v
  proof (cases "C q v")
    case True
    then have "m1 \<le> v" "v \<le> m1 \<longrightarrow> \<lparr>seg_nodes = q, seg_undesirability = v\<rparr> \<in> set s1"
      using 1 unfolding search_result_def by blast+
    with le(1) show ?thesis by (metis UnI1 order_trans set_append)
  next
    case False
    with that E have "D q v" by blast
    then show ?thesis using 2 unfolding search_result_def by auto
  qed
  ultimately show ?thesis using le unfolding search_result_def by (meson order_trans)
qed

text \<open>The candidates through the listed neighbors.\<close>

definition hop_candidate :: "route_search \<Rightarrow> public_key list \<Rightarrow> int \<Rightarrow> nat \<Rightarrow> node_record list \<Rightarrow> public_key list \<Rightarrow> int \<Rightarrow> bool" where
  "hop_candidate rs p u h nrs q v \<longleftrightarrow> (\<exists>nr \<in> set nrs. next_hop_ok rs p nr \<and>
     (\<exists>u'. compute_new_undesirability rs nr u (h - 1) = Some u' \<and> candidate rs (p @ [public_key nr]) u' (h - 1) q v))"

lemma full_neighbors_list:
  assumes "search_ok rs B"
  obtains nrs where "full_neighbors (rs_order rs p) prev (rs_db rs) = Some nrs"
    "set nrs = {nr. \<exists>k. k |\<in>| full_neighbor_keys prev (rs_db rs) \<and> node_by_key (rs_db rs) k = Some nr}"
proof -
  define ks where "ks = rs_order rs p (full_neighbor_keys prev (rs_db rs))"
  have set: "k \<in> set ks \<longleftrightarrow> k |\<in>| full_neighbor_keys prev (rs_db rs)" for k
    using assms unfolding search_ok_def ks_def by (metis fset_of_list_elem)
  have present: "\<exists>nr. node_by_key (rs_db rs) k = Some nr" if "k \<in> set ks" for k
    using that set by (auto simp: full_neighbor_keys_def split: option.splits)
  then have "\<exists>nrs. those (map (node_by_key (rs_db rs)) ks) = Some nrs \<and> set nrs = {nr. \<exists>k \<in> set ks. node_by_key (rs_db rs) k = Some nr}"
  proof (induction ks)
    case (Cons k ks)
    from Cons.prems [of k] obtain nr where "node_by_key (rs_db rs) k = Some nr" by auto
    moreover from Cons obtain nrs where "those (map (node_by_key (rs_db rs)) ks) = Some nrs"
      "set nrs = {nr. \<exists>k \<in> set ks. node_by_key (rs_db rs) k = Some nr}" by auto
    ultimately show ?case by auto
  qed simp
  then obtain nrs where "those (map (node_by_key (rs_db rs)) ks) = Some nrs"
    "set nrs = {nr. \<exists>k \<in> set ks. node_by_key (rs_db rs) k = Some nr}" by blast
  with set show thesis by (intro that [of nrs]) (auto simp: full_neighbors_def ks_def)
qed

lemma candidate_open_iff:
  assumes "search_open rs p h" "node_by_key (rs_db rs) (last p) = Some prev" "\<not> search_done rs p h"
    and "set nrs = {nr. \<exists>k. k |\<in>| full_neighbor_keys prev (rs_db rs) \<and> node_by_key (rs_db rs) k = Some nr}"
  shows "candidate rs p u h q v \<longleftrightarrow> hop_candidate rs p u h nrs q v"
proof
  assume "candidate rs p u h q v"
  then show "hop_candidate rs p u h nrs q v"
    using assms by (cases rule: candidate.cases) (auto simp: hop_candidate_def)
next
  assume "hop_candidate rs p u h nrs q v"
  then show "candidate rs p u h q v"
    unfolding hop_candidate_def using assms(1,2,4) candidate.hop by blast
qed

section \<open>The engine finds the best candidates\<close>

definition engine_ok :: "(search_state \<Rightarrow> (computed_route_segment list \<times> search_state) option) \<Rightarrow>
    (public_key list \<Rightarrow> int \<Rightarrow> bool) \<Rightarrow> search_state \<Rightarrow> bool" where
  "engine_ok f C st \<longleftrightarrow> (\<exists>segs m'. f st = Some (segs, m', snd st) \<and> search_result C (fst st) segs m')"

lemma engine_okI: "f st = Some (segs, m', snd st) \<Longrightarrow> search_result C (fst st) segs m' \<Longrightarrow> engine_ok f C st"
  by (auto simp: engine_ok_def)

lemma engine_ok_pruned:
  assumes "search_ok rs B" "prefix_ok rs B p u" "\<not> rs_research rs" "m < u"
  shows "engine_ok (routing_engine rs p u h) (candidate rs p u h) (m, e)"
proof (rule engine_okI)
  show "routing_engine rs p u h (m, e) = Some ([], m, snd (m, e))" using assms by simp
  show "search_result (candidate rs p u h) (fst (m, e)) [] m"
    using assms candidate_bounds [OF _ assms(1,2)] by (auto intro!: search_result_empty order_less_le_trans [of m u])
qed

lemma engine_ok_found:
  assumes "search_ok rs B" "prefix_ok rs B p u" "\<not> rs_research rs" "u \<le> m" "search_done rs p h"
  shows "engine_ok (routing_engine rs p u h) (candidate rs p u h) (m, e)"
proof (rule engine_okI)
  show "routing_engine rs p u h (m, e) = Some ([\<lparr>seg_nodes = p, seg_undesirability = u\<rparr>], u, snd (m, e))"
    using assms by (auto simp: search_done_def prefix_ok_def)
  have "\<not> search_open rs p h" using assms(5) by (auto simp: search_done_def search_open_def)
  then have "candidate rs p u h q v \<longleftrightarrow> q = p \<and> v = u" for q v
    using assms(5) by (auto elim: candidateE intro: candidate.here)
  with assms(4) show "search_result (candidate rs p u h) (fst (m, e)) [\<lparr>seg_nodes = p, seg_undesirability = u\<rparr>] u"
    by (auto simp: search_result_def)
qed

lemma engine_ok_dead:
  assumes "search_ok rs B" "prefix_ok rs B p u" "\<not> rs_research rs" "u \<le> m" "\<not> search_done rs p h" "\<not> search_open rs p h"
  shows "engine_ok (routing_engine rs p u h) (candidate rs p u h) (m, e)"
proof (rule engine_okI)
  obtain prev where "node_by_key (rs_db rs) (last p) = Some prev" using prefix_last [OF assms(1,2)] by blast
  then show "routing_engine rs p u h (m, e) = Some ([], m, snd (m, e))"
    using assms by (auto simp: search_done_def search_open_def prefix_ok_def split: if_splits)
  show "search_result (candidate rs p u h) (fst (m, e)) [] m"
    using assms(5,6) by (auto intro!: search_result_empty elim: candidateE)
qed

lemma routing_engine_open:
  assumes "prefix_ok rs B p u" "\<not> rs_research rs" "u \<le> m" "search_open rs p h" "node_by_key (rs_db rs) (last p) = Some prev"
  shows "routing_engine rs p u h (m, e) = routing_guts rs p u h prev (m, e)"
  using assms by (auto simp: search_open_def prefix_ok_def split: if_splits)

lemma search_open_not_done: "search_open rs p h \<Longrightarrow> \<not> search_done rs p h"
  by (auto simp: search_done_def search_open_def split: if_splits)

lemma engine_ok_skip:
  assumes "\<not> next_hop_ok rs p nr" "engine_ok (routing_flat_map rs p u h nrs) (hop_candidate rs p u h nrs) st"
  shows "engine_ok (routing_flat_map rs p u h (nr # nrs)) (hop_candidate rs p u h (nr # nrs)) st"
proof -
  have "hop_candidate rs p u h (nr # nrs) = hop_candidate rs p u h nrs"
    using assms(1) by (auto simp: hop_candidate_def fun_eq_iff)
  with assms show ?thesis by (simp add: engine_ok_def)
qed

lemma engine_ok_hop:
  assumes hop: "next_hop_ok rs p nr" "compute_new_undesirability rs nr u (h - 1) = Some u'"
    and 1: "engine_ok (routing_engine rs (p @ [public_key nr]) u' (h - 1)) (candidate rs (p @ [public_key nr]) u' (h - 1)) st"
    and 2: "\<And>s1 st'. routing_engine rs (p @ [public_key nr]) u' (h - 1) st = Some (s1, st') \<Longrightarrow>
      engine_ok (routing_flat_map rs p u h nrs) (hop_candidate rs p u h nrs) st'"
  shows "engine_ok (routing_flat_map rs p u h (nr # nrs)) (hop_candidate rs p u h (nr # nrs)) st"
proof -
  from 1 obtain s1 m1 where 1: "routing_engine rs (p @ [public_key nr]) u' (h - 1) st = Some (s1, m1, snd st)"
    "search_result (candidate rs (p @ [public_key nr]) u' (h - 1)) (fst st) s1 m1" by (auto simp: engine_ok_def)
  from 2 [OF 1(1)] obtain s2 m2 where 2: "routing_flat_map rs p u h nrs (m1, snd st) = Some (s2, m2, snd st)"
    "search_result (hop_candidate rs p u h nrs) m1 s2 m2" by (auto simp: engine_ok_def)
  show ?thesis
  proof (rule engine_okI)
    show "routing_flat_map rs p u h (nr # nrs) st = Some (s1 @ s2, m2, snd st)"
      using hop 1(1) 2(1) by (simp add: Let_def)
    show "search_result (hop_candidate rs p u h (nr # nrs)) (fst st) (s1 @ s2) m2"
      by (rule search_result_append [OF 1(2) 2(2)]) (use hop in \<open>auto simp: hop_candidate_def\<close>)
  qed
qed

lemma engine_finds:
  shows "search_ok rs B \<Longrightarrow> \<not> rs_research rs \<Longrightarrow> prefix_ok rs B p u \<Longrightarrow>
      engine_ok (routing_engine rs p u h) (candidate rs p u h) st"
    and "search_ok rs B \<Longrightarrow> \<not> rs_research rs \<Longrightarrow> prefix_ok rs B p u \<Longrightarrow> full_neighbors (rs_order rs p) prev (rs_db rs) = Some nrs' \<Longrightarrow>
      \<forall>nr \<in> set nrs'. \<exists>k. node_by_key (rs_db rs) k = Some nr \<Longrightarrow>
      engine_ok (routing_guts rs p u h prev) (hop_candidate rs p u h nrs') st"
    and "search_ok rs B \<Longrightarrow> \<not> rs_research rs \<Longrightarrow> prefix_ok rs B p u \<Longrightarrow>
      \<forall>nr \<in> set nrs. \<exists>k. node_by_key (rs_db rs) k = Some nr \<Longrightarrow>
      engine_ok (routing_flat_map rs p u h nrs) (hop_candidate rs p u h nrs) st"
proof (induction rs p u h st and rs p u h prev st and rs p u h nrs st
    arbitrary: and nrs' rule: routing_engine_routing_guts_routing_flat_map.induct)
  case (1 rs p u h m e)
  consider "m < u" | "u \<le> m" "search_done rs p h" | "u \<le> m" "\<not> search_done rs p h" "\<not> search_open rs p h"
    | "u \<le> m" "search_open rs p h" by linarith
  then show ?case
  proof cases
    case 4
    obtain prev where prev: "node_by_key (rs_db rs) (last p) = Some prev" using prefix_last [OF 1(3,5)] by blast
    obtain nrs where nrs: "full_neighbors (rs_order rs p) prev (rs_db rs) = Some nrs"
      "set nrs = {nr. \<exists>k. k |\<in>| full_neighbor_keys prev (rs_db rs) \<and> node_by_key (rs_db rs) k = Some nr}"
      by (rule full_neighbors_list [OF 1(3)])
    have mem: "\<forall>nr \<in> set nrs. \<exists>k. node_by_key (rs_db rs) k = Some nr" using nrs(2) by auto
    have ne: "p \<noteq> []" using 1(5) by (simp add: prefix_ok_def)
    have "engine_ok (routing_guts rs p u h prev) (hop_candidate rs p u h nrs) (m, e)"
    proof (cases "route_qualifies rs p h prev")
      case True
      then have "\<not> validate_last_node_country_code rs (public_key prev)"
        using 4(2) prev by (simp add: search_open_def)
      then have "engine_ok (routing_guts rs p u h prev) (hop_candidate rs p u h nrs)
          (m, if rs_research rs then e @ [last p] else e)"
        by (intro 1(1) [OF _ ne prev True]) (use 1(3-5) nrs(1) mem 4(1) in auto)
      then show ?thesis using 1(4) by simp
    next
      case False
      then have "\<not> route_exhausted rs h" using 4(2) prev by (simp add: search_open_def)
      then show ?thesis by (intro 1(2) [OF _ ne prev False]) (use 1(3-5) nrs(1) mem 4(1) in auto)
    qed
    moreover have "candidate rs p u h = hop_candidate rs p u h nrs"
      using candidate_open_iff [OF 4(2) prev search_open_not_done [OF 4(2)] nrs(2)] by (auto simp: fun_eq_iff)
    ultimately show ?thesis
      using routing_engine_open [OF 1(5,4) 4(1,2) prev] by (simp add: engine_ok_def del: routing_engine.simps)
  qed (use 1 in \<open>auto intro: engine_ok_pruned engine_ok_found engine_ok_dead\<close>)
next
  case (2 rs p u h prev st)
  then show ?case by (simp add: engine_ok_def)
next
  case (3 rs p u h st)
  then show ?case
    by (intro engine_okI [of _ _ "[]" "fst st"]) (auto intro!: search_result_empty simp: hop_candidate_def)
next
  case (4 rs p u h nr nrs st)
  show ?case
  proof (cases "next_hop_ok rs p nr")
    case False
    then show ?thesis using 4 by (intro engine_ok_skip) auto
  next
    case True
    from 4(7) obtain k where k: "node_by_key (rs_db rs) k = Some nr" by auto
    obtain u' where u': "compute_new_undesirability rs nr u (h - 1) = Some u'" "prefix_ok rs B (p @ [public_key nr]) u'"
      using hop_cost [OF 4(4,6) k True] by blast
    show ?thesis
    proof (rule engine_ok_hop [OF True u'(1)])
      show "engine_ok (routing_engine rs (p @ [public_key nr]) u' (h - 1)) (candidate rs (p @ [public_key nr]) u' (h - 1)) st"
        using True u' 4 by (auto simp del: routing_engine.simps)
      fix s1 st' assume "routing_engine rs (p @ [public_key nr]) u' (h - 1) st = Some (s1, st')"
      then show "engine_ok (routing_flat_map rs p u h nrs) (hop_candidate rs p u h nrs) st'"
        using True u' 4 by (auto simp del: routing_engine.simps)
    qed
  qed
qed

section \<open>Routes are walks in the neighborhood\<close>

inductive walk :: "route_search \<Rightarrow> public_key list \<Rightarrow> nat \<Rightarrow> public_key list \<Rightarrow> nat \<Rightarrow> bool" for rs where
  stop: "walk rs p h p h"
| hop: "node_by_key (rs_db rs) (last p) = Some prev \<Longrightarrow> k |\<in>| full_neighbor_keys prev (rs_db rs) \<Longrightarrow>
    node_by_key (rs_db rs) k = Some nr \<Longrightarrow> next_hop_ok rs p nr \<Longrightarrow> walk rs (p @ [public_key nr]) (h - 1) q h' \<Longrightarrow>
    walk rs p h q h'"

lemma candidate_walk: "candidate rs p u h q v \<Longrightarrow> \<exists>h'. walk rs p h q h' \<and> search_done rs q h'"
  by (induction rule: candidate.induct) (blast intro: walk.intros)+

definition linked :: "neighborhood_database \<Rightarrow> public_key list \<Rightarrow> bool" where
  "linked db ks \<longleftrightarrow> successively (has_full_neighbor db) ks"

lemma full_neighbor_linked:
  assumes "db_ok db" "node_by_key db a = Some prev" "k |\<in>| full_neighbor_keys prev db"
  shows "has_full_neighbor db a k"
  using assms db_ok_key [OF assms(1,2)]
  by (auto simp: full_neighbor_keys_def has_full_neighbor_def has_half_neighbor_def half_neighbor_keys_def
      record_has_half_neighbor_def split: option.splits)

lemma walk_spec:
  assumes "walk rs p h q h'" "db_ok (rs_db rs)" "p \<noteq> []" "distinct p" "linked (rs_db rs) p"
  shows "\<exists>s. q = p @ s \<and> distinct q \<and> linked (rs_db rs) q \<and> h \<le> length s + h' \<and> (h' > 0 \<longrightarrow> h = length s + h') \<and>
     (\<forall>k \<in> set s. \<exists>nr. node_by_key (rs_db rs) k = Some nr \<and>
        (routes_data nr \<or> is_orig_node_on_back_leg nr (rs_target_opt rs) (rs_direction rs)))"
  using assms
proof (induction rule: walk.induct)
  case (hop p prev k nr h q h')
  have key: "public_key nr = k" using hop.hyps(3) hop.prems(1) by (simp add: db_ok_key)
  have "has_full_neighbor (rs_db rs) (last p) k" by (rule full_neighbor_linked [OF hop.prems(1) hop.hyps(1,2)])
  then have "linked (rs_db rs) (p @ [public_key nr])"
    using hop.prems(2,4) key by (simp add: linked_def successively_append_iff)
  moreover have "distinct (p @ [public_key nr])" using hop.prems(3) hop.hyps(4) by (simp add: next_hop_ok_def)
  ultimately obtain s where "q = (p @ [public_key nr]) @ s" "distinct q" "linked (rs_db rs) q" "h - 1 \<le> length s + h'"
    "h' > 0 \<longrightarrow> h - 1 = length s + h'"
    "\<forall>k \<in> set s. \<exists>nr. node_by_key (rs_db rs) k = Some nr \<and>
        (routes_data nr \<or> is_orig_node_on_back_leg nr (rs_target_opt rs) (rs_direction rs))"
    using hop.IH hop.prems(1) by auto
  with hop.hyps(3,4) key show ?case by (intro exI [of _ "public_key nr # s"]) (auto simp: next_hop_ok_def)
qed simp

lemma initial_ok:
  assumes ok: "search_ok rs B" and nr: "node_by_key (rs_db rs) source = Some nr"
  shows "\<exists>u0. compute_initial_undesirability rs source = Some u0 \<and> prefix_ok rs B [source] u0"
proof -
  define c where "c = undesirability_value nr (rs_payload_size rs) ExitAndRouteResponse"
  have B: "full_charge nr (rs_payload_size rs) \<le> B" using ok nr by (auto simp: search_ok_def)
  have "B * 1 \<le> B * (fcard (keys (rs_db rs)) + 1)" by (intro mult_le_mono) auto
  with ok have "B < 2 ^ 63" unfolding search_ok_def by linarith
  with B ok have "compute_undesirability nr (of_nat (rs_payload_size rs)) ExitAndRouteResponse = Some (int c)"
    unfolding c_def by (intro compute_undesirability_value) (auto simp: search_ok_def)
  moreover have "c \<le> B" using B undesirability_value_bound [of nr "rs_payload_size rs"] unfolding c_def by (rule order_trans [rotated])
  moreover have "source \<in> fset (keys (rs_db rs))" using nr keys_iff by blast
  ultimately show ?thesis using nr by (auto simp: compute_initial_undesirability_def prefix_ok_def)
qed

lemma first_within_Some:
  "\<exists>s \<in> set segs. seg_undesirability s \<le> m \<Longrightarrow>
   \<exists>s \<in> set segs. first_within m segs = Some (seg_nodes s) \<and> seg_undesirability s \<le> m"
  by (induction segs) auto

lemma first_within_result:
  assumes r: "search_result C I64_MAX segs m'" and max: "\<And>q v. C q v \<Longrightarrow> v \<le> I64_MAX"
  shows "case first_within m' segs of
       None \<Rightarrow> \<not> (\<exists>q v. C q v)
     | Some q \<Rightarrow> \<exists>u. C q u \<and> (\<forall>q v. C q v \<longrightarrow> u \<le> v)"
proof (cases segs)
  case Nil
  with r have "m' = I64_MAX" by (simp add: search_result_def)
  with r Nil max show ?thesis by (auto simp: search_result_def)
next
  case (Cons seg segs')
  have "\<exists>s \<in> set segs. seg_undesirability s \<le> m'"
  proof (cases "m' = I64_MAX")
    case True
    with r Cons max show ?thesis by (auto simp: search_result_def)
  next
    case False
    with r show ?thesis by (auto simp: search_result_def)
  qed
  then obtain s where s: "s \<in> set segs" "first_within m' segs = Some (seg_nodes s)" "seg_undesirability s \<le> m'"
    using first_within_Some by blast
  with r have "C (seg_nodes s) (seg_undesirability s)" "\<forall>q v. C q v \<longrightarrow> seg_undesirability s \<le> v"
    by (auto simp: search_result_def intro: order_trans)
  with s(2) show ?thesis by auto
qed

lemma best_route_optimal_aux:
  assumes "rs = best_route_search db prefs order target_opt payload_size direction hostname_opt"
    and "search_ok rs B" and "node_by_key db source = Some source_node"
  shows "\<exists>u0 route_opt. compute_initial_undesirability rs source = Some u0 \<and>
    find_best_route_segment db prefs order source target_opt minimum_hops payload_size direction hostname_opt = Some route_opt \<and>
    (case route_opt of
       None \<Rightarrow> \<not> (\<exists>q v. candidate rs [source] u0 minimum_hops q v)
     | Some route \<Rightarrow> \<exists>u. candidate rs [source] u0 minimum_hops route u \<and>
         (\<forall>q v. candidate rs [source] u0 minimum_hops q v \<longrightarrow> u \<le> v))"
proof -
  have rs: "rs_db rs = db" "\<not> rs_research rs" using assms(1) by (simp_all add: best_route_search_def)
  obtain u0 where u0: "compute_initial_undesirability rs source = Some u0" "prefix_ok rs B [source] u0"
    using initial_ok [OF assms(2)] assms(3) rs(1) by blast
  obtain segs m' where r: "routing_engine rs [source] u0 minimum_hops (I64_MAX, []) = Some (segs, m', [])"
    "search_result (candidate rs [source] u0 minimum_hops) I64_MAX segs m'"
    using engine_finds(1) [OF assms(2) rs(2) u0(2), of minimum_hops "(I64_MAX, [])"] by (auto simp: engine_ok_def)
  have "v \<le> I64_MAX" if "candidate rs [source] u0 minimum_hops q v" for q v
    using candidate_bounds [OF that assms(2) u0(2)] bound_i64 [OF assms(2)] by blast
  from first_within_result [OF r(2) this] show ?thesis
    using u0(1) r(1) assms(1) by (auto simp: find_best_route_segment_def Let_def)
qed

text \<open>
  C5: the routing engine finds a route of least undesirability.  On a consistent
  database whose charges keep every sum along a route within \<open>i64\<close>, whatever the order
  in which the hash sets are iterated, the search returns and never panics; it returns a
  route exactly when the rules admit one, and then no admitted route is less undesirable,
  although the search cuts off branches that are worse than the best found so far.
\<close>

theorem best_route_optimal:
  assumes "rs = best_route_search db prefs order target_opt payload_size direction hostname_opt"
    and "search_ok rs B" and "node_by_key db source = Some source_node"
  shows "\<exists>u0 route_opt. compute_initial_undesirability rs source = Some u0 \<and>
    find_best_route_segment db prefs order source target_opt minimum_hops payload_size direction hostname_opt = Some route_opt \<and>
    (case route_opt of
       None \<Rightarrow> \<not> (\<exists>q v. candidate rs [source] u0 minimum_hops q v)
     | Some route \<Rightarrow> \<exists>u. candidate rs [source] u0 minimum_hops route u \<and>
         (\<forall>q v. candidate rs [source] u0 minimum_hops q v \<longrightarrow> u \<le> v))"
  using assms by (rule best_route_optimal_aux)

text \<open>A neighborhood of two Nodes that have each other as neighbors.\<close>

definition sample_pair :: neighborhood_database where
  "sample_pair = \<lparr>this_node = [1], by_public_key = fmupd [2] (sample_record 2 [1]) (fmupd [1] (sample_record 1 [2]) fmempty),
     by_ip_addr = fmempty\<rparr>"

definition sample_search :: route_search where
  "sample_search = best_route_search sample_pair preferences_new (\<lambda>_. sorted_list_of_fset) None 0 Over None"

lemma sample_pair_nodes: "node_by_key sample_pair k = Some nr \<longleftrightarrow> k = [1] \<and> nr = sample_record 1 [2] \<or> k = [2] \<and> nr = sample_record 2 [1]"
  by (auto simp: sample_pair_def node_by_key_def)

lemma sample_pair_ok: "db_ok sample_pair"
proof (rule db_okI)
  show "this_node sample_pair |\<in>| keys sample_pair" by (simp add: sample_pair_def keys_def)
  show "node_by_key sample_pair k = Some nr \<Longrightarrow> public_key nr = k" for k nr
    by (auto simp: sample_pair_nodes public_key_def sample_record_def sample_inner_def)
qed (simp add: sample_pair_def)

lemma sample_search_ok: "search_ok sample_search 100000000"
proof -
  have "fset_of_list (sorted_list_of_fset S) = S \<and> distinct (sorted_list_of_fset S)" for S :: "public_key fset"
    by (simp add: fset_eq_iff fset_of_list_elem sorted_list_of_fset.rep_eq)
  moreover have "fcard (keys sample_pair) = 2" by (simp add: sample_pair_def keys_def fcard.rep_eq)
  moreover have "node_by_key sample_pair k = Some nr \<Longrightarrow> full_charge nr 0 \<le> 100000000" for k nr
    by (auto simp: sample_pair_nodes full_charge_def sample_record_def sample_inner_def ZERO_RATE_PACK_def metadata_new_def)
  ultimately show ?thesis using sample_pair_ok by (simp add: search_ok_def sample_search_def best_route_search_def)
qed

lemma sample_candidate: "candidate sample_search [[1]] 0 1 [[1], [2]] 0"
proof (rule candidate.hop)
  note defs = sample_search_def best_route_search_def route_qualifies_def route_length_qualifies_def last_key_qualifies_def
    validate_last_node_not_too_close_to_first_node_def validate_last_node_country_code_def last_node_is_always_true_def
    preferences_new_def
  show "search_open sample_search [[1]] 1"
    by (simp add: search_open_def defs sample_pair_nodes route_exhausted_def)
  show "node_by_key (rs_db sample_search) (last [[1]]) = Some (sample_record 1 [2])"
    by (simp add: sample_search_def best_route_search_def sample_pair_nodes)
  show "[2] |\<in>| full_neighbor_keys (sample_record 1 [2]) (rs_db sample_search)"
    "node_by_key (rs_db sample_search) [2] = Some (sample_record 2 [1])"
    by (simp_all add: sample_search_def best_route_search_def full_neighbor_keys_def half_neighbor_keys_def sample_pair_def
        node_by_key_def record_has_half_neighbor_def public_key_def sample_record_def sample_inner_def)
  show "next_hop_ok sample_search [[1]] (sample_record 2 [1])"
    by (simp add: next_hop_ok_def public_key_def routes_data_def sample_record_def sample_inner_def)
  show "compute_new_undesirability sample_search (sample_record 2 [1]) 0 (1 - 1) = Some 0"
    using compute_undesirability_value [of "sample_record 2 [1]" 0 "ExitRequest None"]
    by (simp add: compute_new_undesirability_def undesirability_type_for_def defs full_charge_def undesirability_value_def
        sample_record_def sample_inner_def ZERO_RATE_PACK_def metadata_new_def i64_add_def i64_ok_def)
  have "search_done sample_search [[1], [2]] 0" by (simp add: search_done_def defs sample_pair_nodes)
  then show "candidate sample_search ([[1]] @ [public_key (sample_record 2 [1])]) 0 (1 - 1) [[1], [2]] 0"
    by (simp add: public_key_def sample_record_def sample_inner_def candidate.here)
qed

theorem best_route_optimal_witness:
  "\<exists>route u. find_best_route_segment sample_pair preferences_new (\<lambda>_. sorted_list_of_fset) [1] None 1 0 Over None = Some (Some route) \<and>
     candidate sample_search [[1]] 0 1 route u \<and> u \<le> 0"
proof -
  have init: "compute_initial_undesirability sample_search [1] = Some 0"
    by (simp add: compute_initial_undesirability_def sample_search_def best_route_search_def)
  have node: "node_by_key sample_pair [1] = Some (sample_record 1 [2])" by (simp add: sample_pair_nodes)
  obtain route_opt where r: "find_best_route_segment sample_pair preferences_new (\<lambda>_. sorted_list_of_fset) [1] None 1 0 Over None = Some route_opt"
    "case route_opt of None \<Rightarrow> \<not> (\<exists>q v. candidate sample_search [[1]] 0 1 q v)
     | Some route \<Rightarrow> \<exists>u. candidate sample_search [[1]] 0 1 route u \<and> (\<forall>q v. candidate sample_search [[1]] 0 1 q v \<longrightarrow> u \<le> v)"
    using best_route_optimal [OF sample_search_def sample_search_ok node, of 1] init by auto
  show ?thesis
  proof (cases route_opt)
    case None
    then show ?thesis using r(2) sample_candidate by auto
  next
    case (Some route)
    then show ?thesis using r sample_candidate by auto
  qed
qed

lemma candidate_length:
  assumes "candidate rs p u h q v" "rs_target_opt rs = None" "fallback_preference (rs_prefs rs) = Nothing" "\<not> rs_research rs"
  shows "length q = length p + h"
  using assms
proof (induction rule: candidate.induct)
  case (here p h u)
  then show ?case by (auto simp: search_done_def route_qualifies_def route_length_qualifies_def)
next
  case (hop p h prev k nr u u' q v)
  then have "h \<noteq> 0"
    by (auto simp: search_open_def route_exhausted_def validate_last_node_country_code_def last_node_is_always_true_def split: if_splits)
  with hop show ?case by simp
qed

lemma search_done_spec:
  assumes "search_done rs q h" "db_ok (rs_db rs)"
  shows "h = 0" "rs_target_opt rs = Some target \<Longrightarrow> last q = target"
    "2 < length q \<Longrightarrow> \<not> has_half_neighbor (rs_db rs) (last q) (hd q)"
  using assms db_ok_key [OF assms(2)]
  by (auto simp: search_done_def route_qualifies_def route_length_qualifies_def last_key_qualifies_def
      validate_last_node_not_too_close_to_first_node_def)

lemma best_route_sound_aux:
  assumes "search_ok (best_route_search db prefs order target_opt payload_size direction hostname_opt) B"
    and "node_by_key db source = Some source_node"
    and "find_best_route_segment db prefs order source target_opt minimum_hops payload_size direction hostname_opt = Some (Some route)"
  shows "hd route = source \<and> distinct route \<and> linked db route \<and> minimum_hops + 1 \<le> length route \<and>
    (target_opt = None \<and> fallback_preference prefs = Nothing \<longrightarrow> length route = minimum_hops + 1) \<and>
    (\<forall>target. target_opt = Some target \<longrightarrow> last route = target) \<and>
    (\<forall>k \<in> set (tl route). \<exists>nr. node_by_key db k = Some nr \<and> (routes_data nr \<or> (direction = Back \<and> target_opt = Some k))) \<and>
    (2 < length route \<longrightarrow> \<not> has_half_neighbor db (last route) source)"
proof -
  define rs where "rs = best_route_search db prefs order target_opt payload_size direction hostname_opt"
  have rs: "rs_db rs = db" "rs_target_opt rs = target_opt" "rs_direction rs = direction" "rs_prefs rs = prefs" "\<not> rs_research rs"
    by (simp_all add: rs_def best_route_search_def)
  have ok: "db_ok db" using assms(1) by (simp add: search_ok_def best_route_search_def)
  obtain u0 u where "candidate rs [source] u0 minimum_hops route u"
    using best_route_optimal_aux [OF rs_def assms(1) [folded rs_def] assms(2), of minimum_hops] assms(3) by auto
  note c = this candidate_walk [OF this]
  from c(2) obtain h' where w: "walk rs [source] minimum_hops route h'" "search_done rs route h'" by blast
  note d = search_done_spec [OF w(2), unfolded rs, OF ok]
  obtain s where s: "route = [source] @ s" "distinct route" "linked db route" "minimum_hops \<le> length s"
    "\<forall>k \<in> set s. \<exists>nr. node_by_key db k = Some nr \<and> (routes_data nr \<or> is_orig_node_on_back_leg nr target_opt direction)"
    using walk_spec [OF w(1)] ok d(1) by (auto simp: rs linked_def)
  have "\<exists>nr. node_by_key db k = Some nr \<and> (routes_data nr \<or> (direction = Back \<and> target_opt = Some k))" if "k \<in> set s" for k
    using s(5) that db_ok_key [OF ok]
    by (fastforce simp: is_orig_node_on_back_leg_def split: route_direction.splits option.splits)
  moreover have "length route = minimum_hops + 1" if "target_opt = None" "fallback_preference prefs = Nothing"
    using candidate_length [OF c(1)] that by (simp add: rs)
  ultimately show ?thesis using s d by auto
qed

text \<open>
  C6: routes are sound.  A route that the engine returns starts at the source, visits no
  Node twice, and each Node on it is a full neighbor of the one before; it has at least
  the required number of hops and, in a search without a target and without preferred
  countries, exactly that number; it ends at the target if there is one; every Node after
  the source routes data, except that the way back may end at an originator that does
  not; and on a route of two hops or more the last Node does not claim the source as a
  neighbor.
\<close>

theorem best_route_sound:
  assumes "search_ok (best_route_search db prefs order target_opt payload_size direction hostname_opt) B"
    and "node_by_key db source = Some source_node"
    and "find_best_route_segment db prefs order source target_opt minimum_hops payload_size direction hostname_opt = Some (Some route)"
  shows "hd route = source \<and> distinct route \<and> linked db route \<and> minimum_hops + 1 \<le> length route \<and>
    (target_opt = None \<and> fallback_preference prefs = Nothing \<longrightarrow> length route = minimum_hops + 1) \<and>
    (\<forall>target. target_opt = Some target \<longrightarrow> last route = target) \<and>
    (\<forall>k \<in> set (tl route). \<exists>nr. node_by_key db k = Some nr \<and> (routes_data nr \<or> (direction = Back \<and> target_opt = Some k))) \<and>
    (2 < length route \<longrightarrow> \<not> has_half_neighbor db (last route) source)"
  using assms by (rule best_route_sound_aux)

theorem best_route_sound_witness:
  "\<exists>route. find_best_route_segment sample_pair preferences_new (\<lambda>_. sorted_list_of_fset) [1] None 1 0 Over None = Some (Some route) \<and>
     hd route = [1] \<and> length route = 2 \<and> linked sample_pair route"
proof -
  have node: "node_by_key sample_pair [1] = Some (sample_record 1 [2])" by (simp add: sample_pair_nodes)
  have init: "compute_initial_undesirability sample_search [1] = Some 0"
    by (simp add: compute_initial_undesirability_def sample_search_def best_route_search_def)
  obtain route where r: "find_best_route_segment sample_pair preferences_new (\<lambda>_. sorted_list_of_fset) [1] None 1 0 Over None = Some (Some route)"
    using best_route_optimal_aux [OF sample_search_def sample_search_ok node, of 1] init sample_candidate
    by (auto split: option.splits)
  from best_route_sound [OF sample_search_ok [unfolded sample_search_def] node r] r show ?thesis
    by (auto simp: preferences_new_def)
qed

section \<open>Researching exits\<close>

definition research_exit :: "route_search \<Rightarrow> public_key list \<Rightarrow> nat \<Rightarrow> public_key \<Rightarrow> bool" where
  "research_exit rs p h x \<longleftrightarrow> (\<exists>q h' prev. walk rs p h q h' \<and> last q = x \<and>
     node_by_key (rs_db rs) x = Some prev \<and> route_qualifies rs q h' prev)"

definition research_ok :: "(search_state \<Rightarrow> (computed_route_segment list \<times> search_state) option) \<Rightarrow>
    (public_key \<Rightarrow> bool) \<Rightarrow> search_state \<Rightarrow> bool" where
  "research_ok f E st \<longleftrightarrow> (\<exists>segs m' e'. f st = Some (segs, m', e') \<and>
     (distinct (snd st) \<longrightarrow> distinct e') \<and> set (snd st) \<subseteq> set e' \<and> (\<forall>x \<in> set e' - set (snd st). E x))"

lemma research_ok_mono: "research_ok f E st \<Longrightarrow> (\<And>x. E x \<Longrightarrow> F x) \<Longrightarrow> research_ok f F st"
  by (auto simp: research_ok_def)

lemma research_exit_hop:
  "node_by_key (rs_db rs) (last p) = Some prev \<Longrightarrow> k |\<in>| full_neighbor_keys prev (rs_db rs) \<Longrightarrow>
   node_by_key (rs_db rs) k = Some nr \<Longrightarrow> next_hop_ok rs p nr \<Longrightarrow>
   research_exit rs (p @ [public_key nr]) (h - 1) x \<Longrightarrow> research_exit rs p h x"
  unfolding research_exit_def by (blast intro: walk.hop)

lemma research_ok_hop:
  assumes hop: "next_hop_ok rs p nr" "compute_new_undesirability rs nr u (h - 1) = Some u'"
    and 1: "research_ok (routing_engine rs (p @ [public_key nr]) u' (h - 1)) E st"
    and 2: "\<And>s1 st'. routing_engine rs (p @ [public_key nr]) u' (h - 1) st = Some (s1, st') \<Longrightarrow> research_ok (routing_flat_map rs p u h nrs) E st'"
  shows "research_ok (routing_flat_map rs p u h (nr # nrs)) E st"
proof -
  from 1 obtain s1 m1 e1 where 1: "routing_engine rs (p @ [public_key nr]) u' (h - 1) st = Some (s1, m1, e1)"
    "distinct (snd st) \<longrightarrow> distinct e1" "set (snd st) \<subseteq> set e1" "\<forall>x \<in> set e1 - set (snd st). E x" by (auto simp: research_ok_def)
  from 2 [OF 1(1)] obtain s2 m2 e2 where "routing_flat_map rs p u h nrs (m1, e1) = Some (s2, m2, e2)"
    "distinct e1 \<longrightarrow> distinct e2" "set e1 \<subseteq> set e2" "\<forall>x \<in> set e2 - set e1. E x" by (auto simp: research_ok_def)
  with hop 1 show ?thesis by (auto simp: research_ok_def Let_def)
qed

lemma research_finds:
  shows "search_ok rs B \<Longrightarrow> rs_research rs \<Longrightarrow> prefix_ok rs B p u \<Longrightarrow>
      research_ok (routing_engine rs p u h) (research_exit rs p h) st"
    and "search_ok rs B \<Longrightarrow> rs_research rs \<Longrightarrow> prefix_ok rs B p u \<Longrightarrow> node_by_key (rs_db rs) (last p) = Some prev \<Longrightarrow>
      research_ok (routing_guts rs p u h prev) (research_exit rs p h) st"
    and "search_ok rs B \<Longrightarrow> rs_research rs \<Longrightarrow> prefix_ok rs B p u \<Longrightarrow>
      \<exists>prev. node_by_key (rs_db rs) (last p) = Some prev \<and>
        (\<forall>nr \<in> set nrs. \<exists>k. k |\<in>| full_neighbor_keys prev (rs_db rs) \<and> node_by_key (rs_db rs) k = Some nr) \<Longrightarrow>
      research_ok (routing_flat_map rs p u h nrs) (research_exit rs p h) st"
proof (induction rs p u h st and rs p u h prev st and rs p u h nrs st
    rule: routing_engine_routing_guts_routing_flat_map.induct)
  case (1 rs p u h m e)
  obtain prev where prev: "node_by_key (rs_db rs) (last p) = Some prev" using prefix_last [OF 1(3,5)] by blast
  have ne: "p \<noteq> []" using 1(5) by (simp add: prefix_ok_def)
  consider "route_qualifies rs p h prev" "last p \<in> set e" | "route_qualifies rs p h prev" "last p \<notin> set e"
    | "\<not> route_qualifies rs p h prev" by blast
  then show ?case
  proof cases
    case 1
    then show ?thesis using prev ne \<open>rs_research rs\<close> by (simp add: research_ok_def)
  next
    case 2
    have here: "research_exit rs p h (last p)" using 2(1) prev by (auto simp: research_exit_def intro: walk.stop)
    have "research_ok (routing_guts rs p u h prev) (research_exit rs p h) (m, if rs_research rs then e @ [last p] else e)"
      by (intro 1(1) [OF _ ne prev 2(1)]) (use 1(3-5) 2 prev in auto)
    with 2 here prev ne 1(4) show ?thesis by (auto simp: research_ok_def simp del: routing_guts.simps)
  next
    case 3
    have "research_ok (routing_guts rs p u h prev) (research_exit rs p h) (m, e)"
      by (intro 1(2) [OF _ ne prev 3]) (use 1(3-5) prev in \<open>auto simp: route_exhausted_def\<close>)
    with 3 prev ne 1(4) show ?thesis by (simp add: research_ok_def route_exhausted_def del: routing_guts.simps)
  qed
next
  case (2 rs p u h prev st)
  obtain nrs where nrs: "full_neighbors (rs_order rs p) prev (rs_db rs) = Some nrs"
    "set nrs = {nr. \<exists>k. k |\<in>| full_neighbor_keys prev (rs_db rs) \<and> node_by_key (rs_db rs) k = Some nr}"
    by (rule full_neighbors_list [OF 2(2)])
  with 2 have "research_ok (routing_flat_map rs p u h nrs) (research_exit rs p h) st" by auto
  with nrs(1) show ?case by (simp add: research_ok_def)
next
  case (3 rs p u h st)
  then show ?case by (cases st) (simp add: research_ok_def)
next
  case (4 rs p u h nr nrs st)
  then obtain prev k where k: "node_by_key (rs_db rs) (last p) = Some prev" "k |\<in>| full_neighbor_keys prev (rs_db rs)"
    "node_by_key (rs_db rs) k = Some nr" by auto
  show ?case
  proof (cases "next_hop_ok rs p nr")
    case False
    with 4 have "research_ok (routing_flat_map rs p u h nrs) (research_exit rs p h) st" by auto
    with False show ?thesis by (simp add: research_ok_def)
  next
    case True
    obtain u' where u': "compute_new_undesirability rs nr u (h - 1) = Some u'" "prefix_ok rs B (p @ [public_key nr]) u'"
      using hop_cost [OF 4(4,6) k(3) True] by blast
    show ?thesis
    proof (rule research_ok_hop [OF True u'(1)])
      have "research_ok (routing_engine rs (p @ [public_key nr]) u' (h - 1)) (research_exit rs (p @ [public_key nr]) (h - 1)) st"
        using True u' 4 by (auto simp del: routing_engine.simps)
      then show "research_ok (routing_engine rs (p @ [public_key nr]) u' (h - 1)) (research_exit rs p h) st"
        by (rule research_ok_mono) (rule research_exit_hop [OF k True])
      fix s1 st' assume "routing_engine rs (p @ [public_key nr]) u' (h - 1) st = Some (s1, st')"
      then show "research_ok (routing_flat_map rs p u h nrs) (research_exit rs p h) st'"
        using True u' 4 by (cases st') (auto simp del: routing_engine.simps)
    qed
  qed
qed

lemma find_exit_locations_aux:
  assumes "search_ok \<lparr>rs_db = db, rs_prefs = prefs, rs_order = order, rs_target_opt = None, rs_payload_size = 0,
      rs_direction = Over, rs_hostname_opt = None, rs_research = True\<rparr> B"
    and "node_by_key db source = Some source_node"
  shows "\<exists>exits. find_exit_locations db prefs order source minimum_hops = Some exits \<and> distinct exits \<and>
    (\<forall>x \<in> set exits. \<exists>s. distinct (source # s) \<and> linked db (source # s) \<and> last (source # s) = x \<and> minimum_hops \<le> length s \<and>
       (2 \<le> length s \<longrightarrow> \<not> has_half_neighbor db x source))"
proof -
  define rs where "rs = \<lparr>rs_db = db, rs_prefs = prefs, rs_order = order, rs_target_opt = None, rs_payload_size = 0,
      rs_direction = Over, rs_hostname_opt = None, rs_research = True\<rparr>"
  note ok = assms(1) [folded rs_def]
  have rs: "rs_db rs = db" "rs_research rs" by (simp_all add: rs_def)
  have db: "db_ok db" using ok by (simp add: search_ok_def rs)
  obtain u0 where "prefix_ok rs B [source] u0" using initial_ok [OF ok] assms(2) rs by blast
  then have "prefix_ok rs B [source] 0" by (simp add: prefix_ok_def)
  from research_finds(1) [OF ok rs(2) this, of minimum_hops "(I64_MAX, [])"]
  obtain segs m' exits where e: "routing_engine rs [source] 0 minimum_hops (I64_MAX, []) = Some (segs, m', exits)"
    "distinct exits" "\<forall>x \<in> set exits. research_exit rs [source] minimum_hops x" by (auto simp: research_ok_def)
  have "\<exists>s. distinct (source # s) \<and> linked db (source # s) \<and> last (source # s) = x \<and> minimum_hops \<le> length s \<and>
      (2 \<le> length s \<longrightarrow> \<not> has_half_neighbor db x source)" if "research_exit rs [source] minimum_hops x" for x
  proof -
    from that obtain q h' prev where q: "walk rs [source] minimum_hops q h'" "last q = x" "node_by_key db x = Some prev"
      "route_qualifies rs q h' prev" by (auto simp: research_exit_def rs)
    then have "h' = 0" "2 < length q \<longrightarrow> \<not> has_half_neighbor db x (hd q)"
      using db_ok_key [OF db q(3)]
      by (auto simp: route_qualifies_def route_length_qualifies_def validate_last_node_not_too_close_to_first_node_def rs)
    with walk_spec [OF q(1)] db q(2) show ?thesis by (auto simp: rs linked_def)
  qed
  with e show ?thesis by (auto simp: find_exit_locations_def rs_def [symmetric] Let_def)
qed



end
