(* ===== verification/Onion_Routing.thy ===== *)
theory Onion_Routing
  imports Hopper
begin

text \<open>
  What the Hoppers of a network do together: a package that is given to the Hopper at one
  end of a route comes out at the other end, and every Node between is paid.  The network
  is a Hopper and a cache of banned wallets for every key; how a transmitted message becomes
  inbound data at the Node it is for is an argument that keeps the data.
\<close>

section \<open>A network of Hoppers\<close>

record ('s, 'x) network =
  net_format :: "('s, 'x) cores_format"
  net_hopper :: "public_key \<Rightarrow> hopper"
  net_bans :: "public_key \<Rightarrow> banned_cache"
  net_arrival :: "public_key \<Rightarrow> transmit_msg \<Rightarrow> inbound_client_data"

definition inbound_at :: "('s, 'x) network \<Rightarrow> nat \<Rightarrow> public_key \<Rightarrow> inbound_client_data \<Rightarrow> 'x hopper_output list option" where
  "inbound_at W now k ibcd = hopper_inbound (net_format W) (net_bans W k) now (net_hopper W k) ibcd"

text \<open>
  Following a package for a number of steps: to the Hopper a message is for, or around again.
  The times at which the steps are taken are an argument; the result lists what the Hoppers
  reported to their Accountants, and where the package is.
\<close>

fun journey :: "('s, 'x) network \<Rightarrow> (nat \<Rightarrow> nat) \<Rightarrow> nat \<Rightarrow> public_key \<Rightarrow> inbound_client_data \<Rightarrow>
    ((public_key \<times> report_routing_service_provided) list \<times> public_key \<times> inbound_client_data) option" where
  "journey W ts 0 k ibcd = Some ([], k, ibcd)"
| "journey W ts (Suc n) k ibcd = do {
     outs \<leftarrow> inbound_at W (ts 0) k ibcd;
     (case outs of
        [ToHopper ibcd'] \<Rightarrow> journey W (\<lambda>i. ts (Suc i)) n k ibcd'
      | [ToAccountant r, ToDispatcher m] \<Rightarrow>
          (case transmit_endpoint m of
             EndpointKey k' \<Rightarrow> do {
               (log, there) \<leftarrow> journey W (\<lambda>i. ts (Suc i)) n k' (net_arrival W k' m);
               Some ((k, r) # log, there) }
           | EndpointSocket _ \<Rightarrow> None)
      | _ \<Rightarrow> None) }"

declare journey.simps(2) [simp del]

definition send :: "('s, 'x) network \<Rightarrow> (nat \<Rightarrow> nat) \<Rightarrow> nat \<Rightarrow> public_key \<Rightarrow> incipient_cores_package \<Rightarrow>
    ((public_key \<times> report_routing_service_provided) list \<times> public_key \<times> inbound_client_data) option" where
  "send W ts n k pkg = do {
     outs \<leftarrow> hopper_incipient (net_format W) (ts 0) (net_hopper W k) pkg;
     (case outs of
        [ToHopper ibcd] \<Rightarrow> journey W (\<lambda>i. ts (Suc i)) n k ibcd
      | [ToDispatcher m] \<Rightarrow>
          (case transmit_endpoint m of
             EndpointKey k' \<Rightarrow> journey W (\<lambda>i. ts (Suc i)) n k' (net_arrival W k' m)
           | EndpointSocket _ \<Rightarrow> None)
      | _ \<Rightarrow> None) }"

text \<open>A package comes to a Node, whose Hopper then hands it to a component.\<close>

definition arrives :: "('s, 'x) network \<Rightarrow> (nat \<Rightarrow> nat) \<Rightarrow> nat \<Rightarrow> public_key \<Rightarrow> incipient_cores_package \<Rightarrow>
    (public_key \<times> report_routing_service_provided) list \<Rightarrow> public_key \<Rightarrow> 'x hopper_output \<Rightarrow> bool" where
  "arrives W ts n k pkg reports destination out \<longleftrightarrow>
     (\<exists>ibcd. send W ts n k pkg = Some (reports, destination, ibcd) \<and> (\<forall>now. inbound_at W now destination ibcd = Some [out]))"

definition network_ok :: "(public_key \<Rightarrow> cryptde) \<Rightarrow> ('s, 'x) network \<Rightarrow> bool" where
  "network_ok node W \<longleftrightarrow>
     (\<forall>k. main_cryptde (net_hopper W k) = node k \<and> services (net_hopper W k) \<noteq> None) \<and>
     (\<forall>k m. ibcd_data (net_arrival W k m) = transmit_data m) \<and>
     codec_ok (cores_hop_codec (net_format W)) \<and> codec_ok (lcp_codec (net_format W)) \<and> codec_ok (message_codec (net_format W))"

text \<open>A payer that a Node accepts.\<close>

definition pays :: "('s, 'x) network \<Rightarrow> public_key \<Rightarrow> 's payer option \<Rightarrow> bool" where
  "pays W k payer \<longleftrightarrow> (\<exists>p. payer = Some p \<and>
     owns_secret_key (cores_eth (net_format W)) p (cde_digest (main_cryptde (net_hopper W k))) = Some True \<and>
     is_delinquent (cores_eth (net_format W)) (net_bans W k) p = Some False)"

text \<open>Hops that relay from a key on, and what the Nodes that relay report.\<close>

fun relays :: "('s, 'x) network \<Rightarrow> public_key \<Rightarrow> 's payer live_hop list \<Rightarrow> bool" where
  "relays W k [] \<longleftrightarrow> True"
| "relays W k (hop # hops) \<longleftrightarrow>
     hop_component hop = CHopper \<and> hop_public_key hop \<noteq> [] \<and> pays W k (hop_payer hop) \<and> relays W (hop_public_key hop) hops"

fun end_key :: "public_key \<Rightarrow> 'p live_hop list \<Rightarrow> public_key" where
  "end_key k [] = k"
| "end_key k (hop # hops) = end_key (hop_public_key hop) hops"

fun charges :: "('s, 'x) network \<Rightarrow> (nat \<Rightarrow> nat) \<Rightarrow> nat \<Rightarrow> public_key \<Rightarrow> 's payer live_hop list \<Rightarrow>
    (public_key \<times> report_routing_service_provided) list" where
  "charges W ts len k [] = []"
| "charges W ts len k (hop # hops) =
     (if hop_public_key hop = k then []
      else [(k, \<lparr>report_timestamp = ts 0, report_paying_wallet = payer_wallet (the (hop_payer hop)), report_payload_size = len,
                 report_service_rate = per_routing_service (net_hopper W k), report_byte_rate = per_routing_byte (net_hopper W k)\<rparr>)])
     @ charges W (\<lambda>i. ts (Suc i)) len (hop_public_key hop) hops"

section \<open>Steps of a package\<close>

lemma lcp_new_eval: "lcp_new r p = Some \<lparr>lcp_version = (0, 0, 0), lcp_route = r, lcp_payload = p\<rparr>"
  by (simp add: lcp_new_def lcp_current_version_def packed_version_new_def)

lemma shift_carries':
  assumes "carries codec node k (hop # hops) route"
  obtains g where "shift codec route (node k) = Some (Inr hop, tl route @ [g])"
  using assms by (auto simp: shift_def hop_decode_def split: list.splits)

lemma carries_tl: "carries codec node k (hop # hops) route \<Longrightarrow> carries codec node (hop_public_key hop) hops (tl route) \<and> route \<noteq> []"
  by (auto split: list.splits)

lemma carries_drop:
  "carries codec node k (hops @ rest) route \<Longrightarrow> carries codec node (end_key k hops) rest (drop (length hops) route) \<and> length hops \<le> length route"
proof (induction hops arbitrary: k route)
  case (Cons hop hops)
  then show ?case using carries_tl [of codec node k hop "hops @ rest" route] by (cases route) auto
qed simp

lemma carries_rest: "carries codec node k (hops @ rest) route \<Longrightarrow> carries codec node (end_key k hops) rest (drop (length hops) route @ g)"
  by (rule carries_append [OF conjunct1 [OF carries_drop]])

text \<open>A live package that has been shifted a number of times.\<close>

definition shifted :: "nat \<Rightarrow> live_cores_package \<Rightarrow> crypt_data list \<Rightarrow> live_cores_package" where
  "shifted n lcp g = \<lparr>lcp_version = (0, 0, 0), lcp_route = drop n (lcp_route lcp) @ g, lcp_payload = lcp_payload lcp\<rparr>"

lemma shifted_simps [simp]:
  "lcp_payload (shifted n lcp g) = lcp_payload lcp" "lcp_route (shifted n lcp g) = drop n (lcp_route lcp) @ g"
  by (simp_all add: shifted_def)

lemma shifted_shifted: "m \<le> length (lcp_route lcp) \<Longrightarrow> n \<le> length (lcp_route lcp) - m \<Longrightarrow> shifted n (shifted m lcp g) h = shifted (n + m) lcp (g @ h)"
  by (simp add: shifted_def)

context cipher
begin

lemma into_next_live_carries:
  assumes "carries (cores_hop_codec fmt) node k (hop # hops) (lcp_route lcp)"
  obtains g where "into_next_live fmt lcp (node k) = Some (Inr (hop, shifted (Suc 0) lcp [g]))"
proof -
  obtain g where "shift (cores_hop_codec fmt) (lcp_route lcp) (node k) = Some (Inr hop, tl (lcp_route lcp) @ [g])"
    using shift_carries' [OF assms] .
  with that show thesis by (simp add: into_next_live_def lcp_new_eval shifted_def drop_Suc)
qed

text \<open>One step: around again at the same Node, or on to the next Node for a charge.\<close>

lemma relay_inbound:
  assumes W: "network_ok node W"
    and i: "decodex (lcp_codec (net_format W)) (node k) (ibcd_data ibcd) = Some (Inr lcp)"
    and c: "carries (cores_hop_codec (net_format W)) node k (hop # hops) (lcp_route lcp)"
    and r: "relays W k (hop # hops')"
  obtains g d where "decodex (lcp_codec (net_format W)) (node (hop_public_key hop)) d = Some (Inr (shifted (Suc 0) lcp [g]))"
    "inbound_at W now k ibcd =
       Some (if hop_public_key hop = k then [ToHopper ((clone_but_data now ibcd)\<lparr>ibcd_data := d\<rparr>)]
             else [ToAccountant (snd (hd (charges W (\<lambda>_. now) (length (lcp_payload lcp)) k [hop]))),
                   ToDispatcher \<lparr>transmit_endpoint = EndpointKey (hop_public_key hop), transmit_last_data = ibcd_last_data ibcd,
                     transmit_sequence_number = None, transmit_data = d\<rparr>])"
proof -
  let ?fmt = "net_format W" and ?h = "net_hopper W k"
  have main: "main_cryptde ?h = node k" and codec: "codec_ok (lcp_codec ?fmt)" and bound: "services ?h \<noteq> None"
    using W by (auto simp: network_ok_def)
  obtain p where p: "hop_payer hop = Some p" "owns_secret_key (cores_eth ?fmt) p (cde_digest (node k)) = Some True"
      "is_delinquent (cores_eth ?fmt) (net_bans W k) p = Some False" and hop: "hop_component hop = CHopper" "hop_public_key hop \<noteq> []"
    using r main by (auto simp: pays_def)
  obtain g where g: "into_next_live ?fmt lcp (node k) = Some (Inr (hop, shifted (Suc 0) lcp [g]))" using into_next_live_carries [OF c] .
  obtain d where d: "encodex (lcp_codec ?fmt) (node k) (hop_public_key hop) (shifted (Suc 0) lcp [g]) = Inr d"
      "decodex (lcp_codec ?fmt) (node (hop_public_key hop)) d = Some (Inr (shifted (Suc 0) lcp [g]))"
    using encodex_decodex [OF codec hop(2)] by blast
  have routed: "inbound_at W now k ibcd = route_data ?fmt (net_bans W k) now ?h (client_addr ibcd) hop lcp (ibcd_last_data ibcd) (clone_but_data now ibcd)"
    using bound by (auto simp: inbound_at_def hopper_inbound_def route_ibcd_def main i next_hop_carries [OF c])
  show thesis
  proof (cases "hop_public_key hop = k")
    case True
    with that [OF d(2)] d(1) show thesis
      by (simp add: routed route_data_def is_destined_for_here_def main route_data_internally_def hop route_data_around_again_def g)
  next
    case False
    with that [OF d(2)] show thesis
      by (simp add: routed route_data_def is_destined_for_here_def main hop route_data_externally_def p to_transmit_data_msg_def g d(1))
  qed
qed

lemma relay_step:
  assumes W: "network_ok node W"
    and "decodex (lcp_codec (net_format W)) (node k) (ibcd_data ibcd) = Some (Inr lcp)"
    and "carries (cores_hop_codec (net_format W)) node k (hop # hops) (lcp_route lcp)"
    and "relays W k (hop # hops')"
  obtains g ibcd' where "journey W ts (Suc n) k ibcd = do {
       (log, there) \<leftarrow> journey W (\<lambda>i. ts (Suc i)) n (hop_public_key hop) ibcd';
       Some (charges W ts (length (lcp_payload lcp)) k [hop] @ log, there) }"
    "decodex (lcp_codec (net_format W)) (node (hop_public_key hop)) (ibcd_data ibcd') = Some (Inr (shifted (Suc 0) lcp [g]))"
proof -
  define out where "out d = \<lparr>transmit_endpoint = EndpointKey (hop_public_key hop), transmit_last_data = ibcd_last_data ibcd,
    transmit_sequence_number = None, transmit_data = d\<rparr>" for d
  obtain g d where d: "decodex (lcp_codec (net_format W)) (node (hop_public_key hop)) d = Some (Inr (shifted (Suc 0) lcp [g]))"
    "inbound_at W (ts 0) k ibcd = Some (if hop_public_key hop = k then [ToHopper ((clone_but_data (ts 0) ibcd)\<lparr>ibcd_data := d\<rparr>)]
       else [ToAccountant (snd (hd (charges W (\<lambda>_. ts 0) (length (lcp_payload lcp)) k [hop]))), ToDispatcher (out d)])"
    unfolding out_def by (rule relay_inbound [OF assms])
  have arrival: "ibcd_data (net_arrival W k m) = transmit_data m" for k m using W by (simp add: network_ok_def)
  show thesis
    using that [of "if hop_public_key hop = k then (clone_but_data (ts 0) ibcd)\<lparr>ibcd_data := d\<rparr> else net_arrival W (hop_public_key hop) (out d)" g] d
    by (auto simp: journey.simps(2) arrival out_def split: if_splits)
qed

lemma journey_relays:
  assumes W: "network_ok node W"
    and "decodex (lcp_codec (net_format W)) (node k) (ibcd_data ibcd) = Some (Inr lcp)"
    and "carries (cores_hop_codec (net_format W)) node k (hops @ rest) (lcp_route lcp)" and "relays W k hops"
  obtains g ibcd' where
    "journey W ts (length hops) k ibcd = Some (charges W ts (length (lcp_payload lcp)) k hops, end_key k hops, ibcd')"
    "decodex (lcp_codec (net_format W)) (node (end_key k hops)) (ibcd_data ibcd') = Some (Inr (if hops = [] then lcp else shifted (length hops) lcp g))"
  using assms(2-4)
proof (induction hops arbitrary: k ibcd lcp ts thesis)
  case (Cons hop hops)
  obtain g ibcd1 where step: "journey W ts (Suc (length hops)) k ibcd = do {
       (log, there) \<leftarrow> journey W (\<lambda>i. ts (Suc i)) (length hops) (hop_public_key hop) ibcd1;
       Some (charges W ts (length (lcp_payload lcp)) k [hop] @ log, there) }"
    and i: "decodex (lcp_codec (net_format W)) (node (hop_public_key hop)) (ibcd_data ibcd1) = Some (Inr (shifted (Suc 0) lcp [g]))"
    by (rule relay_step [OF W Cons.prems(2) Cons.prems(3) [unfolded append_Cons] Cons.prems(4)])
  have c: "carries (cores_hop_codec (net_format W)) node (hop_public_key hop) (hops @ rest) (lcp_route (shifted (Suc 0) lcp [g]))"
    and len: "length hops < length (lcp_route lcp)"
    using Cons.prems(3) carries_tl [of _ node k hop "hops @ rest"] carries_drop [of _ node k "hop # hops" rest] carries_append
    by (fastforce simp: drop_Suc)+
  obtain g' ibcd' where "journey W (\<lambda>i. ts (Suc i)) (length hops) (hop_public_key hop) ibcd1 =
      Some (charges W (\<lambda>i. ts (Suc i)) (length (lcp_payload lcp)) (hop_public_key hop) hops, end_key (hop_public_key hop) hops, ibcd')"
    "decodex (lcp_codec (net_format W)) (node (end_key (hop_public_key hop) hops)) (ibcd_data ibcd') =
      Some (Inr (if hops = [] then shifted (Suc 0) lcp [g] else shifted (length hops) (shifted (Suc 0) lcp [g]) g'))"
    using Cons.IH [OF _ i c] Cons.prems(4) by auto
  moreover have "shifted (length hops) (shifted (Suc 0) lcp [g]) g' = shifted (Suc (length hops)) lcp (g # g')"
    using shifted_shifted [of "Suc 0" lcp "length hops" "[g]" g'] len by (cases "lcp_route lcp") auto
  ultimately show thesis using step Cons.prems(1) [of ibcd' "if hops = [] then [g] else g # g'"]
    by (auto split: if_splits)
qed simp

text \<open>
  A package with a route is consumed at the Node of its first hop, relayed, and comes to the
  Node of the next hop.
\<close>

lemma send_relays:
  assumes W: "network_ok node W"
    and c: "carries (cores_hop_codec (net_format W)) node k (first # hops @ rest) route" and "hop_public_key first \<noteq> []"
    and r: "relays W (hop_public_key first) hops"
  obtains g ibcd lcp where
    "send W ts (length hops) k \<lparr>incipient_route = route, incipient_payload = payload\<rparr> =
       Some (charges W (\<lambda>i. ts (Suc i)) (length payload) (hop_public_key first) hops, end_key (hop_public_key first) hops, ibcd)"
    "decodex (lcp_codec (net_format W)) (node (end_key (hop_public_key first) hops)) (ibcd_data ibcd) = Some (Inr lcp)"
    "lcp_payload lcp = payload" "lcp_route lcp = drop (Suc (length hops)) route @ g"
proof -
  let ?fmt = "net_format W" and ?h = "net_hopper W k"
  have main: "main_cryptde ?h = node k" and codec: "codec_ok (lcp_codec ?fmt)" and bound: "services ?h \<noteq> None"
    and arrival: "\<And>k m. ibcd_data (net_arrival W k m) = transmit_data m"
    using W by (auto simp: network_ok_def)
  obtain g where g: "shift (cores_hop_codec ?fmt) route (node k) = Some (Inr first, tl route @ [g])" using shift_carries' [OF c] .
  define lcp where "lcp = \<lparr>lcp_version = (0, 0, 0), lcp_route = tl route @ [g], lcp_payload = payload\<rparr>"
  obtain d where d: "encodex (lcp_codec ?fmt) (node k) (hop_public_key first) lcp = Inr d"
      "decodex (lcp_codec ?fmt) (node (hop_public_key first)) d = Some (Inr lcp)"
    using encodex_decodex [OF codec assms(3)] by blast
  have consumed: "hopper_incipient ?fmt now ?h \<lparr>incipient_route = route, incipient_payload = payload\<rparr> =
      Some (if hop_public_key first = k then zero_hop now d else launch_lcp d (EndpointKey (hop_public_key first)))" for now
    using bound g d(1) by (auto simp: hopper_incipient_def consume_def from_incipient_def main lcp_new_eval lcp_def)
  obtain ibcd0 where sent: "send W ts (length hops) k \<lparr>incipient_route = route, incipient_payload = payload\<rparr> =
      journey W (\<lambda>i. ts (Suc i)) (length hops) (hop_public_key first) ibcd0" "ibcd_data ibcd0 = d"
  proof (cases "hop_public_key first = k")
    case True
    with that show thesis by (simp add: send_def consumed zero_hop_def)
  next
    case False
    with that show thesis by (simp add: send_def consumed launch_lcp_def arrival)
  qed
  have "carries (cores_hop_codec ?fmt) node (hop_public_key first) (hops @ rest) (lcp_route lcp)"
    and len: "length hops < length route"
    using c carries_tl [of _ node k first "hops @ rest"] carries_drop [of _ node k "first # hops" rest] carries_append
    by (fastforce simp: lcp_def)+
  then obtain g' ibcd where "journey W (\<lambda>i. ts (Suc i)) (length hops) (hop_public_key first) ibcd0 =
       Some (charges W (\<lambda>i. ts (Suc i)) (length (lcp_payload lcp)) (hop_public_key first) hops, end_key (hop_public_key first) hops, ibcd)"
    "decodex (lcp_codec ?fmt) (node (end_key (hop_public_key first) hops)) (ibcd_data ibcd) =
       Some (Inr (if hops = [] then lcp else shifted (length hops) lcp g'))"
    using journey_relays [OF W _ _ r] d(2) sent(2) by metis
  with sent(1) len that [of ibcd _ "if hops = [] then [g] else [g] @ g'"] show thesis
    by (auto simp: lcp_def drop_Suc split: if_splits)
qed

text \<open>At its destination a package that is paid for is given to the component its top hop names.\<close>

lemma arrival_delivers:
  assumes W: "network_ok node W"
    and i: "decodex (lcp_codec (net_format W)) (node k) (ibcd_data ibcd) = Some (Inr lcp)"
    and c: "carries (cores_hop_codec (net_format W)) node k (hop # hops) (lcp_route lcp)"
    and hop: "hop_component hop = component" "component \<noteq> CHopper" "hop_payer hop = Some p" "pays W k (Some p)"
    and d: "decodex (message_codec (net_format W)) (case component of CProxyServer \<Rightarrow> alias_cryptde (net_hopper W k) | _ \<Rightarrow> main_cryptde (net_hopper W k)) (lcp_payload lcp) = Some (Inr msg)"
  shows "inbound_at W now k ibcd = route_expired_package (net_format W) (net_hopper W k) component
    \<lparr>immediate_neighbor = client_addr ibcd, paying_wallet = Some (payer_wallet p), remaining_route = lcp_route lcp,
     expired_payload = msg, payload_len = length (lcp_payload lcp)\<rparr> True"
proof -
  have main: "main_cryptde (net_hopper W k) = node k" "services (net_hopper W k) \<noteq> None" using W by (auto simp: network_ok_def)
  note top = next_hop_carries [OF c]
  have "extract_expired_package (net_format W) (net_hopper W k) (client_addr ibcd) lcp component = Some (Some
    \<lparr>immediate_neighbor = client_addr ibcd, paying_wallet = Some (payer_wallet p), remaining_route = lcp_route lcp,
     expired_payload = msg, payload_len = length (lcp_payload lcp)\<rparr>)"
    using d top main(1) by (simp add: extract_expired_package_def to_expired_def hop(3))
  moreover have "inbound_at W now k ibcd = route_data_internally (net_format W) (net_bans W k) (net_hopper W k) hop (client_addr ibcd) lcp (clone_but_data now ibcd)"
    using main hop(1,2) by (auto simp: inbound_at_def hopper_inbound_def route_ibcd_def i top route_data_def)
  ultimately show ?thesis using hop main
    by (auto simp: route_data_internally_def pays_def payer_owns_secret_key_def route_data_to_peripheral_component_def)
qed

end

section \<open>Requests and responses\<close>

definition make_package :: "('s, 'x) cores_format \<Rightarrow> cryptde \<Rightarrow> message_type_lite \<Rightarrow> (versioned_data \<Rightarrow> message_type) \<Rightarrow> route \<Rightarrow> 'x \<Rightarrow> public_key \<Rightarrow>
    incipient_cores_package option" where
  "make_package fmt cryptde kind message route x key = do {
     vd \<leftarrow> versioned_data_new (payload_codec fmt kind) (payload_migrations fmt kind) x;
     (case incipient_new fmt cryptde route (message vd) key of Inr pkg \<Rightarrow> Some pkg | Inl _ \<Rightarrow> None) }"

text \<open>What the Nodes of a list of keys report for relaying along it.\<close>

fun relay_reports :: "('s, 'x) network \<Rightarrow> wallet \<Rightarrow> (nat \<Rightarrow> nat) \<Rightarrow> nat \<Rightarrow> public_key list \<Rightarrow>
    (public_key \<times> report_routing_service_provided) list" where
  "relay_reports W w ts len (k # k' # ks) =
     (if k' = k then []
      else [(k, \<lparr>report_timestamp = ts 0, report_paying_wallet = w, report_payload_size = len,
                 report_service_rate = per_routing_service (net_hopper W k), report_byte_rate = per_routing_byte (net_hopper W k)\<rparr>)])
     @ relay_reports W w (\<lambda>i. ts (Suc i)) len (k' # ks)"
| "relay_reports W w ts len ks = []"

lemma hops_along_Nil [simp]: "hops_along payer c [k] = []"
  by (simp add: hops_along_def tuple_windows_def)

lemma hops_along_Cons [simp]: "hops_along payer c (k # k' # ks) = live_hop_new k' (payer k) c # hops_along payer CHopper (k' # ks)"
proof -
  have "map (\<lambda>(i, c', n). live_hop_new n (payer c') (if i = 0 then c else CHopper)) (List.enumerate (Suc j) ws) =
      map (\<lambda>(i, c', n). live_hop_new n (payer c') (if i = 0 then CHopper else CHopper)) (List.enumerate j ws)" for j ws
    by (induction ws arbitrary: j) auto
  from this [of 0] show ?thesis by (simp add: hops_along_def tuple_windows_def)
qed

lemma live_hop_simps [simp]:
  "hop_public_key (live_hop_new k p c) = k" "hop_payer (live_hop_new k p c) = p" "hop_component (live_hop_new k p c) = c"
  by (simp_all add: live_hop_new_def)

lemma length_hops_along [simp]: "length (hops_along payer c ks) = length ks - 1"
  by (simp add: hops_along_def tuple_windows_def)

lemma end_key_hops_along: "ks \<noteq> [] \<Longrightarrow> end_key (hd ks) (hops_along payer c ks) = last ks"
  by (induction ks arbitrary: c rule: induct_list012) auto

lemma relays_along:
  assumes "\<forall>k. pays W k (payer k)" "\<forall>k \<in> set ks. k \<noteq> []" "ks \<noteq> []"
  shows "relays W (hd ks) (hops_along payer CHopper ks)"
  using assms(2,3) by (induction ks rule: induct_list012) (auto simp: assms(1))

lemma charges_along:
  assumes "\<forall>k. \<exists>p. payer k = Some p \<and> payer_wallet p = w" "ks \<noteq> []"
  shows "charges W ts len (hd ks) (hops_along payer CHopper ks) = relay_reports W w ts len ks"
  using assms(2)
proof (induction ks arbitrary: ts rule: induct_list012)
  case (3 k k' ks)
  obtain p where "payer k = Some p" "payer_wallet p = w" using assms(1) by blast
  with 3 show ?case by simp
qed simp_all

text \<open>A Node's payload cryptde for a component is the one of a key.\<close>

definition reads_for :: "(public_key \<Rightarrow> cryptde) \<Rightarrow> ('s, 'x) network \<Rightarrow> public_key \<Rightarrow> component \<Rightarrow> public_key \<Rightarrow> bool" where
  "reads_for node W k component key \<longleftrightarrow> key \<noteq> [] \<and>
     (case component of CProxyServer \<Rightarrow> alias_cryptde (net_hopper W k) | _ \<Rightarrow> main_cryptde (net_hopper W k)) = node key"

lemma deliver_request:
  assumes "services h = Some True" "migrate_payload fmt ClientRequestLite vd = Some (Inr x)" "expired_payload pkg = ClientRequest vd"
  shows "route_expired_package fmt h CProxyClient pkg True = Some [ToProxyClient (expired_with pkg x)]"
  using assms by (simp add: route_expired_package_def deliver_def)

lemma deliver_response:
  assumes "migrate_payload fmt ClientResponseLite vd = Some (Inr x)" "expired_payload pkg = ClientResponse vd"
  shows "route_expired_package fmt h CProxyServer pkg owns = Some [ToProxyServer (expired_with pkg x)]"
  using assms by (simp add: route_expired_package_def deliver_def)

lemma expired_with_simps [simp]:
  "expired_payload (expired_with pkg x) = x" "remaining_route (expired_with pkg x) = remaining_route pkg"
  by (simp_all add: expired_with_def)

context cipher
begin

text \<open>One way along a list of keys.\<close>

lemma leg:
  assumes W: "network_ok node W" and codec: "codec_ok (payload_codec (net_format W) kind)"
    and payer: "\<forall>k. pays W k (payer k)" "\<forall>k. \<exists>p. payer k = Some p \<and> payer_wallet p = w"
    and ks: "2 \<le> length ks" "\<forall>k \<in> set ks. k \<noteq> []"
    and route: "carries (cores_hop_codec (net_format W)) node (hd ks) (hops_along payer c ks @ final # rest) route"
    and final: "hop_component final = component" "component \<noteq> CHopper" "hop_payer final = payer (last ks)"
    and key: "reads_for node W (last ks) component key"
    and deliver: "\<And>pkg vd. migrate_payload (net_format W) kind vd = Some (Inr x) \<Longrightarrow> expired_payload pkg = message vd \<Longrightarrow>
      route_expired_package (net_format W) (net_hopper W (last ks)) component pkg True = Some [out (expired_with pkg x)]"
  obtains pkg e g where
    "make_package (net_format W) (node (hd ks)) kind message route x key = Some pkg"
    "arrives W ts (length ks - 2) (hd ks) pkg (relay_reports W w (\<lambda>i. ts (Suc i)) (length (incipient_payload pkg)) (tl ks)) (last ks) (out e)"
    "expired_payload e = x" "remaining_route e = drop (length ks - 1) route @ g"
proof -
  let ?fmt = "net_format W"
  from ks(1) obtain k0 k1 ks' where ks': "ks = k0 # k1 # ks'" by (cases ks rule: remdups_adj.cases) auto
  define hops where "hops = hops_along payer CHopper (k1 # ks')"
  obtain vd where vd: "versioned_data_new (payload_codec ?fmt kind) (payload_migrations ?fmt kind) x = Some vd"
      "vd_extract (payload_codec ?fmt kind) (key_order ?fmt) (payload_migrations ?fmt kind) vd = Some (Inr x, payload_migrations ?fmt kind)"
    by (rule extract_current [OF codec])
  obtain payload where payload: "encodex (message_codec ?fmt) (node k0) key (message vd) = Inr payload"
      "decodex (message_codec ?fmt) (node key) payload = Some (Inr (message vd))"
    using encodex_decodex [of "message_codec ?fmt" key k0 "message vd"] W key by (auto simp: network_ok_def reads_for_def)
  have r: "relays W k1 hops" using relays_along [OF payer(1), of "k1 # ks'"] ks ks' by (simp add: hops_def)
  have c: "carries (cores_hop_codec ?fmt) node k0 (live_hop_new k1 (payer k0) c # hops @ final # rest) route"
    using route by (simp add: ks' hops_def)
  have k1: "k1 \<noteq> []" using ks(2) ks' by simp
  obtain g ibcd lcp where sent: "send W ts (length hops) k0 \<lparr>incipient_route = route, incipient_payload = payload\<rparr> =
       Some (charges W (\<lambda>i. ts (Suc i)) (length payload) k1 hops, end_key k1 hops, ibcd)"
    and lcp: "decodex (lcp_codec ?fmt) (node (end_key k1 hops)) (ibcd_data ibcd) = Some (Inr lcp)"
    "lcp_payload lcp = payload" "lcp_route lcp = drop (Suc (length hops)) route @ g"
    by (rule send_relays [OF W c, unfolded live_hop_simps, OF k1 r])
  have at: "end_key k1 hops = last ks" "charges W (\<lambda>i. ts (Suc i)) (length payload) k1 hops = relay_reports W w (\<lambda>i. ts (Suc i)) (length payload) (k1 # ks')"
    using end_key_hops_along [of "k1 # ks'" payer CHopper] charges_along [OF payer(2), of "k1 # ks'"] by (simp_all add: hops_def ks')
  obtain p where p: "payer (last ks) = Some p" "payer_wallet p = w" "pays W (last ks) (Some p)" using payer by metis
  have "carries (cores_hop_codec ?fmt) node (last ks) (final # rest) (lcp_route lcp)"
    using carries_drop [of _ node k0 "live_hop_new k1 (payer k0) c # hops" "final # rest" route] c carries_append at(1)
    by (fastforce simp: lcp(3))
  from arrival_delivers [OF W lcp(1) [unfolded at(1)] this final(1,2) _ p(3)] final(3) p(1) payload(2) key
  have "inbound_at W now (last ks) ibcd = route_expired_package ?fmt (net_hopper W (last ks)) component
       \<lparr>immediate_neighbor = client_addr ibcd, paying_wallet = Some w, remaining_route = lcp_route lcp,
        expired_payload = message vd, payload_len = length payload\<rparr> True" for now
    by (simp add: lcp(2) p(2) reads_for_def)
  with that [of "\<lparr>incipient_route = route, incipient_payload = payload\<rparr>"] sent vd payload(1) at lcp(3) deliver [of vd] show thesis
    by (simp add: make_package_def incipient_new_def ks' hops_def migrate_payload_def arrives_def)
qed

end

section \<open>The round trip\<close>

text \<open>The network in which the payers of a wallet with a secret key are accepted.\<close>

definition accepts_payment :: "('s, 'x) network \<Rightarrow> u8 list \<Rightarrow> u8 list \<Rightarrow> bool" where
  "accepts_payment W sk contract \<longleftrightarrow> eth_ok (cores_eth (net_format W)) \<and>
     (\<forall>k. cde_digest (main_cryptde (net_hopper W k)) = create_digest (cores_eth (net_format W)) k contract \<and>
          WalletAddress (eth_secret_address (cores_eth (net_format W)) sk) |\<notin>| net_bans W k)"

lemma payers_accepted:
  assumes "accepts_payment W sk contract"
  obtains payer where "\<forall>k. payer_for (payment_of (net_format W) ids) (Some (WalletSecretKey sk)) (Some contract) k = Some (payer k)"
    "\<forall>k. pays W k (payer k)" "\<forall>k. \<exists>p. payer k = Some p \<and> payer_wallet p = WalletAddress (eth_secret_address (cores_eth (net_format W)) sk)"
proof -
  let ?eth = "cores_eth (net_format W)"
  have "\<exists>p. wallet_as_payer ?eth (WalletSecretKey sk) k contract = Some p \<and> payer_wallet p = WalletAddress (eth_secret_address ?eth sk) \<and>
      owns_secret_key ?eth p (create_digest ?eth k contract) = Some True" for k
    using assms as_payer_owns [of ?eth sk k contract] unfolding accepts_payment_def by metis
  then obtain p where p: "\<And>k. wallet_as_payer ?eth (WalletSecretKey sk) k contract = Some (p k)"
      "\<And>k. payer_wallet (p k) = WalletAddress (eth_secret_address ?eth sk)" "\<And>k. owns_secret_key ?eth (p k) (create_digest ?eth k contract) = Some True"
    by metis
  show thesis
  proof (rule that [of "\<lambda>k. Some (p k)"])
    show "\<forall>k. pays W k (Some (p k))"
      using assms p(2,3) by (simp add: pays_def accepts_payment_def is_delinquent_def is_banned_def as_address_wallet_def wallet_address_def)
  qed (simp_all add: payer_for_def payment_of_def p)
qed

lemma route_id_prefix: "route_id ids [c] cryptde = Some r \<Longrightarrow> route_id ids (c # rest) cryptde = Some r"
  by (simp add: route_id_def first_opt_def)

context cipher
begin

lemma request_leg:
  assumes W: "network_ok node W" and codec: "codec_ok (payload_codec (net_format W) ClientRequestLite)"
    and payer: "\<forall>k. pays W k (payer k)" "\<forall>k. \<exists>p. payer k = Some p \<and> payer_wallet p = w"
    and ks: "2 \<le> length ks" "\<forall>k \<in> set ks. k \<noteq> []"
    and route: "carries (cores_hop_codec (net_format W)) node (hd ks) (hops_along payer c ks @ final # rest) route"
    and final: "hop_component final = CProxyClient" "hop_payer final = payer (last ks)"
    and running: "services (net_hopper W (last ks)) = Some True"
  obtains pkg e g where
    "make_package (net_format W) (node (hd ks)) ClientRequestLite ClientRequest route x (last ks) = Some pkg"
    "arrives W ts (length ks - 2) (hd ks) pkg (relay_reports W w (\<lambda>i. ts (Suc i)) (length (incipient_payload pkg)) (tl ks)) (last ks) (ToProxyClient e)"
    "expired_payload e = x" "remaining_route e = drop (length ks - 1) route @ g"
proof -
  have "last ks \<in> set ks" using ks(1) by (intro last_in_set) auto
  then have reads: "reads_for node W (last ks) CProxyClient (last ks)" using W ks(2) by (auto simp: reads_for_def network_ok_def)
  show thesis
    by (rule leg [OF W codec payer ks route final(1) _ final(2) reads, where message = ClientRequest and out = ToProxyClient and x = x and ts = ts])
      (simp, erule (1) deliver_request [OF running], erule (3) that)
qed

lemma response_leg:
  assumes W: "network_ok node W" and codec: "codec_ok (payload_codec (net_format W) ClientResponseLite)"
    and payer: "\<forall>k. pays W k (payer k)" "\<forall>k. \<exists>p. payer k = Some p \<and> payer_wallet p = w"
    and ks: "2 \<le> length ks" "\<forall>k \<in> set ks. k \<noteq> []"
    and route: "carries (cores_hop_codec (net_format W)) node (hd ks) (hops_along payer c ks @ final # rest) route"
    and final: "hop_component final = CProxyServer" "hop_payer final = payer (last ks)"
    and own: "alias_cryptde (net_hopper W (last ks)) = node alias_key" "alias_key \<noteq> []"
  obtains pkg e g where
    "make_package (net_format W) (node (hd ks)) ClientResponseLite ClientResponse route x alias_key = Some pkg"
    "arrives W ts (length ks - 2) (hd ks) pkg (relay_reports W w (\<lambda>i. ts (Suc i)) (length (incipient_payload pkg)) (tl ks)) (last ks) (ToProxyServer e)"
    "expired_payload e = x" "remaining_route e = drop (length ks - 1) route @ g"
proof -
  have reads: "reads_for node W (last ks) CProxyServer alias_key" using own by (auto simp: reads_for_def)
  show thesis
    by (rule leg [OF W codec payer ks route final(1) _ final(2) reads, where message = ClientResponse and out = ToProxyServer and x = x and ts = ts])
      (simp, erule (1) deliver_response, erule (3) that)
qed

text \<open>The end of a route that carries one hop more and then a number.\<close>

lemma route_end:
  assumes "carries codec node k [hop] (drop n (cs @ [c]) @ g)" "length cs = Suc n" "route_id ids [c] (node k) = Some (Inr i)"
  obtains rest where "shift codec (drop n (cs @ [c]) @ g) (node k) = Some (Inr hop, rest)" "route_id ids rest (node k) = Some (Inr i)"
proof -
  have "length (drop n cs) = 1" using assms(2) by simp
  then obtain x where x: "drop n cs = [x]" unfolding One_nat_def length_Suc_conv by auto
  obtain r where "shift codec (drop n (cs @ [c]) @ g) (node k) = Some (Inr hop, tl (drop n (cs @ [c]) @ g) @ [r])"
    using shift_carries' [OF assms(1)] .
  with x assms(2) that [OF _ route_id_prefix [OF assms(3)], of "g @ [r]"] show thesis by simp
qed

end

lemma round_trip_made:
  assumes "cipher node" "network_ok node W" "codec_ok ids"
    and "\<forall>k. payer_for (payment_of (net_format W) ids) (Some (WalletSecretKey sk)) (Some contract) k = Some (payer k)"
    and "over \<noteq> []" "back_keys \<noteq> []" "hd back_keys = last over" "\<forall>k \<in> set over \<union> set back_keys. k \<noteq> []"
  obtains cs c where "round_trip (payment_of (net_format W) ids) (route_segment_new over r) (route_segment_new back_keys r')
        (node (hd over)) (Some (WalletSecretKey sk)) i (Some contract) = Some (Inr (cs @ [c]))"
    "carries (cores_hop_codec (net_format W)) node (hd over) (hops_along payer CHopper over @ hops_along payer r back_keys @ [last_hop payer r' back_keys]) cs"
    "length cs = length over + length back_keys - 1" "route_id ids [c] (node (hd over)) = Some (Inr i)"
proof -
  have codecs: "hop_codec (payment_of (net_format W) ids) = cores_hop_codec (net_format W)" "id_codec (payment_of (net_format W) ids) = ids"
    "codec_ok (cores_hop_codec (net_format W))" using assms(2) by (simp_all add: payment_of_def network_ok_def)
  have "hd over \<in> set over" using assms(5) by simp
  then have "hd over \<noteq> []" using assms(8) by blast
  note made = cipher.round_trip_carries [OF assms(1,4) _ _ assms(5-8) this, unfolded codecs(1,2), OF codecs(3) assms(3)]
  show thesis by (rule made) (erule (3) that)
qed

lemma round_trip_delivery_aux:
  assumes node: "cipher_ok node" and W: "network_ok node W" "accepts_payment W sk contract"
    and codecs: "codec_ok ids" "codec_ok (payload_codec (net_format W) ClientRequestLite)" "codec_ok (payload_codec (net_format W) ClientResponseLite)"
    and ks: "2 \<le> length over" "2 \<le> length back_keys" "hd back_keys = last over" "last back_keys = hd over" "\<forall>k \<in> set over \<union> set back_keys. k \<noteq> []"
    and ends: "services (net_hopper W (last over)) = Some True" "alias_cryptde (net_hopper W (hd over)) = node alias_key" "alias_key \<noteq> []"
  shows "\<exists>route. round_trip (payment_of (net_format W) ids) (route_segment_new over CProxyClient) (route_segment_new back_keys CProxyServer)
        (node (hd over)) (Some (WalletSecretKey sk)) route_number (Some contract) = Some (Inr route) \<and>
     (\<forall>request response ts ts'. \<exists>pkg e pkg' e' hop rest.
        make_package (net_format W) (node (hd over)) ClientRequestLite ClientRequest route request (last over) = Some pkg \<and>
        arrives W ts (length over - 2) (hd over) pkg
          (relay_reports W (WalletAddress (eth_secret_address (cores_eth (net_format W)) sk)) (\<lambda>i. ts (Suc i)) (length (incipient_payload pkg)) (tl over))
          (last over) (ToProxyClient e) \<and> expired_payload e = request \<and>
        make_package (net_format W) (node (last over)) ClientResponseLite ClientResponse (remaining_route e) response alias_key = Some pkg' \<and>
        arrives W ts' (length back_keys - 2) (last over) pkg'
          (relay_reports W (WalletAddress (eth_secret_address (cores_eth (net_format W)) sk)) (\<lambda>i. ts' (Suc i)) (length (incipient_payload pkg')) (tl back_keys))
          (hd over) (ToProxyServer e') \<and> expired_payload e' = response \<and>
        shift (cores_hop_codec (net_format W)) (remaining_route e') (node (hd over)) = Some (Inr hop, rest) \<and>
        route_id ids rest (node (hd over)) = Some (Inr route_number))"
    (is "\<exists>route. _ \<and> (\<forall>request response ts ts'. \<exists>pkg e pkg' e' hop rest. ?Q route request response ts ts' pkg e pkg' e' hop rest)")
proof -
  note C = cipher.intro [OF node]
  let ?fmt = "net_format W" and ?w = "WalletAddress (eth_secret_address (cores_eth (net_format W)) sk)"
  obtain payer where payer: "\<forall>k. payer_for (payment_of ?fmt ids) (Some (WalletSecretKey sk)) (Some contract) k = Some (payer k)"
    "\<forall>k. pays W k (payer k)" "\<forall>k. \<exists>p. payer k = Some p \<and> payer_wallet p = WalletAddress (eth_secret_address (cores_eth ?fmt) sk)"
    by (rule payers_accepted [OF W(2)])
  have ne: "over \<noteq> []" "back_keys \<noteq> []" and keys: "\<forall>k \<in> set over. k \<noteq> []" "\<forall>k \<in> set back_keys. k \<noteq> []" using ks(1,2,5) by auto
  obtain cs c where route: "round_trip (payment_of ?fmt ids) (route_segment_new over CProxyClient) (route_segment_new back_keys CProxyServer)
        (node (hd over)) (Some (WalletSecretKey sk)) route_number (Some contract) = Some (Inr (cs @ [c]))"
    and cs: "carries (cores_hop_codec ?fmt) node (hd over) (hops_along payer CHopper over @ hops_along payer CProxyClient back_keys @ [last_hop payer CProxyServer back_keys]) cs"
      "length cs = length over + length back_keys - 1" "route_id ids [c] (node (hd over)) = Some (Inr route_number)"
    by (rule round_trip_made [OF C W(1) codecs(1) payer(1) ne ks(3,5)])
  from ks(2) obtain b0 b1 bs where bks: "back_keys = b0 # b1 # bs" by (cases back_keys rule: remdups_adj.cases) auto
  define final rest where "final = live_hop_new b1 (payer b0) CProxyClient" and "rest = hops_along payer CHopper (b1 # bs) @ [last_hop payer CProxyServer back_keys]"
  have b: "hops_along payer CProxyClient back_keys @ [last_hop payer CProxyServer back_keys] = final # rest" by (simp add: bks final_def rest_def)
  have over_carries: "carries (cores_hop_codec ?fmt) node (hd over) (hops_along payer CHopper over @ final # rest) (cs @ [c])"
    using cs(1) unfolding b [symmetric] by (rule carries_append)
  have "hop_component final = CProxyClient" "hop_payer final = payer (last over)" using ks(3) by (simp_all add: final_def bks)
  note request_leg = cipher.request_leg [OF C W(1) codecs(2) payer(2,3) ks(1) keys(1) over_carries this ends(1)]
  show ?thesis
  proof (intro exI [of _ "cs @ [c]"] conjI allI)
    fix request response ts ts'
    obtain pkg e g where out: "make_package ?fmt (node (hd over)) ClientRequestLite ClientRequest (cs @ [c]) request (last over) = Some pkg"
      "arrives W ts (length over - 2) (hd over) pkg (relay_reports W ?w (\<lambda>i. ts (Suc i)) (length (incipient_payload pkg)) (tl over)) (last over) (ToProxyClient e)"
      "expired_payload e = request" and e: "remaining_route e = drop (length over - 1) (cs @ [c]) @ g"
      by (rule request_leg)
    have "carries (cores_hop_codec ?fmt) node (last over) (final # rest) (remaining_route e)"
      using carries_rest [OF over_carries, of g] by (simp only: e length_hops_along end_key_hops_along [OF ne(1)])
    then have b_carries: "carries (cores_hop_codec ?fmt) node (hd back_keys) (hops_along payer CProxyClient back_keys @ [last_hop payer CProxyServer back_keys]) (remaining_route e)"
      by (simp only: b ks(3))
    have l: "hop_component (last_hop payer CProxyServer back_keys) = CProxyServer" "hop_payer (last_hop payer CProxyServer back_keys) = payer (last back_keys)"
      by (simp_all add: last_hop_def)
    note response_leg = cipher.response_leg [OF C W(1) codecs(3) payer(2,3) ks(2) keys(2) b_carries l ends(2-3) [folded ks(4)], unfolded ks(3,4)]
    obtain pkg' e' g' where resp: "make_package ?fmt (node (last over)) ClientResponseLite ClientResponse (remaining_route e) response alias_key = Some pkg'"
      "arrives W ts' (length back_keys - 2) (last over) pkg' (relay_reports W ?w (\<lambda>i. ts' (Suc i)) (length (incipient_payload pkg')) (tl back_keys)) (hd over) (ToProxyServer e')"
      "expired_payload e' = response" and e': "remaining_route e' = drop (length back_keys - 1) (remaining_route e) @ g'"
      by (rule response_leg)
    obtain hop rest' where shifted: "shift (cores_hop_codec ?fmt) (remaining_route e') (node (hd over)) = Some (Inr hop, rest')"
      "route_id ids rest' (node (hd over)) = Some (Inr route_number)"
    proof -
      have rest: "remaining_route e' = drop (length over + length back_keys - 2) (cs @ [c]) @ g @ g'"
        using cs(2) ks(1,2) by (simp add: e e' numeral_2_eq_2 add.commute)
      have "carries (cores_hop_codec ?fmt) node (hd over) [last_hop payer CProxyServer back_keys] (remaining_route e')"
        using carries_rest [OF b_carries, of g'] by (simp only: e' length_hops_along end_key_hops_along [OF ne(2)] ks(4))
      moreover have "length cs = Suc (length over + length back_keys - 2)" using cs(2) ks(1,2) by simp
      ultimately show thesis using cs(3) that unfolding rest by (rule cipher.route_end [OF C])
    qed
    show "\<exists>pkg e pkg' e' hop rest. ?Q (cs @ [c]) request response ts ts' pkg e pkg' e' hop rest"
      by (intro exI conjI) (rule out resp shifted)+
  qed (rule route)
qed

text \<open>
  C9: a round trip through the network.  A Node that can pay makes a route over a list of
  Nodes and back.  A request that it gives to its Hopper with this route is relayed along
  the Nodes, each of which reports the service to its Accountant under the paying wallet, and
  comes to the Proxy Client of the last one as it was sent.  A response that this Node gives
  to its Hopper with what remains of the route is relayed back in the same way, comes to the
  Proxy Server of the Node that made the route, and shows it the number of the route.
\<close>

theorem round_trip_delivery:
  assumes node: "cipher_ok node" and W: "network_ok node W" "accepts_payment W sk contract"
    and codecs: "codec_ok ids" "codec_ok (payload_codec (net_format W) ClientRequestLite)" "codec_ok (payload_codec (net_format W) ClientResponseLite)"
    and ks: "2 \<le> length over" "2 \<le> length back_keys" "hd back_keys = last over" "last back_keys = hd over" "\<forall>k \<in> set over \<union> set back_keys. k \<noteq> []"
    and ends: "services (net_hopper W (last over)) = Some True" "alias_cryptde (net_hopper W (hd over)) = node alias_key" "alias_key \<noteq> []"
  shows "\<exists>route. round_trip (payment_of (net_format W) ids) (route_segment_new over CProxyClient) (route_segment_new back_keys CProxyServer)
        (node (hd over)) (Some (WalletSecretKey sk)) route_number (Some contract) = Some (Inr route) \<and>
     (\<forall>request response ts ts'. \<exists>pkg e pkg' e' hop rest.
        make_package (net_format W) (node (hd over)) ClientRequestLite ClientRequest route request (last over) = Some pkg \<and>
        arrives W ts (length over - 2) (hd over) pkg
          (relay_reports W (WalletAddress (eth_secret_address (cores_eth (net_format W)) sk)) (\<lambda>i. ts (Suc i)) (length (incipient_payload pkg)) (tl over))
          (last over) (ToProxyClient e) \<and> expired_payload e = request \<and>
        make_package (net_format W) (node (last over)) ClientResponseLite ClientResponse (remaining_route e) response alias_key = Some pkg' \<and>
        arrives W ts' (length back_keys - 2) (last over) pkg'
          (relay_reports W (WalletAddress (eth_secret_address (cores_eth (net_format W)) sk)) (\<lambda>i. ts' (Suc i)) (length (incipient_payload pkg')) (tl back_keys))
          (hd over) (ToProxyServer e') \<and> expired_payload e' = response \<and>
        shift (cores_hop_codec (net_format W)) (remaining_route e') (node (hd over)) = Some (Inr hop, rest) \<and>
        route_id ids rest (node (hd over)) = Some (Inr route_number))"
  using assms by (rule round_trip_delivery_aux)

section \<open>No free relays\<close>

lemma deliver_not_sent: "deliver fmt kind vd recipient pkg = Some outs \<Longrightarrow> (\<And>e. ToDispatcher m \<noteq> recipient e) \<Longrightarrow> ToDispatcher m \<notin> set outs"
  by (auto simp: deliver_def split: Option.bind_split_asm sum.split_asm)

lemma route_expired_package_not_sent:
  assumes "route_expired_package fmt h component pkg owns = Some outs"
  shows "ToDispatcher m \<notin> set outs"
  using assms unfolding route_expired_package_def
  by (auto split: component.splits message_type.splits if_splits dest!: deliver_not_sent [of _ _ _ _ _ _ m] simp: bind_eq_Some_conv)

lemma route_data_internally_not_sent:
  assumes "route_data_internally fmt bans h hop neighbor lcp ibcd = Some outs"
  shows "ToDispatcher m \<notin> set outs"
proof (cases "hop_component hop = CHopper")
  case True
  with assms show ?thesis
    by (auto simp: route_data_internally_def route_data_around_again_def split: Option.bind_split_asm sum.split_asm)
next
  case False
  with assms show ?thesis
    by (auto simp: route_data_internally_def route_data_to_peripheral_component_def bind_eq_Some_conv
        split: if_splits option.splits dest: route_expired_package_not_sent)
qed

lemma route_data_externally_paid:
  assumes "route_data_externally fmt bans now h lcp payer_opt last_data = Some outs" "ToDispatcher m \<in> set outs"
  obtains p where "payer_opt = Some p" "owns_secret_key (cores_eth fmt) p (cde_digest (main_cryptde h)) = Some True"
    "is_delinquent (cores_eth fmt) bans p = Some False"
    "outs = [ToAccountant \<lparr>report_timestamp = now, report_paying_wallet = payer_wallet p, report_payload_size = length (lcp_payload lcp),
       report_service_rate = per_routing_service h, report_byte_rate = per_routing_byte h\<rparr>, ToDispatcher m]"
  using assms by (auto simp: route_data_externally_def Let_def split: option.split_asm if_splits Option.bind_split_asm sum.split_asm)

text \<open>
  C10: a Node relays for pay only.  Whatever data comes in, if the Hopper sends anything on
  to another Node then the data was a package for this Node whose top hop has a payer; the
  payer proved to own the key of a wallet that is not banned; and the service was first
  reported to the Accountant, under that wallet and with the length of the payload.
\<close>

theorem no_free_relay:
  assumes "hopper_inbound fmt bans now h ibcd = Some outs" "ToDispatcher m \<in> set outs"
  shows "\<exists>lcp hop p. decodex (lcp_codec fmt) (main_cryptde h) (ibcd_data ibcd) = Some (Inr lcp) \<and>
    next_hop (cores_hop_codec fmt) (lcp_route lcp) (main_cryptde h) = Some (Inr hop) \<and>
    hop_component hop = CHopper \<and> hop_public_key hop \<noteq> cde_public_key (main_cryptde h) \<and> hop_payer hop = Some p \<and>
    owns_secret_key (cores_eth fmt) p (cde_digest (main_cryptde h)) = Some True \<and> is_delinquent (cores_eth fmt) bans p = Some False \<and>
    outs = [ToAccountant \<lparr>report_timestamp = now, report_paying_wallet = payer_wallet p, report_payload_size = length (lcp_payload lcp),
       report_service_rate = per_routing_service h, report_byte_rate = per_routing_byte h\<rparr>, ToDispatcher m]"
proof -
  obtain lcp hop where lcp: "decodex (lcp_codec fmt) (main_cryptde h) (ibcd_data ibcd) = Some (Inr lcp)"
      "next_hop (cores_hop_codec fmt) (lcp_route lcp) (main_cryptde h) = Some (Inr hop)"
    and r: "route_data fmt bans now h (client_addr ibcd) hop lcp (ibcd_last_data ibcd) (clone_but_data now ibcd) = Some outs"
    using assms by (auto simp: hopper_inbound_def route_ibcd_def split: Option.bind_split_asm sum.split_asm)
  have ext: "hop_component hop = CHopper" "hop_public_key hop \<noteq> cde_public_key (main_cryptde h)"
    using r assms(2)
    by (auto simp: route_data_def is_destined_for_here_def split: if_splits dest: route_data_internally_not_sent [where m = m])
  with r have "route_data_externally fmt bans now h lcp (hop_payer hop) (ibcd_last_data ibcd) = Some outs"
    by (simp add: route_data_def is_destined_for_here_def)
  from route_data_externally_paid [OF this assms(2)] lcp ext show ?thesis by metis
qed

section \<open>An example network\<close>

text \<open>
  Every Node uses \<open>CryptDENull\<close>, CBOR is the codec of a countable type, payloads are
  numbers, and a signature is the key that made it.
\<close>

instance component :: countable by countable_datatype
instance wallet :: countable by countable_datatype
instance data_version :: countable by countable_datatype

instance versioned_data_ext :: (countable) countable
  by (rule countable_classI [of "\<lambda>x. to_nat (vd_version x, vd_bytes x, versioned_data.more x)"]) simp

instance message_type :: countable by countable_datatype

instance payer_ext :: (countable, countable) countable
  by (rule countable_classI [of "\<lambda>p. to_nat (payer_wallet p, payer_proof p, payer.more p)"]) simp

instance live_hop_ext :: (countable, countable) countable
  by (rule countable_classI [of "\<lambda>h. to_nat (hop_public_key h, hop_payer h, hop_component h, live_hop.more h)"]) simp

instance live_cores_package_ext :: (countable) countable
  by (rule countable_classI [of "\<lambda>p. to_nat (lcp_version p, lcp_route p, lcp_payload p, live_cores_package.more p)"]) simp

definition sample_eth :: "u8 list eth_ops" where
  "sample_eth = \<lparr>eth_secret_address = (\<lambda>sk. sk), eth_public_address = (\<lambda>pk. pk), eth_sign = (\<lambda>sk d. Some sk),
     eth_recover = (\<lambda>s d. Some s), eth_verify = (\<lambda>pk s d. Some (pk = s)), keccak256 = (\<lambda>d. d)\<rparr>"

definition sample_node :: "public_key \<Rightarrow> cryptde" where
  "sample_node = null_from (\<lambda>k. create_digest sample_eth k [7])"

definition sample_format :: "(u8 list, nat) cores_format" where
  "sample_format = \<lparr>cores_hop_codec = unary_codec, lcp_codec = unary_codec, message_codec = unary_codec, payload_codec = (\<lambda>_. unary_codec),
     payload_migrations = (\<lambda>_. migrations_new (DataVersion 0 1)), cores_eth = sample_eth, key_order = sorted_list_of_fset\<rparr>"

definition sample_network :: "(u8 list, nat) network" where
  "sample_network = \<lparr>net_format = sample_format,
     net_hopper = (\<lambda>k. hopper_bind True (hopper_new (sample_node k) (sample_node (9 # k)) 10 1 True)),
     net_bans = (\<lambda>_. {|WalletAddress [99]|}),
     net_arrival = (\<lambda>k m. \<lparr>ibcd_timestamp = 0, client_addr = (V4 0x01020304, 5000), reception_port = None, ibcd_last_data = transmit_last_data m,
       is_clandestine = True, ibcd_sequence_number = transmit_sequence_number m, ibcd_data = transmit_data m\<rparr>)\<rparr>"

lemma sample_node_ok: "cipher_ok sample_node"
  unfolding sample_node_def by (rule null_cipher)

lemma sample_digest: "cde_digest (sample_node k) = create_digest sample_eth k [7]"
  by (simp add: sample_node_def null_from_def null_as_cryptde_def null_set_key_pair_def)

lemma sample_network_ok: "network_ok sample_node sample_network" "accepts_payment sample_network [5] [7]"
  by (simp_all add: network_ok_def sample_network_def sample_format_def hopper_bind_def hopper_new_def unary_codec_ok
      accepts_payment_def eth_ok_def sample_eth_def sample_digest)

text \<open>The Nodes 2 and 4 relay a request and its response between 1 and 3, and both report it under the wallet of 1.\<close>

theorem round_trip_delivery_witness:
  "\<exists>route pkg e pkg' e'. round_trip (payment_of sample_format unary_codec) (route_segment_new [[1], [2], [3]] CProxyClient)
      (route_segment_new [[3], [4], [1]] CProxyServer) (sample_node [1]) (Some (WalletSecretKey [5])) 77 (Some [7]) = Some (Inr route) \<and>
    make_package sample_format (sample_node [1]) ClientRequestLite ClientRequest route 42 [3] = Some pkg \<and>
    arrives sample_network (\<lambda>i. i) 1 [1] pkg
      [([2], \<lparr>report_timestamp = 1, report_paying_wallet = WalletAddress [5], report_payload_size = length (incipient_payload pkg),
              report_service_rate = 10, report_byte_rate = 1\<rparr>)] [3] (ToProxyClient e) \<and> expired_payload e = 42 \<and>
    arrives sample_network (\<lambda>i. i) 1 [3] pkg'
      [([4], \<lparr>report_timestamp = 1, report_paying_wallet = WalletAddress [5], report_payload_size = length (incipient_payload pkg'),
              report_service_rate = 10, report_byte_rate = 1\<rparr>)] [1] (ToProxyServer e') \<and> expired_payload e' = 43"
proof -
  have fmt: "net_format sample_network = sample_format" "cores_eth sample_format = sample_eth" "eth_secret_address sample_eth [5] = [5]"
    "\<And>k. services (net_hopper sample_network k) = Some True" "\<And>k. alias_cryptde (net_hopper sample_network k) = sample_node (9 # k)"
    "\<And>k. per_routing_service (net_hopper sample_network k) = 10" "\<And>k. per_routing_byte (net_hopper sample_network k) = 1"
    by (simp_all add: sample_network_def sample_format_def hopper_bind_def hopper_new_def sample_eth_def)
  have codecs: "codec_ok (payload_codec sample_format kind)" for kind by (simp add: sample_format_def unary_codec_ok)
  from round_trip_delivery [OF sample_node_ok sample_network_ok unary_codec_ok, where over = "[[1], [2], [3]]" and back_keys = "[[3], [4], [1]]"
      and alias_key = "[9, 1]" and route_number = 77, unfolded fmt, OF codecs codecs]
  show ?thesis by (auto simp: fmt) metis
qed

theorem no_free_relay_witness:
  "\<exists>ibcd m outs. hopper_inbound sample_format {|WalletAddress [99]|} 8 (net_hopper sample_network [2]) ibcd = Some outs \<and> ToDispatcher m \<in> set outs \<and>
     (\<exists>r. outs = [ToAccountant r, ToDispatcher m] \<and> report_paying_wallet r = WalletAddress [5] \<and> report_payload_size r = 3)"
proof -
  let ?W = sample_network
  define p where "p = \<lparr>payer_wallet = WalletAddress [5], payer_proof = [5 :: u8]\<rparr>"
  define hop where "hop = live_hop_new [3] (Some p) CHopper"
  note C = cipher.intro [OF sample_node_ok]
  have fmt: "net_format ?W = sample_format" "net_bans ?W k = {|WalletAddress [99]|}" "lcp_codec sample_format = unary_codec" "cores_hop_codec sample_format = unary_codec"
    "cores_eth sample_format = sample_eth" "main_cryptde (net_hopper ?W k) = sample_node k" for k
    by (simp_all add: sample_network_def sample_format_def hopper_bind_def hopper_new_def)
  obtain c where c: "decodex unary_codec (sample_node [2]) c = Some (Inr hop)"
    using cipher.encodex_decodex [OF C unary_codec_ok, of "[2]" "[1]" hop] by auto
  define lcp where "lcp = \<lparr>lcp_version = (0, 0, 0), lcp_route = [c], lcp_payload = [1, 2, 3]\<rparr>"
  obtain d where d: "decodex unary_codec (sample_node [2]) d = Some (Inr lcp)"
    using cipher.encodex_decodex [OF C unary_codec_ok, of "[2]" "[1]" lcp] by auto
  define ibcd where "ibcd = \<lparr>ibcd_timestamp = 0, client_addr = (V4 0x01020304, 5000), reception_port = None, ibcd_last_data = False,
    is_clandestine = True, ibcd_sequence_number = None, ibcd_data = d\<rparr>"
  have "pays ?W [2] (Some p)"
    by (simp add: pays_def fmt p_def sample_digest owns_secret_key_def is_delinquent_def is_banned_def as_address_wallet_def wallet_address_def) (simp add: sample_eth_def wallet_address_def)
  then have r: "relays ?W [2] [hop]" by (simp add: hop_def)
  have carried: "carries (cores_hop_codec (net_format ?W)) sample_node [2] [hop] (lcp_route lcp)" by (simp add: fmt lcp_def c)
  have arrived: "decodex (lcp_codec (net_format ?W)) (sample_node [2]) (ibcd_data ibcd) = Some (Inr lcp)" by (simp add: fmt ibcd_def d)
  have "\<exists>rep m. inbound_at ?W 8 [2] ibcd = Some [ToAccountant rep, ToDispatcher m]"
    by (rule cipher.relay_inbound [OF C sample_network_ok(1) arrived carried r, where now = 8]) (simp add: hop_def)
  then obtain m rep where out: "hopper_inbound sample_format {|WalletAddress [99]|} 8 (net_hopper ?W [2]) ibcd = Some [ToAccountant rep, ToDispatcher m]"
    by (auto simp: fmt inbound_at_def)
  have sent: "(ToDispatcher m :: nat hopper_output) \<in> set [ToAccountant rep, ToDispatcher m]" by simp
  obtain lcp' hop' p' where paid: "decodex (lcp_codec sample_format) (sample_node [2]) (ibcd_data ibcd) = Some (Inr lcp')"
      "next_hop (cores_hop_codec sample_format) (lcp_route lcp') (sample_node [2]) = Some (Inr hop')" "hop_payer hop' = Some p'"
      "([ToAccountant rep, ToDispatcher m] :: nat hopper_output list) = [ToAccountant \<lparr>report_timestamp = 8, report_paying_wallet = payer_wallet p',
         report_payload_size = length (lcp_payload lcp'), report_service_rate = per_routing_service (net_hopper ?W [2]),
         report_byte_rate = per_routing_byte (net_hopper ?W [2])\<rparr>, ToDispatcher m]"
    using no_free_relay [OF out sent] unfolding fmt(6) by (elim exE conjE) (erule (3) that)
  with d c have "report_paying_wallet rep = WalletAddress [5]" "report_payload_size rep = 3"
    by (auto simp: fmt ibcd_def lcp_def next_hop_def hop_decode_def hop_def p_def)
  with out show ?thesis by fastforce
qed

end
