(* ===== verification/Gossip_Acceptance.thy ===== *)
theory Gossip_Acceptance
  imports Gossip_Acceptor
begin

text \<open>
  What the handlers of incoming gossip do to the database.  Under an invariant that they
  keep, and that makes every \<open>expect\<close> of the handlers succeed, no gossip makes the
  acceptor panic unless it repeats a key; a gossip changes the record of another Node only
  to what that Node signed in a later version, and adds at most one neighbor to the local
  Node.
\<close>

section \<open>The invariant of the neighborhood\<close>

text \<open>
  Every neighbor of the local Node is another Node of the database with a known address,
  and the local Node knows its own address if it accepts connections.
\<close>

definition has_addr :: "neighborhood_database \<Rightarrow> public_key \<Rightarrow> bool" where
  "has_addr db k \<longleftrightarrow> (\<exists>nr. node_by_key db k = Some nr \<and> node_addr_opt nr \<noteq> None)"

definition local_ok :: "neighborhood_database \<Rightarrow> node_record \<Rightarrow> bool" where
  "local_ok db rt \<longleftrightarrow> (accepts_connections rt \<longrightarrow> node_addr_opt rt \<noteq> None) \<and>
     (\<forall>k. k |\<in>| half_neighbor_keys rt \<longrightarrow> k \<noteq> this_node db \<and> has_addr db k)"

definition neighborhood_ok :: "neighborhood_database \<Rightarrow> bool" where
  "neighborhood_ok db \<longleftrightarrow> db_ok db \<and> (\<forall>rt. root db = Some rt \<longrightarrow> local_ok db rt)"

lemma neighborhood_okE:
  assumes "neighborhood_ok db"
  obtains rt where "db_ok db" "root db = Some rt" "public_key rt = this_node db" "local_ok db rt"
  using assms db_ok_root unfolding neighborhood_ok_def by blast

lemma neighborhood_okI: "db_ok db \<Longrightarrow> root db = Some rt \<Longrightarrow> local_ok db rt \<Longrightarrow> neighborhood_ok db"
  by (simp add: neighborhood_ok_def)

section \<open>Learning about other Nodes\<close>

text \<open>
  The record of a Node after gossip about it: it is the one the Node signed, and if there
  was a record before, the version is later and rate pack and address are kept.
\<close>

definition learned :: "accessible_gossip_record \<Rightarrow> node_record option \<Rightarrow> node_record \<Rightarrow> bool" where
  "learned agr old new \<longleftrightarrow> inner new = agr_inner agr \<and> signed_gossip new = agr_signed_gossip agr \<and>
     signature new = agr_signature agr \<and>
     (\<forall>nr. old = Some nr \<longrightarrow> version nr < version new \<and> inner_rate_pack (inner new) = inner_rate_pack (inner nr) \<and>
        (node_addr_opt nr \<noteq> None \<longrightarrow> node_addr_opt new = node_addr_opt nr))"

definition learns_at :: "accessible_gossip_record list \<Rightarrow> public_key \<Rightarrow> node_record option \<Rightarrow> node_record option \<Rightarrow> bool" where
  "learns_at agrs k old new_opt \<longleftrightarrow> new_opt = old \<or>
     (\<exists>agr new. agr \<in> set agrs \<and> agr_key agr = k \<and> new_opt = Some new \<and> learned agr old new)"

definition learns :: "accessible_gossip_record list \<Rightarrow> neighborhood_database \<Rightarrow> neighborhood_database \<Rightarrow> bool" where
  "learns agrs db db' \<longleftrightarrow> this_node db' = this_node db \<and> root db' = root db \<and>
     (\<forall>k. learns_at agrs k (node_by_key db k) (node_by_key db' k))"

lemma learned_trans: "learned agr1 old mid \<Longrightarrow> learned agr2 (Some mid) new \<Longrightarrow> learned agr2 old new"
  by (fastforce simp: learned_def)

lemma learns_at_trans: "learns_at agrs k a b \<Longrightarrow> learns_at agrs k b c \<Longrightarrow> learns_at agrs k a c"
  unfolding learns_at_def using learned_trans by blast

lemma learns_refl [simp]: "learns agrs db db"
  by (simp add: learns_def learns_at_def)

lemma learns_trans: "learns agrs a b \<Longrightarrow> learns agrs b c \<Longrightarrow> learns agrs a c"
  unfolding learns_def using learns_at_trans by metis

lemma learns_mono: "learns agrs db db' \<Longrightarrow> set agrs \<subseteq> set agrs' \<Longrightarrow> learns agrs' db db'"
  unfolding learns_def learns_at_def by blast

lemma has_addr_learns: "learns agrs db db' \<Longrightarrow> has_addr db k \<Longrightarrow> has_addr db' k"
  unfolding learns_def learns_at_def learned_def has_addr_def by (metis option.sel option.distinct(1))

lemma neighborhood_ok_learns: "neighborhood_ok db \<Longrightarrow> db_ok db' \<Longrightarrow> learns agrs db db' \<Longrightarrow> neighborhood_ok db'"
  using has_addr_learns [of agrs db db'] by (auto simp: neighborhood_ok_def learns_def local_ok_def)

subsection \<open>A new Node\<close>

lemma this_node_add_arbitrary [simp]: "this_node (add_arbitrary_node db nr) = this_node db"
  by (simp add: add_arbitrary_node_def Let_def split: option.split)

lemma node_by_key_add_arbitrary [simp]:
  "node_by_key (add_arbitrary_node db nr) k = (if k = public_key nr then Some nr else node_by_key db k)"
  by (simp add: add_arbitrary_node_def node_by_key_def Let_def split: option.split)

definition ports_ok :: "node_addr option \<Rightarrow> bool" where
  "ports_ok addr_opt \<longleftrightarrow> (\<forall>a. addr_opt = Some a \<longrightarrow> addr_ports a \<noteq> [])"

lemma add_node_fresh:
  assumes "node_by_key db (public_key nr) = None" "ports_ok (node_addr_opt nr)"
  shows "add_node db nr = (Inr (public_key nr), add_arbitrary_node db nr)"
  using assms by (auto simp: add_node_def check_for_ports_def check_for_collision_def keys_iff ports_ok_def split: option.split)

text \<open>When the preferences cannot make the assignment of an undesirability overflow.\<close>

definition prefs_ok :: "user_exit_preferences option \<Rightarrow> bool" where
  "prefs_ok prefs_opt \<longleftrightarrow> (\<forall>prefs locs loc. prefs_opt = Some prefs \<longrightarrow> locations_opt prefs = Some locs \<longrightarrow> loc \<in> set locs \<longrightarrow>
     1 \<le> priority loc \<and> priority loc \<le> 4294968)"

lemma calculate_ok:
  assumes "1 \<le> p" "p \<le> 4294968"
  shows "calculate_country_undesirability (of_nat p) \<noteq> None"
proof -
  have p: "unat (of_nat p :: u32) = p" unfolding unat_of_nat by (rule mod_less) (use assms in simp)
  have one: "1 \<le> (of_nat p :: u32)" using assms p by (simp add: word_le_nat_alt)
  then have "unat (of_nat p - 1 :: u32) = p - 1" using p by (simp add: unat_sub)
  then have "unat (1000 :: u32) * unat (of_nat p - 1 :: u32) < 2 ^ LENGTH(32)" using assms by simp
  with one show ?thesis
    by (simp add: calculate_country_undesirability_def checked_sub_def checked_mul_def COUNTRY_UNDESIRABILITY_FACTOR_def)
qed

lemma assign_for_locations_ok:
  assumes "\<forall>loc \<in> set locs. 1 \<le> priority loc \<and> priority loc \<le> 4294968"
  shows "\<exists>u. assign_for_locations prefs code locs nr = Some (set_undesirability u nr)"
  using assms
proof (induction locs arbitrary: nr)
  case Nil
  have "set_undesirability (country_undesirability (metadata nr)) nr = nr" by (simp add: set_undesirability_def)
  then show ?case by (auto intro: exI [of _ "country_undesirability (metadata nr)"])
next
  case (Cons loc locs)
  have again: "set_undesirability u (set_undesirability v r) = set_undesirability u r" for u v r
    by (simp add: set_undesirability_def)
  obtain c where "calculate_country_undesirability (of_nat (priority loc)) = Some c"
    using Cons.prems calculate_ok [of "priority loc"] by auto
  moreover have "\<exists>u. assign_for_locations prefs code locs (set_undesirability v nr) = Some (set_undesirability u nr)" for v
    using Cons.IH [of "set_undesirability v nr"] Cons.prems by (auto simp: again)
  ultimately show ?case using Cons.prems Cons.IH [of nr] by (auto simp: again)
qed

lemma assign_preferences_ok:
  assumes "prefs_ok prefs_opt"
  shows "\<exists>u. assign_preferences prefs_opt nr = Some (set_undesirability u nr)"
proof -
  have same: "\<exists>u. Some nr = Some (set_undesirability u nr)"
    by (rule exI [of _ "country_undesirability (metadata nr)"]) (simp add: set_undesirability_def)
  show ?thesis
    using assms same
    by (auto simp: assign_preferences_def assign_nodes_country_undesirability_def prefs_ok_def Let_def split: option.split
        intro!: assign_for_locations_ok)
qed

lemma set_undesirability_simps [simp]:
  "public_key (set_undesirability u nr) = public_key nr" "node_addr_opt (set_undesirability u nr) = node_addr_opt nr"
  "inner (set_undesirability u nr) = inner nr" "signed_gossip (set_undesirability u nr) = signed_gossip nr"
  "signature (set_undesirability u nr) = signature nr"
  by (simp_all add: set_undesirability_def public_key_def node_addr_opt_def)

definition finder_total :: "country_code_finder \<Rightarrow> bool" where
  "finder_total finder \<longleftrightarrow> (\<forall>ip. \<exists>c. find_country finder ip = Some c)"

lemma record_from_agr_ok:
  assumes "finder_total finder"
  obtains nr where "record_from_agr finder now agr = Some nr" "inner nr = agr_inner agr"
    "node_addr_opt nr = agr_node_addr_opt agr" "signed_gossip nr = agr_signed_gossip agr" "signature nr = agr_signature agr"
proof -
  have "get_node_location finder ip_opt \<noteq> None" for ip_opt
  proof (cases ip_opt)
    case (Some ip)
    obtain c where "find_country finder ip = Some c" using assms unfolding finder_total_def by blast
    with Some show ?thesis by (simp add: get_node_location_def)
  qed (simp add: get_node_location_def)
  then obtain loc where "get_node_location finder (map_option addr_ip (agr_node_addr_opt agr)) = Some loc" by blast
  then show ?thesis using that by (simp add: record_from_agr_def node_addr_opt_def)
qed

text \<open>Creating the record of a new Node, assigning preferences and adding it.\<close>

lemma learn_new_node:
  assumes ok: "neighborhood_ok db" and env: "finder_total (env_finder env)" "prefs_ok prefs_opt"
    and new: "node_by_key db (agr_key agr) = None" "ports_ok (agr_node_addr_opt agr)"
  obtains nr0 nr db' where "record_from_agr (env_finder env) now agr = Some nr0" "assign_preferences prefs_opt nr0 = Some nr"
    "add_node db nr = (Inr (agr_key agr), db')" "db' = add_arbitrary_node db nr" "public_key nr = agr_key agr"
    "node_addr_opt nr = agr_node_addr_opt agr" "neighborhood_ok db'" "learns [agr] db db'"
proof -
  obtain nr0 where r: "record_from_agr (env_finder env) now agr = Some nr0" "inner nr0 = agr_inner agr"
    "node_addr_opt nr0 = agr_node_addr_opt agr" "signed_gossip nr0 = agr_signed_gossip agr" "signature nr0 = agr_signature agr"
    by (rule record_from_agr_ok [OF env(1)])
  obtain u where u: "assign_preferences prefs_opt nr0 = Some (set_undesirability u nr0)"
    using assign_preferences_ok [OF env(2)] by blast
  define nr where "nr = set_undesirability u nr0"
  have nr: "public_key nr = agr_key agr" "node_addr_opt nr = agr_node_addr_opt agr"
    using r by (simp_all add: nr_def public_key_def agr_key_def)
  have add: "add_node db nr = (Inr (agr_key agr), add_arbitrary_node db nr)"
    using add_node_fresh [of db nr] new nr by simp
  obtain rt where "db_ok db" "root db = Some rt" by (rule neighborhood_okE [OF ok])
  then have dok: "db_ok (add_arbitrary_node db nr)" using keeps_add_node [of db nr] add by simp
  have "agr_key agr \<noteq> this_node db" using \<open>root db = Some rt\<close> new(1) by (auto simp: root_def)
  then have "learns [agr] db (add_arbitrary_node db nr)"
    using new(1) nr r by (auto simp: learns_def learns_at_def learned_def nr_def root_def)
  with that r(1) u nr add dok neighborhood_ok_learns [OF ok dok] show thesis unfolding nr_def by blast
qed

subsection \<open>A later version\<close>

lemma record_update_ok:
  assumes "record_update now nr agr = (Inr r, nr')" "version nr < inner_version (agr_inner agr)"
  shows "learned agr (Some nr) nr'" "public_key nr' = agr_key agr"
    "node_addr_opt nr' = (if node_addr_opt nr = None then agr_node_addr_opt agr else node_addr_opt nr)"
  using assms
  by (auto simp: record_update_def Let_def learned_def version_def node_addr_opt_def public_key_def agr_key_def
      split: if_splits option.splits)

lemma record_update_error: "record_update now nr agr = (Inl e, nr') \<Longrightarrow> nr' = nr"
  by (auto simp: record_update_def Let_def split: if_splits option.splits)

lemma node_by_key_replace:
  "node_by_key (db\<lparr>by_public_key := fmupd k nr (by_public_key db)\<rparr>) k' = (if k' = k then Some nr else node_by_key db k')"
  by (simp add: node_by_key_def)

lemma node_by_key_mut_same: "node_by_key db k = Some nr \<Longrightarrow> node_by_key_mut (\<lambda>_. nr) db k = Some db"
proof -
  assume a: "node_by_key db k = Some nr"
  then have "fmupd k nr (by_public_key db) = by_public_key db" by (intro fmap_ext) (auto simp: node_by_key_def)
  with a show ?thesis by (simp add: node_by_key_mut_def node_by_key_def)
qed

lemma learn_update:
  assumes ok: "neighborhood_ok db" and nr: "node_by_key db (agr_key agr) = Some nr"
    and later: "version nr < inner_version (agr_inner agr)" and other: "agr_key agr \<noteq> this_node db"
    and upd: "record_update now nr agr = (Inr r, nr')"
  obtains db' where "node_by_key_mut (\<lambda>_. nr') db (agr_key agr) = Some db'" "neighborhood_ok db'" "learns [agr] db db'"
    "node_by_key db' (agr_key agr) = Some nr'"
proof -
  define db' where "db' = db\<lparr>by_public_key := fmupd (agr_key agr) nr' (by_public_key db)\<rparr>"
  have mut: "node_by_key_mut (\<lambda>_. nr') db (agr_key agr) = Some db'"
    using nr by (simp add: node_by_key_mut_def node_by_key_def db'_def)
  have "db_ok db" using ok by (simp add: neighborhood_ok_def)
  from keeps_update [OF this nr, of now agr] have dok: "db_ok db'" by (simp add: upd db'_def)
  have at: "node_by_key db' k = (if k = agr_key agr then Some nr' else node_by_key db k)" for k
    unfolding db'_def by (rule node_by_key_replace)
  have "learns [agr] db db'"
    unfolding learns_def learns_at_def root_def
    using at nr other record_update_ok(1) [OF upd later] by (auto simp: db'_def)
  with that mut dok neighborhood_ok_learns [OF ok dok] at show thesis by simp
qed

section \<open>A new neighbor\<close>

text \<open>
  The local record with one more neighbor and the next version; nothing else changes.
\<close>

definition befriends :: "public_key \<Rightarrow> neighborhood_database \<Rightarrow> neighborhood_database \<Rightarrow> bool" where
  "befriends key db db' \<longleftrightarrow> this_node db' = this_node db \<and> (\<forall>k. k \<noteq> this_node db \<longrightarrow> node_by_key db' k = node_by_key db k) \<and>
     (\<exists>rt rt'. root db = Some rt \<and> root db' = Some rt' \<and> key |\<notin>| half_neighbor_keys rt \<and>
        node_addr_opt rt' = node_addr_opt rt \<and>
        inner rt' = (inner rt)\<lparr>inner_neighbors := finsert key (half_neighbor_keys rt), inner_version := inner_version (inner rt) + 1\<rparr>)"

definition signs :: "crypt_ops \<Rightarrow> bool" where
  "signs crypt \<longleftrightarrow> (\<forall>msg. \<exists>sig. crypt_sign crypt msg = Some sig)"

definition version_below_max :: "neighborhood_database \<Rightarrow> bool" where
  "version_below_max db \<longleftrightarrow> (\<forall>rt. root db = Some rt \<longrightarrow> version rt \<noteq> - 1)"

lemma increment_version_ok:
  assumes "version nr \<noteq> - 1"
  shows "increment_version nr = Some (nr\<lparr>inner := (inner nr)\<lparr>inner_version := inner_version (inner nr) + 1\<rparr>\<rparr>)"
proof -
  define v where "v = inner_version (inner nr)"
  have "1 + v \<noteq> 0" using assms by (metis add_eq_0_iff version_def v_def)
  from unatSuc [OF this] unsigned_less [of "1 + v", where ?'a = nat] have "Suc (unat v) < 2 ^ LENGTH(32)" by metis
  then have "unat (inner_version (inner nr)) + unat (1 :: u32) < 2 ^ LENGTH(32)" by (simp add: v_def)
  then show ?thesis by (simp add: increment_version_def checked_add_def)
qed

lemma regenerate_ok:
  assumes "signs crypt"
  obtains rt' where "record_regenerate_signed_gossip crypt rt = Some rt'" "inner rt' = inner rt" "metadata rt' = metadata rt"
proof -
  obtain sig where "crypt_sign crypt (cbor_to_vec crypt (inner rt)) = Some sig" using assms unfolding signs_def by blast
  then show thesis using that by (simp add: record_regenerate_signed_gossip_def regenerate_signed_gossip_def)
qed

lemma add_half_neighbor_known:
  assumes "neighborhood_ok db" "root db = Some rt" "key |\<in>| half_neighbor_keys rt"
  shows "add_half_neighbor now db key = (Inr False, db)"
proof -
  have "has_addr db key" using assms by (auto simp: neighborhood_ok_def local_ok_def)
  then show ?thesis using assms
    by (auto simp: add_half_neighbor_def keys_iff has_addr_def has_half_neighbor_def root_def record_has_half_neighbor_def half_neighbor_keys_def)
qed

lemma befriend:
  assumes ok: "neighborhood_ok db" and rt: "root db = Some rt" "key |\<notin>| half_neighbor_keys rt"
    and key: "has_addr db key" "key \<noteq> this_node db"
    and crypt: "signs crypt" and v: "version_below_max db"
  obtains db1 db2 where "add_half_neighbor now db key = (Inr True, db1)" "this_node db1 = this_node db"
    "bump_root crypt db1 = Some db2" "neighborhood_ok db2" "befriends key db db2"
proof -
  have dok: "db_ok db" and lok: "local_ok db rt" and pk: "public_key rt = this_node db"
    using ok rt(1) db_ok_root unfolding neighborhood_ok_def by force+
  define rt1 where "rt1 = rt\<lparr>inner := (inner rt)\<lparr>inner_neighbors := finsert key (inner_neighbors (inner rt))\<rparr>,
    metadata := (metadata rt)\<lparr>last_update := now\<rparr>\<rparr>"
  define db1 where "db1 = db\<lparr>by_public_key := fmupd (this_node db) rt1 (by_public_key db)\<rparr>"
  have add: "add_half_neighbor now db key = (Inr True, db1)"
    using rt key pk by (auto simp: add_half_neighbor_def add_half_neighbor_key_def keys_iff has_addr_def has_half_neighbor_def root_def
        record_has_half_neighbor_def half_neighbor_keys_def db1_def rt1_def)
  from keeps_add_half_neighbor [OF dok, of now key] add have dok1: "db_ok db1" by simp
  have root1: "root db1 = Some rt1" by (simp add: db1_def root_def node_by_key_def)
  define rt2 where "rt2 = rt1\<lparr>inner := (inner rt1)\<lparr>inner_version := inner_version (inner rt1) + 1\<rparr>\<rparr>"
  have inc: "increment_version rt1 = Some rt2"
    unfolding rt2_def using v rt by (intro increment_version_ok) (auto simp: rt1_def version_def version_below_max_def)
  obtain rt3 where rt3: "record_regenerate_signed_gossip crypt rt2 = Some rt3" "inner rt3 = inner rt2" "metadata rt3 = metadata rt2"
    by (rule regenerate_ok [OF crypt])
  define db2 where "db2 = db1\<lparr>by_public_key := fmupd (this_node db1) rt3 (by_public_key db1)\<rparr>"
  have bump: "bump_root crypt db1 = Some db2"
    using root1 inc rt3(1) by (simp add: bump_root_def root_mut_def node_by_key_mut_def db2_def root_def node_by_key_def)
  have dok2: "db_ok db2"
    unfolding db2_def using rt3 by (intro keeps_root_update [OF dok1 root1]) (simp_all add: rt2_def public_key_def node_addr_opt_def)
  have at: "node_by_key db2 k = (if k = this_node db then Some rt3 else node_by_key db k)" for k
    by (simp add: db2_def db1_def node_by_key_def)
  have fr: "befriends key db db2"
    using rt at rt3 by (auto simp: befriends_def root_def db2_def db1_def rt2_def rt1_def half_neighbor_keys_def node_addr_opt_def)
  have addr2: "k \<noteq> this_node db \<Longrightarrow> has_addr db2 k = has_addr db k" for k by (simp add: has_addr_def at)
  have "local_ok db2 rt3"
    using lok key rt3 addr2 by (auto simp: local_ok_def rt2_def rt1_def half_neighbor_keys_def accepts_connections_def node_addr_opt_def db2_def db1_def)
  then have "neighborhood_ok db2" using dok2 at by (auto simp: neighborhood_ok_def root_def db2_def db1_def)
  with that add bump fr show thesis by (simp add: db1_def)
qed

section \<open>The handlers\<close>

text \<open>What the handlers need of their surroundings so as not to panic.\<close>

definition env_ok :: "acceptor_env \<Rightarrow> bool" where
  "env_ok env \<longleftrightarrow> signs (env_crypt env) \<and> finder_total (env_finder env) \<and>
     (\<forall>S. fset_of_list (env_order_full env S) = S) \<and> (\<forall>S. fset_of_list (env_order_least env S) = S)"

text \<open>The results that report no change.\<close>

definition no_change :: "gossip_acceptance_result \<Rightarrow> bool" where
  "no_change result \<longleftrightarrow> (case result of Ignored \<Rightarrow> True | Ban _ \<Rightarrow> True | GossipFailed _ _ _ \<Rightarrow> True | _ \<Rightarrow> False)"

definition evolves :: "accessible_gossip_record list \<Rightarrow> neighborhood_database \<Rightarrow> neighborhood_database \<Rightarrow> bool" where
  "evolves agrs db db' \<longleftrightarrow> (\<exists>db1. learns agrs db db1 \<and> (db' = db1 \<or> (\<exists>key. has_addr db1 key \<and> befriends key db1 db')))"

definition handled :: "accessible_gossip_record list \<Rightarrow> neighborhood_database \<Rightarrow> gossip_acceptance_result \<Rightarrow> neighborhood_database \<Rightarrow> bool" where
  "handled agrs db result db' \<longleftrightarrow> neighborhood_ok db' \<and> evolves agrs db db' \<and> (no_change result \<longrightarrow> db' = db)"

lemma evolves_refl [simp]: "evolves agrs db db"
  by (auto simp: evolves_def intro: exI [of _ db])

lemma evolves_learns: "learns agrs db db' \<Longrightarrow> evolves agrs db db'"
  by (auto simp: evolves_def)

lemma evolves_befriends: "learns agrs db db1 \<Longrightarrow> has_addr db1 key \<Longrightarrow> befriends key db1 db' \<Longrightarrow> evolves agrs db db'"
  by (auto simp: evolves_def)

lemma builder_one:
  assumes "node_by_key db k = Some nr"
  obtains b where "builder_node k True (builder_new db) = Some b" "builder_db b = db" "keys_so_far b = {|public_key nr|}"
  using that assms by (simp add: builder_node_entry builder_new_def)

lemma builder_root:
  assumes "db_ok db"
  obtains rt b where "root db = Some rt" "public_key rt = this_node db" "builder_node (public_key rt) True (builder_new db) = Some b"
    "builder_db b = db" "keys_so_far b = {|this_node db|}"
proof -
  obtain rt where rt: "root db = Some rt" "public_key rt = this_node db" using db_ok_root [OF assms] by blast
  then have "node_by_key db (public_key rt) = Some rt" by (simp add: root_def)
  then show thesis by (rule builder_one) (use that rt in simp)
qed

subsection \<open>Debuts\<close>

lemma full_neighbor_present: "k |\<in>| full_neighbor_keys rt db \<Longrightarrow> k |\<in>| half_neighbor_keys rt \<and> node_by_key db k \<noteq> None"
  by (auto simp: full_neighbor_keys_def split: option.splits)

lemma ordered_keys_member:
  assumes "fset_of_list (order (ks |-| excl)) = ks |-| excl"
  shows "k \<in> set (keys_ordered_by_degree_excluding order db ks excl) \<longleftrightarrow> k |\<in>| ks \<and> k |\<notin>| excl"
proof -
  have "k \<in> set (order (ks |-| excl)) \<longleftrightarrow> k |\<in>| ks |-| excl" using assms by (metis fset_of_list_elem)
  then show ?thesis by (simp add: keys_ordered_by_degree_excluding_def)
qed

lemma first_opt_member: "first_opt xs = Some x \<Longrightarrow> x \<in> set xs"
  by (cases xs) (auto simp: first_opt_def)

lemma least_connected_member:
  assumes "env_ok env" "find_least_connected_neighbor_excluding env ks db excluded = Some k"
  shows "k |\<in>| ks"
  using first_opt_member [OF assms(2) [unfolded find_least_connected_neighbor_excluding_def]] assms(1)
  by (simp add: ordered_keys_member env_ok_def)

lemma more_appropriate_ok:
  assumes ok: "neighborhood_ok db" and env: "env_ok env"
  obtains r where "find_more_appropriate_neighbor env db excluded = Some r" "\<forall>k. r = Some k \<longrightarrow> has_addr db k"
proof -
  obtain rt where rt: "root db = Some rt" "local_ok db rt" by (rule neighborhood_okE [OF ok])
  define v where "v = keys_ordered_by_degree_excluding (env_order_full env) db (full_neighbor_keys rt db) (node_and_neighbor_keys excluded)"
  have mem: "k |\<in>| full_neighbor_keys rt db" if "k \<in> set v" for k
    using that env unfolding v_def by (simp add: ordered_keys_member env_ok_def)
  have pres: "all_present db (fset_of_list v)"
    by (auto simp: all_present_def fset_of_list_elem dest!: mem full_neighbor_present)
  have v: "root_full_neighbors_ordered_by_degree_excluding env db excluded = Some v"
    using rt by (simp add: root_full_neighbors_ordered_by_degree_excluding_def v_def)
  define q where "q = first_opt (dropWhile (\<lambda>k. gossip_target_degree db k \<le> 2) (filter (key_accepts_connections db) v))"
  have "has_addr db k" if "q = Some k" for k
  proof -
    have "k \<in> set v" using first_opt_member [OF that [unfolded q_def]] set_dropWhileD by fastforce
    from mem [OF this] show ?thesis using rt full_neighbor_present by (auto simp: local_ok_def)
  qed
  with that show thesis
    using v pres rt by (cases q) (auto simp: find_more_appropriate_neighbor_def q_def [symmetric])
qed

lemma least_full_ok:
  assumes ok: "neighborhood_ok db" and env: "env_ok env"
  obtains r where "find_least_connected_full_neighbor_excluding env db excluded = Some r"
    "\<forall>k. r = Some k \<longrightarrow> has_addr db k \<and> k \<noteq> this_node db"
proof -
  obtain rt where rt: "root db = Some rt" "local_ok db rt" by (rule neighborhood_okE [OF ok])
  define ks where "ks = ffilter (key_accepts_connections db) (full_neighbor_keys rt db)"
  have "has_addr db k \<and> k \<noteq> this_node db" if "find_least_connected_neighbor_excluding env ks db excluded = Some k" for k
    using least_connected_member [OF env that] rt by (auto simp: ks_def local_ok_def dest: full_neighbor_present)
  moreover have "all_present db (full_neighbor_keys rt db)" by (auto simp: all_present_def dest: full_neighbor_present)
  ultimately show thesis
    using rt that by (simp add: find_least_connected_full_neighbor_excluding_def ks_def)
qed

lemma least_half_ok:
  assumes ok: "neighborhood_ok db" and env: "env_ok env"
  obtains r where "find_least_connected_half_neighbor_excluding env db excluded = Some r" "\<forall>k. r = Some k \<longrightarrow> has_addr db k"
proof -
  obtain rt where rt: "root db = Some rt" "local_ok db rt" by (rule neighborhood_okE [OF ok])
  then show thesis
    using that least_connected_member [OF env] by (auto simp: find_least_connected_half_neighbor_excluding_def local_ok_def)
qed

lemma pass_gossip_ok: "has_addr db k \<Longrightarrow> \<exists>g. make_pass_gossip db k = Some g"
  by (auto simp: has_addr_def make_pass_gossip_def builder_node_entry builder_new_def)

lemma make_introduction_ok:
  assumes ok: "neighborhood_ok db" and env: "env_ok env"
  shows "\<exists>r. make_introduction env db agr src = Some r"
proof -
  obtain r where r: "find_least_connected_full_neighbor_excluding env db agr = Some r"
    "\<forall>k. r = Some k \<longrightarrow> has_addr db k \<and> k \<noteq> this_node db" by (rule least_full_ok [OF ok env])
  have "db_ok db" using ok by (simp add: neighborhood_ok_def)
  then obtain rt b where b: "root db = Some rt" "builder_node (public_key rt) True (builder_new db) = Some b"
    "builder_db b = db" "keys_so_far b = {|this_node db|}" by (rule builder_root)
  show ?thesis
  proof (cases r)
    case None
    then show ?thesis using r by (simp add: make_introduction_def)
  next
    case (Some k)
    then obtain nr where "node_by_key db k = Some nr" "k \<noteq> this_node db" using r by (auto simp: has_addr_def)
    with builder_node_entry [of b k nr True] b r Some show ?thesis by (simp add: make_introduction_def)
  qed
qed

lemma debut_response_ok:
  assumes "neighborhood_ok db" "env_ok env" "key \<noteq> this_node db"
  shows "\<exists>g. create_debut_gossip_response env db key = Some g"
proof -
  obtain rt where rt: "root db = Some rt" "public_key rt = this_node db" by (rule neighborhood_okE [OF assms(1)])
  define rt' where "rt' = rt\<lparr>inner := (inner rt)\<lparr>inner_neighbors := {|key|}\<rparr>\<rparr>"
  obtain sig where "crypt_sign (env_crypt env) (cbor_to_vec (env_crypt env) (inner rt')) = Some sig"
    using assms(2) unfolding env_ok_def signs_def by blast
  then show ?thesis using rt assms(3)
    by (simp add: create_debut_gossip_response_def add_half_neighbor_key_def clear_half_neighbors_def public_key_def
        gnr_from_inner_def rt'_def)
qed

lemma root_after_befriends: "befriends key db db' \<Longrightarrow> this_node db' = this_node db"
  by (simp add: befriends_def)

text \<open>Accepting a debut: the Node is learned and becomes a neighbor.\<close>

lemma try_accept_debut_ok:
  assumes ok: "neighborhood_ok db" and env: "env_ok env" "prefs_ok prefs_opt" and v: "version_below_max db"
    and new: "node_by_key db (agr_key agr) = None" and addr: "agr_node_addr_opt agr = Some a" "addr_ports a \<noteq> []"
  obtains r db' where "try_accept_debut env db agr src prefs_opt = Some (r, db')" "neighborhood_ok db'" "evolves [agr] db db'"
    "r = None \<longrightarrow> db' = db" "\<forall>result. r = Some result \<longrightarrow> \<not> no_change result"
proof -
  obtain rt where rt: "root db = Some rt" "public_key rt = this_node db" "local_ok db rt" by (rule neighborhood_okE [OF ok])
  show thesis
  proof (cases "MAX_DEGREE \<le> gossip_target_degree db (public_key rt)")
    case True
    then show thesis using rt ok that [of None db] by (simp add: try_accept_debut_def)
  next
    case False
    have ports: "ports_ok (agr_node_addr_opt agr)" using addr by (simp add: ports_ok_def)
    have ft: "finder_total (env_finder env)" and sg: "signs (env_crypt env)" using env(1) by (simp_all add: env_ok_def)
    obtain nr0 nr db1 where l: "record_from_agr (env_finder env) (env_now env (agr_key agr)) agr = Some nr0"
      "assign_preferences prefs_opt nr0 = Some nr" "add_node db nr = (Inr (agr_key agr), db1)" "db1 = add_arbitrary_node db nr"
      "public_key nr = agr_key agr" "node_addr_opt nr = agr_node_addr_opt agr" "neighborhood_ok db1" "learns [agr] db db1"
      by (rule learn_new_node [OF ok ft env(2) new ports])
    have other: "agr_key agr \<noteq> this_node db1" and rt1: "root db1 = Some rt"
      using l rt new by (auto simp: root_def)
    have ha: "has_addr db1 (agr_key agr)" using l addr by (simp add: has_addr_def)
    have nh: "agr_key agr |\<notin>| half_neighbor_keys rt" using rt(3) new by (auto simp: local_ok_def has_addr_def)
    have v1: "version_below_max db1" using v rt rt1 by (simp add: version_below_max_def)
    obtain db2 db3 where f: "add_half_neighbor (env_now env (this_node db1)) db1 (agr_key agr) = (Inr True, db2)"
      "bump_root (env_crypt env) db2 = Some db3" "neighborhood_ok db3" "befriends (agr_key agr) db1 db3"
      by (rule befriend [OF l(7) rt1 nh ha other sg v1])
    have ev: "evolves [agr] db db3" by (rule evolves_befriends [OF l(8) ha f(4)])
    obtain intro where i: "make_introduction env db3 agr src = Some intro" using make_introduction_ok [OF f(3) env(1)] by blast
    have other3: "agr_key agr \<noteq> this_node db3" using other root_after_befriends [OF f(4)] by simp
    obtain g where g: "create_debut_gossip_response env db3 (agr_key agr) = Some g"
      using debut_response_ok [OF f(3) env(1) other3] by blast
    have "\<exists>result. try_accept_debut env db agr src prefs_opt = Some (Some result, db3) \<and> \<not> no_change result"
      using rt False l(1-3) f(1,2) i g addr by (cases intro) (auto simp: try_accept_debut_def no_change_def)
    then show thesis using that f(3) ev by blast
  qed
qed

lemma evolves_same_records:
  "evolves [agr\<lparr>agr_node_addr_opt := a\<rparr>] db db' \<Longrightarrow> evolves [agr] db db'"
  by (force simp: evolves_def learns_def learns_at_def learned_def agr_key_def)

lemma debut_handle_ok:
  assumes ok: "neighborhood_ok db" and env: "env_ok env" "prefs_ok (user_exit_preferences_opt meta)" and v: "version_below_max db"
    and q: "debut_qualifies db agrs src = Matched"
  obtains result db' where "debut_handle env db agrs src meta = Some (result, db')" "handled agrs db result db'"
proof -
  from q obtain agr0 where agr0: "agrs = [agr0]" and new0: "node_by_key db (agr_key agr0) = None"
    and p0: "ports_ok (agr_node_addr_opt agr0)"
    by (auto simp: debut_qualifies_def ports_ok_def split: list.splits if_splits option.splits)
  define agr where "agr = (if agr_node_addr_opt agr0 = None then agr0\<lparr>agr_node_addr_opt := Some (node_addr_from_socket src)\<rparr> else agr0)"
  obtain a where a: "agr_node_addr_opt agr = Some a" "addr_ports a \<noteq> []"
    using p0 that
    by (cases "agr_node_addr_opt agr0") (auto simp: agr_def ports_ok_def node_addr_from_socket_def node_addr_new_def)
  have new: "node_by_key db (agr_key agr) = None" using new0 by (simp add: agr_def agr_key_def)
  obtain pref where pref: "find_more_appropriate_neighbor env db agr = Some pref" "\<forall>k. pref = Some k \<longrightarrow> has_addr db k"
    by (rule more_appropriate_ok [OF ok env(1)])
  obtain r db' where acc: "try_accept_debut env db agr src (user_exit_preferences_opt meta) = Some (r, db')" "neighborhood_ok db'"
    "evolves [agr] db db'" "r = None \<longrightarrow> db' = db" "\<forall>result. r = Some result \<longrightarrow> \<not> no_change result"
    by (rule try_accept_debut_ok [OF ok env v new a])
  obtain lcn where lcn: "find_least_connected_half_neighbor_excluding env db agr = Some lcn" "\<forall>k. lcn = Some k \<longrightarrow> has_addr db k"
    by (rule least_half_ok [OF ok env(1)])
  have ev: "evolves [agr0] db db'" using acc(3) evolves_same_records by (auto simp: agr_def split: if_splits)
  have unfold: "debut_handle env db agrs src meta = (case pref of
        Some preferred_key \<Rightarrow> do {
          preferred \<leftarrow> node_by_key db preferred_key;
          _ \<leftarrow> node_addr_opt preferred;
          gossip \<leftarrow> make_pass_gossip db preferred_key;
          Some (Reply gossip (agr_key agr) a, db) }
      | None \<Rightarrow> (case r of
             Some result \<Rightarrow> Some (result, db')
           | None \<Rightarrow> (case lcn of
                  None \<Rightarrow> Some (GossipFailed NoSuitableNeighbors (agr_key agr) a, db)
                | Some lcn_key \<Rightarrow> do {
                    _ \<leftarrow> node_by_key db lcn_key;
                    gossip \<leftarrow> make_pass_gossip db lcn_key;
                    Some (Reply gossip (agr_key agr) a, db) })))"
    unfolding debut_handle_def agr0 first_opt_Cons bind.bind_lunit Let_def agr_def [symmetric]
    using pref(1) acc(1,4) lcn(1) a by (simp split: option.split)
  have same: "handled agrs db result db" for result using ok by (simp add: handled_def)
  have "handled agrs db result db'" if "r = Some result" for result
    using acc ev that by (simp add: handled_def agr0)
  moreover have "\<exists>g. make_pass_gossip db k = Some g" "\<exists>nr a. node_by_key db k = Some nr \<and> node_addr_opt nr = Some a" if "has_addr db k" for k
    using that pass_gossip_ok by (auto simp: has_addr_def)
  ultimately show thesis
    using that same pref(2) lcn(2) unfolding unfold by (cases pref; cases r; cases lcn) fastforce+
qed

subsection \<open>Passes\<close>

text \<open>The clock has not run backwards since a pass target was last seen.\<close>

definition pass_clock_ok :: "acceptor_env \<Rightarrow> pass_targets \<Rightarrow> bool" where
  "pass_clock_ok env targets \<longleftrightarrow> (\<forall>ip timestamp. fmlookup targets ip = Some timestamp \<longrightarrow> timestamp \<le> fst (env_pass_clock env))"

lemma pass_handle_ok:
  assumes ok: "neighborhood_ok db" and clock: "pass_clock_ok env targets" and q: "pass_qualifies agrs src = Matched"
  obtains result targets' cpms where "pass_handle env targets db agrs src meta = Some (result, targets', cpms)"
    "handled agrs db result db"
proof -
  from q obtain agr a where agr: "agrs = [agr]" "agr_node_addr_opt agr = Some a"
    by (auto simp: pass_qualifies_def split: list.splits option.splits)
  obtain rt b where "root db = Some rt" "builder_node (public_key rt) True (builder_new db) = Some b"
    using builder_root ok by (metis neighborhood_ok_def)
  then obtain reply where reply: "pass_reply db (agr_key agr) a = Some reply" by (simp add: pass_reply_def)
  have "\<exists>d. usub (fst (env_pass_clock env)) t = Some d" if "fmlookup targets (addr_ip a) = Some t" for t
    using that clock by (simp add: pass_clock_ok_def usub_def)
  then have "\<exists>result targets' cpms. pass_handle env targets db agrs src meta = Some (result, targets', cpms)"
    using agr reply by (auto simp: pass_handle_def Let_def split_def split: option.split)
  then show thesis using that ok by (auto simp: handled_def)
qed

subsection \<open>Introductions\<close>

lemma introduction_players:
  assumes "introduction_qualifies db agrs src = Some Matched"
  obtains introducer introducee rt a b where "identify_players agrs src = Some (Inr (introducer, introducee))"
    "introducer \<in> set agrs" "root db = Some rt" "agr_key introducer \<noteq> public_key rt"
    "agr_node_addr_opt introducer = Some a" "addr_ports a \<noteq> []"
    "agr_node_addr_opt introducee = Some b" "addr_ports b \<noteq> []"
proof -
  from assms obtain x y where agrs: "agrs = [x, y]"
    by (cases agrs rule: remdups_adj.cases) (auto simp: introduction_qualifies_def split: if_splits)
  from assms obtain r where r: "order_is_introducee_introducer [x, y] src = Some r"
    by (auto simp: introduction_qualifies_def agrs bind_eq_Some_conv)
  have "r \<noteq> Inl Matched" using r by (auto simp: order_is_introducee_introducer_def split: option.splits if_splits)
  with assms r obtain first where first: "r = Inr first" by (cases r) (auto simp: introduction_qualifies_def agrs)
  define i where "i = (if first then x else y)"
  define e where "e = (if first then y else x)"
  have players: "identify_players agrs src = Some (Inr (i, e))"
    using r first by (simp add: identify_players_def agrs i_def e_def)
  obtain rt iq where rt: "root db = Some rt" "verify_introducer i rt = Some iq"
    "(case iq of Some qual \<Rightarrow> qual | None \<Rightarrow> (case verify_introducee db i e src of Some qual \<Rightarrow> qual | None \<Rightarrow> Matched)) = Matched"
    using assms r first
    by (cases first) (auto simp: introduction_qualifies_def agrs i_def e_def bind_eq_Some_conv cong: option.case_cong)
  have "iq \<noteq> Some Matched" "verify_introducee db i e src \<noteq> Some Matched"
    using rt(2) by (auto simp: verify_introducer_def verify_introducee_def bind_eq_Some_conv split: if_splits option.splits)
  with rt(3) have iq: "iq = None" "verify_introducee db i e src = None" by (auto split: option.splits)
  with rt(2) obtain a b where "agr_key i \<noteq> public_key rt" "agr_node_addr_opt i = Some a" "addr_ports a \<noteq> []"
    "agr_node_addr_opt e = Some b" "addr_ports b \<noteq> []"
    by (auto simp: verify_introducer_def verify_introducee_def bind_eq_Some_conv split: if_splits option.splits)
  with that players rt(1) show thesis by (simp add: agrs i_def)
qed

lemma befriend_introducer:
  assumes ok: "neighborhood_ok db" and env: "env_ok env" and v: "version_below_max db"
    and key: "has_addr db key" "key \<noteq> this_node db"
  obtains db' where "add_introducer_as_half_neighbor env db key = Some (Inr True, db')"
    "neighborhood_ok db'" "db' = db \<or> befriends key db db'"
proof -
  obtain rt where rt: "root db = Some rt" by (rule neighborhood_okE [OF ok])
  show thesis
  proof (cases "key |\<in>| half_neighbor_keys rt")
    case True
    from add_half_neighbor_known [OF ok rt True] show thesis using that [of db] ok by (simp add: add_introducer_as_half_neighbor_def)
  next
    case False
    have "signs (env_crypt env)" using env by (simp add: env_ok_def)
    from befriend [OF ok rt False key this v, where now = "env_now env (this_node db)"] that show thesis
      by (fastforce simp: add_introducer_as_half_neighbor_def)
  qed
qed

lemma version_below_max_learns: "learns agrs db db' \<Longrightarrow> version_below_max db \<Longrightarrow> version_below_max db'"
  by (simp add: learns_def version_below_max_def)

lemma introduction_update_ok:
  assumes ok: "neighborhood_ok db" and env: "env_ok env" "prefs_ok prefs_opt" and v: "version_below_max db"
    and agr: "agr_key agr \<noteq> this_node db" "agr_node_addr_opt agr = Some a" "addr_ports a \<noteq> []"
  obtains res db' where "introduction_update_database env db agr prefs_opt = Some (res, db')" "neighborhood_ok db'"
    "evolves [agr] db db'" "\<forall>e. res = Inl e \<longrightarrow> db' = db"
proof (cases "node_by_key db (agr_key agr)")
  case None
  have p: "ports_ok (agr_node_addr_opt agr)" and ft: "finder_total (env_finder env)"
    using agr env by (simp_all add: ports_ok_def env_ok_def)
  obtain nr0 nr db1 where l: "record_from_agr (env_finder env) (env_now env (agr_key agr)) agr = Some nr0"
    "assign_preferences prefs_opt nr0 = Some nr" "add_node db nr = (Inr (agr_key agr), db1)" "db1 = add_arbitrary_node db nr"
    "public_key nr = agr_key agr" "node_addr_opt nr = agr_node_addr_opt agr" "neighborhood_ok db1" "learns [agr] db db1"
    by (rule learn_new_node [OF ok ft env(2) None p])
  have key: "has_addr db1 (agr_key agr)" "agr_key agr \<noteq> this_node db1" using l agr by (simp_all add: has_addr_def)
  obtain db' where f: "add_introducer_as_half_neighbor env db1 (agr_key agr) = Some (Inr True, db')"
    "neighborhood_ok db'" "db' = db1 \<or> befriends (agr_key agr) db1 db'"
    by (rule befriend_introducer [OF l(7) env(1) version_below_max_learns [OF l(8) v] key])
  then show thesis
    using that [of "Inr True" db'] None l(1-3,8) key(1) evolves_befriends evolves_learns
    by (auto simp: introduction_update_database_def Let_def)
next
  case (Some nr)
  show thesis
  proof (cases "version nr < inner_version (agr_inner agr)")
    case False
    then show thesis using that [of "Inr False" db] Some ok by (simp add: introduction_update_database_def)
  next
    case later: True
    obtain res nr' where upd: "record_update (env_now env (agr_key agr)) nr agr = (res, nr')" by fastforce
    show thesis
    proof (cases res)
      case (Inl e)
      then show thesis using that [of "Inl e" db] Some ok later upd by (simp add: introduction_update_database_def)
    next
      case (Inr r)
      note upd' = upd [unfolded Inr]
      obtain db1 where l: "node_by_key_mut (\<lambda>_. nr') db (agr_key agr) = Some db1" "neighborhood_ok db1" "learns [agr] db db1"
        "node_by_key db1 (agr_key agr) = Some nr'"
        by (rule learn_update [OF ok Some later agr(1) upd'])
      have key: "has_addr db1 (agr_key agr)" "agr_key agr \<noteq> this_node db1"
        using l agr record_update_ok(3) [OF upd' later] by (auto simp: has_addr_def learns_def)
      obtain db' where f: "add_introducer_as_half_neighbor env db1 (agr_key agr) = Some (Inr True, db')"
        "neighborhood_ok db'" "db' = db1 \<or> befriends (agr_key agr) db1 db'"
        by (rule befriend_introducer [OF l(2) env(1) version_below_max_learns [OF l(3) v] key])
      then show thesis
        using that [of "Inr True" db'] Some later upd' l(1,3) key(1) evolves_befriends evolves_learns
        by (auto simp: introduction_update_database_def Let_def)
    qed
  qed
qed

lemma evolves_mono: "evolves agrs db db' \<Longrightarrow> set agrs \<subseteq> set agrs' \<Longrightarrow> evolves agrs' db db'"
  unfolding evolves_def using learns_mono by blast

lemma introduction_handle_ok:
  assumes ok: "neighborhood_ok db" and env: "env_ok env" "prefs_ok (user_exit_preferences_opt meta)" and v: "version_below_max db"
    and q: "introduction_qualifies db agrs src = Some Matched"
  obtains result db' cpms where "introduction_handle env db agrs src meta = Some (result, db', cpms)" "handled agrs db result db'"
proof -
  obtain introducer introducee rt a b where p: "identify_players agrs src = Some (Inr (introducer, introducee))"
    "introducer \<in> set agrs" "root db = Some rt" "agr_key introducer \<noteq> public_key rt"
    "agr_node_addr_opt introducer = Some a" "addr_ports a \<noteq> []" "agr_node_addr_opt introducee = Some b" "addr_ports b \<noteq> []"
    by (rule introduction_players [OF q])
  have other: "agr_key introducer \<noteq> this_node db" using p(3,4) neighborhood_okE [OF ok] by (metis option.inject)
  obtain res db' where u: "introduction_update_database env db introducer (user_exit_preferences_opt meta) = Some (res, db')"
    "neighborhood_ok db'" "evolves [introducer] db db'" "\<forall>e. res = Inl e \<longrightarrow> db' = db"
    by (rule introduction_update_ok [OF ok env v other p(5,6)])
  have ev: "evolves agrs db db'" by (rule evolves_mono [OF u(3)]) (use p(2) in simp)
  have "db_ok db'" using u(2) by (simp add: neighborhood_ok_def)
  then obtain rt' bd where bd: "root db' = Some rt'" "builder_node (public_key rt') True (builder_new db') = Some bd"
    by (rule builder_root)
  show thesis
  proof (cases "MAX_DEGREE \<le> fcard (full_neighbor_keys rt db)")
    case True
    then show thesis using that [of Ignored db] ok p by (simp add: introduction_handle_def handled_def)
  next
    case False
    have "\<exists>result cpms. introduction_handle env db agrs src meta = Some (result, db', cpms) \<and> (no_change result \<longrightarrow> (\<exists>e. res = Inl e))"
      using False p u(1) bd by (cases res) (auto simp: introduction_handle_def make_debut_triple_def no_change_def)
    then show thesis using that u(2,4) ev unfolding handled_def by blast
  qed
qed

subsection \<open>Standard gossip\<close>

lemma new_node_ports: "is_new_node ks src agr \<Longrightarrow> ports_ok (agr_node_addr_opt agr)"
  by (auto simp: is_new_node_def ports_ok_def node_addr_sockets_def split: option.splits)

lemma add_new_nodes_ok:
  assumes "neighborhood_ok db" and env: "env_ok env" "prefs_ok prefs_opt"
    and "distinct (map agr_key agrs)" "\<forall>agr \<in> set agrs. node_by_key db (agr_key agr) = None \<and> ports_ok (agr_node_addr_opt agr)"
  shows "\<exists>db'. add_new_nodes env prefs_opt agrs db = Some db' \<and> neighborhood_ok db' \<and> learns agrs db db' \<and>
     keys db' = fset_of_list (map agr_key agrs) |\<union>| keys db"
  using assms(1,4,5)
proof (induction agrs arbitrary: db)
  case (Cons agr agrs)
  have ft: "finder_total (env_finder env)" using env(1) by (simp add: env_ok_def)
  have new: "node_by_key db (agr_key agr) = None" "ports_ok (agr_node_addr_opt agr)" using Cons.prems by simp_all
  obtain nr0 nr db1 where l: "record_from_agr (env_finder env) (env_now env (agr_key agr)) agr = Some nr0"
    "assign_preferences prefs_opt nr0 = Some nr" "add_node db nr = (Inr (agr_key agr), db1)" "db1 = add_arbitrary_node db nr"
    "public_key nr = agr_key agr" "node_addr_opt nr = agr_node_addr_opt agr" "neighborhood_ok db1" "learns [agr] db db1"
    by (rule learn_new_node [OF Cons.prems(1) ft env(2) new])
  have "\<forall>a \<in> set agrs. node_by_key db1 (agr_key a) = None \<and> ports_ok (agr_node_addr_opt a)"
    using Cons.prems l by (auto simp: image_iff)
  then obtain db' where db': "add_new_nodes env prefs_opt agrs db1 = Some db'" "neighborhood_ok db'" "learns agrs db1 db'"
    "keys db' = fset_of_list (map agr_key agrs) |\<union>| keys db1"
    using Cons.IH [OF l(7)] Cons.prems by auto
  have "learns (agr # agrs) db db'"
    by (rule learns_trans [OF learns_mono [OF l(8)] learns_mono [OF db'(3)]]) auto
  moreover have "keys db1 = finsert (agr_key agr) (keys db)" using l by (auto simp: fset_eq_iff keys_iff)
  ultimately show ?case using l db' by simp
qed simp

lemma add_new_nodes_changed:
  assumes "keys db' = fset_of_list ks |\<union>| keys db" "\<forall>k \<in> set ks. k |\<notin>| keys db"
  shows "fcard (keys db') = fcard (keys db) \<longleftrightarrow> ks = []"
proof
  assume eq: "fcard (keys db') = fcard (keys db)"
  have "keys db |\<subseteq>| keys db'" using assms(1) by auto
  with eq have "keys db' = keys db" using pfsubset_fcard_mono [of "keys db" "keys db'"] by fastforce
  with assms show "ks = []" by (cases ks) (auto simp: fset_eq_iff fset_of_list_elem)
qed (use assms in simp)

lemma identify_and_add_ok:
  assumes ok: "neighborhood_ok db" and env: "env_ok env" "prefs_ok prefs_opt" and dist: "distinct (map agr_key agrs)"
  obtains b db' where "identify_and_add_non_introductory_new_nodes env db agrs src prefs_opt = Some (b, db')"
    "neighborhood_ok db'" "learns agrs db db'" "\<not> b \<longrightarrow> db' = db"
proof -
  define new where "new = filter (is_new_node (keys db) src) agrs"
  have n1: "distinct (map agr_key new)" using dist by (simp add: new_def distinct_map_filter)
  have n2: "\<forall>agr \<in> set new. node_by_key db (agr_key agr) = None \<and> ports_ok (agr_node_addr_opt agr)"
    by (auto simp: new_def keys_iff intro: new_node_ports dest: is_new_node_def [THEN iffD1])
  obtain db' where db': "add_new_nodes env prefs_opt new db = Some db'" "neighborhood_ok db'" "learns new db db'"
    "keys db' = fset_of_list (map agr_key new) |\<union>| keys db"
    using add_new_nodes_ok [OF ok env n1 n2] by blast
  have "fcard (keys db') = fcard (keys db) \<longrightarrow> db' = db"
    using add_new_nodes_changed [OF db'(4)] n2 db'(1) by (auto simp: keys_iff)
  moreover have "learns agrs db db'" by (rule learns_mono [OF db'(3)]) (simp add: new_def)
  moreover have "identify_and_add_non_introductory_new_nodes env db agrs src prefs_opt = Some (fcard (keys db') \<noteq> fcard (keys db), db')"
    using db'(1) by (simp add: identify_and_add_non_introductory_new_nodes_def new_def Let_def)
  ultimately show thesis using that db'(2) by blast
qed

lemma update_record_ok:
  assumes ok: "neighborhood_ok db" and nr: "node_by_key db (agr_key agr) = Some nr"
    and later: "version nr < inner_version (agr_inner agr)" and other: "agr_key agr \<noteq> this_node db"
  obtains b db' where "update_database_record env db agr = Some (b, db')" "neighborhood_ok db'" "learns [agr] db db'"
    "\<not> b \<longrightarrow> db' = db"
proof -
  obtain res nr' where upd: "record_update (env_now env (agr_key agr)) nr agr = (res, nr')" by fastforce
  show thesis
  proof (cases res)
    case (Inl e)
    with upd record_update_error have "nr' = nr" by blast
    then show thesis using that [of False db] nr upd Inl ok node_by_key_mut_same [OF nr] by (simp add: update_database_record_def)
  next
    case (Inr r)
    obtain db' where l: "node_by_key_mut (\<lambda>_. nr') db (agr_key agr) = Some db'" "neighborhood_ok db'" "learns [agr] db db'"
      by (rule learn_update [OF ok nr later other upd [unfolded Inr]])
    then show thesis using that [of True db'] nr upd Inr by (simp add: update_database_record_def)
  qed
qed

lemma identify_and_update_ok:
  assumes "neighborhood_ok db" "\<forall>agr \<in> set agrs. agr_key agr \<noteq> this_node db"
  shows "\<exists>b' db'. identify_and_update_obsolete_nodes env agrs b db = Some (b', db') \<and> neighborhood_ok db' \<and> learns agrs db db' \<and>
     (\<not> b' \<longrightarrow> \<not> b \<and> db' = db)"
  using assms
proof (induction agrs arbitrary: b db)
  case (Cons agr agrs)
  have skip: "\<exists>b' db'. identify_and_update_obsolete_nodes env agrs b db = Some (b', db') \<and> neighborhood_ok db' \<and>
     learns (agr # agrs) db db' \<and> (\<not> b' \<longrightarrow> \<not> b \<and> db' = db)"
    using Cons.IH [OF Cons.prems(1), of b] Cons.prems(2) learns_mono [of agrs db _ "agr # agrs"] by fastforce
  show ?case
  proof (cases "\<exists>nr. node_by_key db (agr_key agr) = Some nr \<and> version nr < inner_version (agr_inner agr)")
    case False
    then show ?thesis using skip by (auto split: option.split)
  next
    case True
    then obtain nr where nr: "node_by_key db (agr_key agr) = Some nr" "version nr < inner_version (agr_inner agr)" by blast
    have other: "agr_key agr \<noteq> this_node db" using Cons.prems by simp
    obtain u db1 where u: "update_database_record env db agr = Some (u, db1)" "neighborhood_ok db1" "learns [agr] db db1"
      "\<not> u \<longrightarrow> db1 = db" by (rule update_record_ok [OF Cons.prems(1) nr other])
    have "\<forall>a \<in> set agrs. agr_key a \<noteq> this_node db1" using Cons.prems u(3) by (simp add: learns_def)
    from Cons.IH [OF u(2) this, of "u \<or> b"] obtain b' db' where
      i: "identify_and_update_obsolete_nodes env agrs (u \<or> b) db1 = Some (b', db')" "neighborhood_ok db'" "learns agrs db1 db'"
      "\<not> b' \<longrightarrow> \<not> (u \<or> b) \<and> db' = db1" by blast
    have "learns (agr # agrs) db db'"
      by (rule learns_trans [OF learns_mono [OF u(3)] learns_mono [OF i(3)]]) auto
    with nr u i show ?thesis by auto
  qed
qed simp

lemma add_src_ok:
  assumes ok: "neighborhood_ok db" and env: "env_ok env" and v: "version_below_max db"
  obtains b db' where "add_src_node_as_half_neighbor env db src = Some (b, db')" "neighborhood_ok db'"
    "db' = db \<or> (\<exists>key. has_addr db key \<and> befriends key db db')" "\<not> b \<longrightarrow> db' = db"
proof -
  obtain rt where rt: "db_ok db" "root db = Some rt" "public_key rt = this_node db" by (rule neighborhood_okE [OF ok])
  have sg: "signs (env_crypt env)" using env by (simp add: env_ok_def)
  show thesis
  proof (cases "\<exists>nr. node_by_ip db (fst src) = Some nr \<and> \<not> MAX_DEGREE \<le> fcard (full_neighbor_keys rt db)")
    case False
    then show thesis using that [of False db] ok rt by (auto simp: add_src_node_as_half_neighbor_def split: option.splits)
  next
    case True
    then obtain nr where nr: "node_by_ip db (fst src) = Some nr" "\<not> MAX_DEGREE \<le> fcard (full_neighbor_keys rt db)" by blast
    then obtain k where k: "node_by_key db k = Some nr" by (auto simp: node_by_ip_def split: option.splits)
    then have pk: "public_key nr = k" by (rule db_ok_key [OF rt(1)])
    have ha: "has_addr db k" using node_by_ip_ok [OF rt(1) nr(1)] k by (auto simp: has_addr_def)
    consider "k = this_node db" | "k \<noteq> this_node db" "k |\<in>| half_neighbor_keys rt" | "k \<noteq> this_node db" "k |\<notin>| half_neighbor_keys rt"
      by blast
    then show thesis
    proof cases
      case 1
      then have "add_half_neighbor (env_now env (this_node db)) db k = (Inl (DbSelfNeighborAttempt (public_key rt)), db) \<or>
          add_half_neighbor (env_now env (this_node db)) db k = (Inr False, db)"
        using rt k by (auto simp: add_half_neighbor_def add_half_neighbor_key_def root_def keys_iff)
      then show thesis using that [of False db] ok rt nr pk by (auto simp: add_src_node_as_half_neighbor_def)
    next
      case 2
      from add_half_neighbor_known [OF ok rt(2) 2(2)] show thesis
        using that [of False db] ok rt nr pk by (simp add: add_src_node_as_half_neighbor_def)
    next
      case 3
      obtain db1 db2 where "add_half_neighbor (env_now env (this_node db)) db k = (Inr True, db1)"
        "bump_root (env_crypt env) db1 = Some db2" "neighborhood_ok db2" "befriends k db db2"
        by (rule befriend [OF ok rt(2) 3(2) ha 3(1) sg v])
      then show thesis using that [of True db2] rt nr pk ha by (auto simp: add_src_node_as_half_neighbor_def)
    qed
  qed
qed

lemma check_full_neighbor_ok: "neighborhood_ok db \<Longrightarrow> \<exists>b. check_full_neighbor db ip = Some b"
  by (auto simp: check_full_neighbor_def elim: neighborhood_okE split: option.split)

lemma standard_keys:
  assumes "standard_qualifies db agrs src = Some Matched" "root db = Some rt"
  shows "\<forall>agr \<in> set agrs. agr_key agr \<noteq> public_key rt"
  using assms by (auto simp: standard_qualifies_def bind_eq_Some_conv Let_def split: option.splits if_splits)

lemma standard_handle_ok:
  assumes ok: "neighborhood_ok db" and env: "env_ok env" "prefs_ok (user_exit_preferences_opt meta)" and v: "version_below_max db"
    and q: "standard_qualifies db agrs src = Some Matched" and dist: "distinct (map agr_key agrs)"
  obtains result db' cpms where "standard_handle env db agrs src meta = Some (result, db', cpms)" "handled agrs db result db'"
proof -
  obtain rt where rt: "root db = Some rt" "public_key rt = this_node db" by (rule neighborhood_okE [OF ok])
  define fs where "fs = filter_agrs_by_patch agrs (compute_patch (env_order_neighbors env) agrs rt (db_patch_size meta))"
  have sub: "set fs \<subseteq> set agrs" by (auto simp: fs_def filter_agrs_by_patch_def)
  have dist': "distinct (map agr_key fs)" using dist by (simp add: fs_def filter_agrs_by_patch_def distinct_map_filter)
  obtain b1 db1 where a: "identify_and_add_non_introductory_new_nodes env db fs src (user_exit_preferences_opt meta) = Some (b1, db1)"
    "neighborhood_ok db1" "learns fs db db1" "\<not> b1 \<longrightarrow> db1 = db"
    by (rule identify_and_add_ok [OF ok env dist'])
  have "\<forall>agr \<in> set fs. agr_key agr \<noteq> this_node db1" using standard_keys [OF q rt(1)] rt sub a(3) by (auto simp: learns_def)
  from identify_and_update_ok [OF a(2) this, of env False] obtain b2 db2 where
    u: "identify_and_update_obsolete_nodes env fs False db1 = Some (b2, db2)" "neighborhood_ok db2" "learns fs db1 db2"
    "\<not> b2 \<longrightarrow> db2 = db1" by blast
  have l: "learns agrs db db2" by (rule learns_mono [OF learns_trans [OF a(3) u(3)] sub])
  obtain b3 db3 where s: "add_src_node_as_half_neighbor env db2 src = Some (b3, db3)" "neighborhood_ok db3"
    "db3 = db2 \<or> (\<exists>key. has_addr db2 key \<and> befriends key db2 db3)" "\<not> b3 \<longrightarrow> db3 = db2"
    by (rule add_src_ok [OF u(2) env(1) version_below_max_learns [OF l v]])
  obtain c1 c2 where c: "check_full_neighbor db (fst src) = Some c1" "check_full_neighbor db3 (fst src) = Some c2"
    using check_full_neighbor_ok ok s(2) by blast
  have "\<exists>result cpms. standard_handle env db agrs src meta = Some (result, db3, cpms) \<and> (no_change result \<longrightarrow> \<not> b1 \<and> \<not> b2 \<and> \<not> b3)"
    using c rt a(1) u(1) s(1) by (auto simp: standard_handle_def fs_def [symmetric] no_change_def)
  moreover have "evolves agrs db db3" using l s(3) by (auto simp: evolves_def)
  ultimately show thesis using that s(2,4) a(4) u(4) unfolding handled_def by blast
qed

section \<open>The acceptor\<close>

lemma introduction_qualifies_ok:
  assumes "neighborhood_ok db"
  shows "\<exists>q. introduction_qualifies db agrs src = Some q"
proof (cases "length agrs = 2")
  case True
  then obtain x y where agrs: "agrs = [x, y]" by (cases agrs rule: remdups_adj.cases) auto
  obtain rt where rt: "root db = Some rt" by (rule neighborhood_okE [OF assms])
  obtain r where r: "order_is_introducee_introducer agrs src = Some r" by (auto simp: agrs order_is_introducee_introducer_def)
  show ?thesis
  proof (cases r)
    case (Inl q)
    then show ?thesis using True r by (simp add: introduction_qualifies_def)
  next
    case (Inr first)
    define i where "i = (if first then x else y)"
    obtain a where "agr_node_addr_opt i = Some a"
      using r Inr by (auto simp: agrs order_is_introducee_introducer_def i_def split: option.splits if_splits)
    then have "\<exists>q. verify_introducer i rt = Some q" by (simp add: verify_introducer_def)
    then show ?thesis using True r Inr rt by (cases first) (auto simp: introduction_qualifies_def agrs i_def)
  qed
qed (simp add: introduction_qualifies_def)

lemma standard_qualifies_ok:
  assumes "neighborhood_ok db"
  shows "\<exists>q. standard_qualifies db agrs src = Some q"
  by (rule neighborhood_okE [OF assms]) (auto simp: standard_qualifies_def local_ok_def Let_def)

lemma find_handler_sound:
  "find_handler hs db agrs src = Some (q, h) \<Longrightarrow> handler_qualifies h db agrs src = Some q \<and> q \<noteq> Unmatched"
  by (induction hs) (auto simp: bind_eq_Some_conv split: if_splits)

lemma find_handler_ok:
  assumes "neighborhood_ok db"
  obtains q h where "find_handler gossip_handlers db agrs src = Some (q, h)" "handler_qualifies h db agrs src = Some q" "q \<noteq> Unmatched"
    "q = Matched \<longrightarrow> h \<noteq> RejectHandler"
proof -
  obtain q1 q2 where "introduction_qualifies db agrs src = Some q1" "standard_qualifies db agrs src = Some q2"
    using introduction_qualifies_ok [OF assms] standard_qualifies_ok [OF assms] by blast
  then obtain q h where "find_handler gossip_handlers db agrs src = Some (q, h)" by (fastforce simp: gossip_handlers_def)
  with that find_handler_sound [OF this] show thesis by (cases h) auto
qed

lemma acceptor_handled:
  assumes ok: "neighborhood_ok db" and env: "env_ok env" "prefs_ok (user_exit_preferences_opt meta)" and v: "version_below_max db"
    and clock: "pass_clock_ok env targets" and dist: "distinct (map agr_key agrs)"
  obtains result targets' db' cpms where "acceptor_handle env targets db agrs src meta = Some (result, targets', db', cpms)"
    "handled agrs db result db'"
proof -
  obtain q h where h: "find_handler gossip_handlers db agrs src = Some (q, h)" "handler_qualifies h db agrs src = Some q"
    "q \<noteq> Unmatched" "q = Matched \<longrightarrow> h \<noteq> RejectHandler"
    by (rule find_handler_ok [OF ok])
  show thesis
  proof (cases q)
    case (Malformed reason)
    then show thesis using that h ok by (simp add: acceptor_handle_def handled_def)
  next
    case Matched
    have "\<exists>result targets' db' cpms. handler_handle h env targets db agrs src meta = Some (result, targets', db', cpms) \<and>
        handled agrs db result db'"
    proof (cases h)
      case DebutHandler
      with h Matched have "debut_qualifies db agrs src = Matched" by simp
      then obtain r db1 where "debut_handle env db agrs src meta = Some (r, db1)" "handled agrs db r db1"
        by (rule debut_handle_ok [OF ok env v])
      then show ?thesis using DebutHandler by simp
    next
      case PassHandler
      with h Matched have "pass_qualifies agrs src = Matched" by simp
      then obtain r ts cs where "pass_handle env targets db agrs src meta = Some (r, ts, cs)" "handled agrs db r db"
        by (rule pass_handle_ok [OF ok clock])
      then show ?thesis using PassHandler by simp
    next
      case IntroductionHandler
      with h Matched have "introduction_qualifies db agrs src = Some Matched" by simp
      then obtain r db1 cs where "introduction_handle env db agrs src meta = Some (r, db1, cs)" "handled agrs db r db1"
        by (rule introduction_handle_ok [OF ok env v])
      then show ?thesis using IntroductionHandler by simp
    next
      case StandardGossipHandler
      with h Matched have "standard_qualifies db agrs src = Some Matched" by simp
      then obtain r db1 cs where "standard_handle env db agrs src meta = Some (r, db1, cs)" "handled agrs db r db1"
        by (rule standard_handle_ok [OF ok env v _ dist])
      then show ?thesis using StandardGossipHandler by simp
    qed (use h Matched in simp)
    with that h Matched show thesis by (auto simp: acceptor_handle_def)
  qed (use h in simp)
qed

text \<open>A database, surroundings and a debut for the examples.\<close>

definition sample_env :: acceptor_env where
  "sample_env = \<lparr>env_crypt = sample_crypt, env_finder = sample_finder, env_now = (\<lambda>_. 7), env_pass_clock = (0, 0),
     env_order_full = sorted_list_of_fset, env_order_least = sorted_list_of_fset, env_order_neighbors = (\<lambda>_. sorted_list_of_fset)\<rparr>"

definition sample_meta :: neighborhood_metadata where
  "sample_meta = \<lparr>connection_progress_peers = [], db_patch_size = 3, user_exit_preferences_opt = None\<rparr>"

definition sample_db :: neighborhood_database where
  "sample_db = \<lparr>this_node = [1], by_public_key = fmupd [1] (sample_record 1 []) fmempty, by_ip_addr = fmempty\<rparr>"

definition sample_agr :: "u8 \<Rightarrow> u8 list \<Rightarrow> accessible_gossip_record" where
  "sample_agr k ns = \<lparr>agr_signed_gossip = [k], agr_signature = [k],
     agr_node_addr_opt = Some (node_addr_new (V4 (ucast k)) [4096]), agr_inner = sample_inner k ns\<rparr>"

lemma sample_env_ok: "env_ok sample_env"
  by (simp add: env_ok_def sample_env_def signs_def sample_crypt_def finder_total_def find_country_sample_finder
      fset_eq_iff fset_of_list_elem sorted_list_of_fset.rep_eq)

lemma sample_db_ok: "neighborhood_ok sample_db" "version_below_max sample_db"
  by (auto simp: neighborhood_ok_def db_ok_def sample_db_def keys_def node_by_key_def public_key_def sample_record_def sample_inner_def
      local_ok_def root_def half_neighbor_keys_def node_addr_opt_def version_below_max_def version_def split: if_splits)

lemma sample_acceptor_ok: "prefs_ok (user_exit_preferences_opt sample_meta)" "pass_clock_ok sample_env fmempty"
  by (simp_all add: prefs_ok_def sample_meta_def pass_clock_ok_def)

text \<open>
  C7: gossip cannot crash the Node.  On a neighborhood that satisfies the invariant, with
  signing and country lookup that work, a version number that is not exhausted and a clock
  that does not run backwards, the acceptor handles every gossip that does not repeat a
  key, whoever sent it and however malformed it is; the invariant holds again afterwards,
  and a gossip that is ignored, failed or grounds for a ban leaves the database unchanged.
\<close>

theorem acceptor_never_panics:
  assumes "neighborhood_ok db" "env_ok env" "prefs_ok (user_exit_preferences_opt meta)" "version_below_max db"
    "pass_clock_ok env targets" "distinct (map agr_key agrs)"
  shows "\<exists>result targets' db' cpms. acceptor_handle env targets db agrs src meta = Some (result, targets', db', cpms) \<and>
     neighborhood_ok db' \<and> (no_change result \<longrightarrow> db' = db)"
  by (rule acceptor_handled [OF assms, of src]) (auto simp: handled_def)

theorem acceptor_never_panics_witness:
  "\<exists>result targets' db' cpms. acceptor_handle sample_env fmempty sample_db [sample_agr 2 []] (V4 2, 4096) sample_meta
     = Some (result, targets', db', cpms) \<and> neighborhood_ok db'"
  using acceptor_never_panics [OF sample_db_ok(1) sample_env_ok sample_acceptor_ok(1) sample_db_ok(2) sample_acceptor_ok(2),
      of "[sample_agr 2 []]" "(V4 2, 4096)"] by auto



section \<open>Repeated keys\<close>

lemma add_new_nodes_distinct:
  "add_new_nodes env prefs_opt agrs db = Some db' \<Longrightarrow>
   distinct (map agr_key agrs) \<and> (\<forall>agr \<in> set agrs. agr_key agr |\<notin>| keys db)"
proof (induction agrs arbitrary: db)
  case (Cons agr agrs)
  from Cons.prems obtain nr0 nr where nr: "record_from_agr (env_finder env) (env_now env (agr_key agr)) agr = Some nr0"
    "assign_preferences prefs_opt nr0 = Some nr" by (auto simp: bind_eq_Some_conv)
  have sets: "assign_for_locations prefs code locs r0 = Some r \<Longrightarrow> public_key r = public_key r0" for prefs code locs r0 r
    by (induction locs arbitrary: r0) (auto simp: bind_eq_Some_conv Let_def split: if_splits)
  have key: "public_key nr = agr_key agr"
    using nr sets by (auto simp: record_from_agr_def assign_preferences_def assign_nodes_country_undesirability_def bind_eq_Some_conv
        agr_key_def public_key_def Let_def split: option.splits)
  obtain db1 where db1: "agr_key agr |\<notin>| keys db" "db1 = add_arbitrary_node db nr" "add_new_nodes env prefs_opt agrs db1 = Some db'"
    using Cons.prems nr key by (auto simp: add_node_def check_for_collision_def split: sum.splits if_splits)
  moreover have "keys db1 = finsert (agr_key agr) (keys db)" using db1(2) key by (auto simp: fset_eq_iff keys_iff)
  ultimately show ?case using Cons.IH [of db1] by auto
qed simp

text \<open>
  C29: a repeated key crashes the Node.  When standard gossip describes two new Nodes under
  the same key within reach of the patch, the handler panics, because adding the second
  record fails where success is expected.
\<close>

theorem repeated_key_panics:
  assumes "find_handler gossip_handlers db agrs src = Some (Matched, StandardGossipHandler)" "root db = Some rt"
    "\<not> distinct (map agr_key (filter (is_new_node (keys db) src)
       (filter_agrs_by_patch agrs (compute_patch (env_order_neighbors env) agrs rt (db_patch_size meta)))))"
  shows "acceptor_handle env targets db agrs src meta = None"
proof -
  have "add_new_nodes env prefs_opt (filter (is_new_node (keys db) src)
      (filter_agrs_by_patch agrs (compute_patch (env_order_neighbors env) agrs rt (db_patch_size meta)))) db = None" for prefs_opt
    using add_new_nodes_distinct assms(3) by (metis not_None_eq)
  then have "standard_handle env db agrs src meta = None"
    using assms(2) by (cases "check_full_neighbor db (fst src)")
      (simp_all add: standard_handle_def identify_and_add_non_introductory_new_nodes_def Let_def)
  with assms(1) show ?thesis by (simp add: acceptor_handle_def)
qed

text \<open>A Node with one neighbor, and the second record of a stranger under the stranger's key.\<close>

definition sample_pair_db :: neighborhood_database where
  "sample_pair_db = \<lparr>this_node = [1], by_public_key = fmupd [2] (sample_record 2 [1]) (fmupd [1] (sample_record 1 [2]) fmempty),
     by_ip_addr = fmempty\<rparr>"

definition sample_repeated :: "accessible_gossip_record list" where
  "sample_repeated = [sample_agr 2 [1, 3], (sample_agr 3 [2])\<lparr>agr_node_addr_opt := None\<rparr>, (sample_agr 3 [])\<lparr>agr_node_addr_opt := None\<rparr>]"

lemma sorted_list_of_fset_simps [simp]:
  "sorted_list_of_fset {||} = []" "sorted_list_of_fset {|x|} = [x]"
  "x < y \<Longrightarrow> sorted_list_of_fset {|x, y|} = [x, y]"
  by (auto simp: sorted_list_of_fset.rep_eq)

theorem repeated_key_panics_witness:
  "acceptor_handle sample_env fmempty sample_pair_db sample_repeated (V4 2, 4096) sample_meta = None"
proof -
  have h: "find_handler gossip_handlers sample_pair_db sample_repeated (V4 2, 4096) = Some (Matched, StandardGossipHandler)"
    by (simp add: gossip_handlers_def sample_repeated_def debut_qualifies_def pass_qualifies_def introduction_qualifies_def
        standard_qualifies_def sample_pair_db_def root_def node_by_key_def sample_agr_def sample_inner_def sample_record_def
        accepts_connections_def node_addr_opt_def metadata_new_def node_addr_new_def agr_key_def public_key_def
        List.map_filter_simps duplicate_step_def)
  have patch: "compute_patch (env_order_neighbors sample_env) sample_repeated (sample_record 1 [2]) (db_patch_size sample_meta)
      = {|[1], [2], [3]|}"
  proof -
    have three: "unat (3 :: u8) = Suc (Suc (Suc 0))" by simp
    have nb: "patch_neighbors (agr_index sample_repeated) (sample_record 1 [2]) [1] = Some {|[2]|}"
      "patch_neighbors (agr_index sample_repeated) (sample_record 1 [2]) [2] = Some {|[1], [3]|}"
      "patch_neighbors (agr_index sample_repeated) (sample_record 1 [2]) [3] = Some {||}"
      by (simp_all add: patch_neighbors_def agr_index_def sample_repeated_def sample_agr_def sample_record_def sample_inner_def
          agr_key_def public_key_def)
    have "public_key (sample_record 1 [2]) = [1]" by (simp add: public_key_def sample_record_def sample_inner_def)
    then show ?thesis
      unfolding compute_patch_def sample_env_def sample_meta_def neighborhood_metadata.simps acceptor_env.simps three
      by (auto simp: nb)
  qed
  have "\<not> distinct (map agr_key (filter (is_new_node (keys sample_pair_db) (V4 2, 4096))
      (filter_agrs_by_patch sample_repeated {|[1], [2], [3]|})))"
    by (simp add: sample_pair_db_def is_new_node_def keys_def filter_agrs_by_patch_def
        sample_repeated_def sample_agr_def sample_inner_def agr_key_def)
  moreover have "root sample_pair_db = Some (sample_record 1 [2])" by (simp add: sample_pair_db_def root_def node_by_key_def)
  ultimately show ?thesis using repeated_key_panics [OF h] patch by metis
qed

section \<open>The patch\<close>

text \<open>The Nodes at most a number of hops away, by the neighbors that the local record and the gossip give.\<close>

inductive within_hops :: "(public_key \<Rightarrow> public_key fset option) \<Rightarrow> public_key \<Rightarrow> nat \<Rightarrow> public_key \<Rightarrow> bool"
  for neighbors_of start where
  here: "within_hops neighbors_of start n start"
| hop: "within_hops neighbors_of start n k \<Longrightarrow> neighbors_of k = Some ns \<Longrightarrow> j |\<in>| ns \<Longrightarrow>
    within_hops neighbors_of start (Suc n) j"

lemma within_hops_first:
  assumes "neighbors_of s = Some ns" "j |\<in>| ns" "within_hops neighbors_of j n k"
  shows "within_hops neighbors_of s (Suc n) k"
  using assms(3)
proof induction
  case (here n)
  then show ?case using assms by (auto intro: within_hops.intros)
next
  case (hop n k ns j)
  then show ?case by (auto intro: within_hops.hop)
qed

lemma patch_recursive_bounded:
  assumes order: "\<forall>k S. set (order k S) = fset S" and "k |\<in>| compute_patch_recursive order idx rt h cur patch"
  shows "k |\<in>| patch \<or> within_hops (patch_neighbors idx rt) cur h k"
  using assms(2)
proof (induction h arbitrary: cur patch k)
  case 0
  then show ?case by (auto intro: within_hops.here)
next
  case (Suc h)
  show ?case
  proof (cases "patch_neighbors idx rt cur")
    case None
    then show ?thesis using Suc.prems by (auto simp: Let_def)
  next
    case (Some ns)
    define visit where "visit = (\<lambda>neighbor patch. if neighbor |\<notin>| patch
        then compute_patch_recursive order idx rt h neighbor patch else patch)"
    have fold: "k |\<in>| fold visit js p \<Longrightarrow> set js \<subseteq> fset ns \<Longrightarrow> k |\<in>| p \<or> within_hops (patch_neighbors idx rt) cur (Suc h) k" for js p k
    proof (induction js arbitrary: p)
      case (Cons j js)
      then have "k |\<in>| visit j p \<or> within_hops (patch_neighbors idx rt) cur (Suc h) k" by auto
      moreover have "k |\<in>| p \<or> within_hops (patch_neighbors idx rt) j h k" if "k |\<in>| visit j p"
        using that Suc.IH [of k j p] by (auto simp: visit_def split: if_splits)
      ultimately show ?case using within_hops_first [of "patch_neighbors idx rt" cur ns j h k] Some Cons.prems(2) by auto
    qed simp
    from Suc.prems Some have "k |\<in>| fold visit (order cur ns) (finsert cur patch)" by (simp add: Let_def visit_def)
    from fold [OF this] order show ?thesis by (auto intro: within_hops.here)
  qed
qed

text \<open>
  C28: the patch never reaches further than its size.  Every Node whose record standard
  gossip may change is at most \<open>db_patch_size\<close> hops away from the local Node, by the
  neighbors of the local record and of the records in the gossip.
\<close>

theorem patch_bounded:
  assumes "\<forall>k S. set (order k S) = fset S" "agr \<in> set (filter_agrs_by_patch agrs (compute_patch order agrs rt patch_size))"
  shows "within_hops (patch_neighbors (agr_index agrs) rt) (public_key rt) (unat patch_size) (agr_key agr)"
  using patch_recursive_bounded [OF assms(1), of "agr_key agr" "agr_index agrs" rt "unat patch_size" "public_key rt" "{||}"] assms(2)
  by (auto simp: filter_agrs_by_patch_def compute_patch_def)

text \<open>
  A local Node with two neighbors, of which one has the other as a neighbor; a fourth Node
  is two hops away.
\<close>

definition sample_triangle :: "accessible_gossip_record list" where
  "sample_triangle = [sample_agr 2 [3], sample_agr 3 [4], sample_agr 4 []]"

lemma triangle_neighbors:
  "patch_neighbors (agr_index sample_triangle) (sample_record 1 [2, 3]) [1] = Some {|[2], [3]|}"
  "patch_neighbors (agr_index sample_triangle) (sample_record 1 [2, 3]) [2] = Some {|[3]|}"
  "patch_neighbors (agr_index sample_triangle) (sample_record 1 [2, 3]) [3] = Some {|[4]|}"
  by (simp_all add: patch_neighbors_def agr_index_def sample_triangle_def sample_agr_def sample_record_def sample_inner_def
      agr_key_def public_key_def)

lemma triangle_unfold: "compute_patch order sample_triangle (sample_record 1 [2, 3]) 2 =
   compute_patch_recursive order (agr_index sample_triangle) (sample_record 1 [2, 3]) (Suc (Suc 0)) [1] {||}"
proof -
  have two: "unat (2 :: u8) = Suc (Suc 0)" by simp
  have "public_key (sample_record 1 [2, 3]) = [1]" by (simp add: public_key_def sample_record_def sample_inner_def)
  then show ?thesis unfolding compute_patch_def two by simp
qed

theorem patch_bounded_witness:
  "within_hops (patch_neighbors (agr_index sample_triangle) (sample_record 1 [2, 3])) [1] 2 [3]"
proof -
  have set: "\<forall>(k :: public_key) S. set (sorted_list_of_fset S) = fset (S :: public_key fset)"
    by (simp add: sorted_list_of_fset.rep_eq)
  have "sample_agr 3 [4] \<in> set (filter_agrs_by_patch sample_triangle
      (compute_patch (\<lambda>_. sorted_list_of_fset) sample_triangle (sample_record 1 [2, 3]) 2))"
    unfolding triangle_unfold
    by (simp add: triangle_neighbors filter_agrs_by_patch_def) (simp add: sample_triangle_def agr_key_def sample_agr_def sample_inner_def)
  from patch_bounded [OF set this] show ?thesis
    by (simp add: agr_key_def sample_agr_def sample_inner_def sample_record_def public_key_def)
qed


end
