(* ===== verification/Neighborhood_Correct.thy ===== *)
theory Neighborhood_Correct
  imports Neighborhood Routing_Correct Onion_Routing Gossip_Acceptance
begin

text \<open>
  What the actor of \<open>node/src/neighborhood/mod.rs\<close> guarantees: the route with which it
  answers a query works, at the price it expects; what a request for exit countries changes;
  and what every state that it can reach has in common.
\<close>

section \<open>Expected services\<close>

definition node_service :: "(public_key \<Rightarrow> wallet \<Rightarrow> rate_pack \<Rightarrow> expected_service) \<Rightarrow> neighborhood_database \<Rightarrow> public_key \<Rightarrow> expected_service" where
  "node_service service db k = (let nr = the (node_by_key db k) in service k (earning_wallet nr) (inner_rate_pack (inner nr)))"

text \<open>The services of a segment between the Node with a given key and an exit.\<close>

definition services_over :: "neighborhood_database \<Rightarrow> public_key list \<Rightarrow> public_key \<Rightarrow> expected_service list" where
  "services_over db mids x = ServiceNothing # map (node_service ServiceRouting db) mids @ [node_service ServiceExit db x]"

definition services_back :: "neighborhood_database \<Rightarrow> public_key \<Rightarrow> public_key list \<Rightarrow> expected_service list" where
  "services_back db x mids = node_service ServiceExit db x # map (node_service ServiceRouting db) mids @ [ServiceNothing]"

lemma collect_results_map: "\<forall>k \<in> set ks. f k = Some (Inr (g k)) \<Longrightarrow> collect_results f ks = Some (Inr (map g ks))"
  by (induction ks) auto

lemma calculate_expected_service_eval:
  assumes "db_ok (nbh_database nb)" "k |\<in>| keys (nbh_database nb)"
  shows "calculate_expected_service nb k (Some a) (Some z) = Some (Inr
    (if k = this_node (nbh_database nb) then ServiceNothing
     else if k = a \<or> k = z then node_service ServiceExit (nbh_database nb) k
     else node_service ServiceRouting (nbh_database nb) k))"
proof -
  obtain rt where "root (nbh_database nb) = Some rt" "public_key rt = this_node (nbh_database nb)"
    using db_ok_root [OF assms(1)] by blast
  moreover obtain nr where "node_by_key (nbh_database nb) k = Some nr"
    using assms(2) by (auto simp: keys_def node_by_key_def elim: fmdomE)
  ultimately show ?thesis by (simp add: calculate_expected_service_def node_service_def)
qed

lemma make_expected_services_eval:
  assumes "db_ok (nbh_database nb)" "ks \<noteq> []" "\<forall>k \<in> set ks. k |\<in>| keys (nbh_database nb)"
  shows "make_expected_services nb (route_segment_new ks c) = Some (Inr (map (\<lambda>k.
    if k = this_node (nbh_database nb) then ServiceNothing
     else if k = hd ks \<or> k = last ks then node_service ServiceExit (nbh_database nb) k
     else node_service ServiceRouting (nbh_database nb) k) ks))"
proof -
  have "first_opt ks = Some (hd ks)" "last_opt ks = Some (last ks)" using assms(2) by (simp_all add: first_opt_def last_opt_def split: list.split)
  with assms show ?thesis
    unfolding make_expected_services_def route_segment_new_def route_segment.simps
    by (intro collect_results_map) (simp add: calculate_expected_service_eval)
qed

lemma make_services_over:
  assumes "db_ok (nbh_database nb)" "this_node (nbh_database nb) = me" "distinct (me # mids @ [x])"
    "\<forall>k \<in> set (me # mids @ [x]). k |\<in>| keys (nbh_database nb)"
  shows "make_expected_services nb (route_segment_new (me # mids @ [x]) c) = Some (Inr (services_over (nbh_database nb) mids x))"
  using assms(2,3) unfolding make_expected_services_eval [OF assms(1) list.distinct(2) assms(4)]
  by (auto simp: services_over_def)

lemma make_services_back:
  assumes "db_ok (nbh_database nb)" "this_node (nbh_database nb) = me" "distinct (x # mids @ [me])"
    "\<forall>k \<in> set (x # mids @ [me]). k |\<in>| keys (nbh_database nb)"
  shows "make_expected_services nb (route_segment_new (x # mids @ [me]) c) = Some (Inr (services_back (nbh_database nb) x mids))"
  using assms(2,3) unfolding make_expected_services_eval [OF assms(1) list.distinct(2) assms(4)]
  by (auto simp: services_back_def)

section \<open>The segments of a route\<close>

lemma segment_keys_new: "segment_keys (route_segment_new ks c) = ks"
  by (simp add: route_segment_new_def)

lemma list_ends: "2 \<le> length xs \<Longrightarrow> \<exists>ms. xs = hd xs # ms @ [last xs]"
  by (cases xs) (auto intro: exI [of _ "butlast (tl xs)"])

lemma best_route_shape:
  assumes "search_ok (best_route_search db prefs order target_opt payload_size direction hostname) B"
    and "node_by_key db source = Some source_node" "1 \<le> minimum_hops"
    and "find_best_route_segment db prefs order source target_opt minimum_hops payload_size direction hostname = Some (Some route)"
  obtains mids x where "route = source # mids @ [x]" "distinct route" "linked db route" "\<forall>k \<in> set route. k |\<in>| keys db"
    "\<And>target. target_opt = Some target \<Longrightarrow> x = target"
proof -
  note sound = best_route_sound_aux [OF assms(1,2,4)]
  then have "2 \<le> length route" using assms(3) by linarith
  from list_ends [OF this] obtain mids where r: "route = source # mids @ [last route]" using sound by auto
  have "\<forall>k \<in> set (tl route). k |\<in>| keys db" using sound by (auto simp: keys_def node_by_key_def intro: fmdomI)
  moreover have "source |\<in>| keys db" using assms(2) by (auto simp: keys_def node_by_key_def intro: fmdomI)
  ultimately have "\<forall>k \<in> set route. k |\<in>| keys db" by (subst r) (metis r list.sel(3) set_ConsD)
  with that r sound show thesis by blast
qed

lemma find_best_route_total:
  assumes "search_ok (best_route_search db prefs order target_opt payload_size direction hostname) B" "node_by_key db source = Some source_node"
  obtains route_opt where "find_best_route_segment db prefs order source target_opt minimum_hops payload_size direction hostname = Some route_opt"
  using best_route_optimal_aux [OF refl assms] by blast

section \<open>Expected and reported charges\<close>

text \<open>
  The rates that the services of a list lead the Node to expect from relays, and reports of
  relays that name the wallet, the size and these rates.
\<close>

definition billed :: "expected_service list \<Rightarrow> (public_key \<times> u64 \<times> u64) list" where
  "billed ss = List.map_filter (\<lambda>s. case s of
     ServiceRouting k _ rp \<Rightarrow> Some (k, routing_service_rate rp, routing_byte_rate rp)
   | _ \<Rightarrow> None) ss"

definition charged :: "wallet \<Rightarrow> nat \<Rightarrow> (public_key \<times> report_routing_service_provided) list \<Rightarrow> expected_service list \<Rightarrow> bool" where
  "charged w len reports ss \<longleftrightarrow>
     map (\<lambda>(k, r). (k, report_service_rate r, report_byte_rate r)) reports = billed ss \<and>
     (\<forall>(k, r) \<in> set reports. report_paying_wallet r = w \<and> report_payload_size r = len)"

text \<open>The Hoppers of a network charge the rates that a database has for their Nodes.\<close>

definition priced :: "('s, 'x) network \<Rightarrow> neighborhood_database \<Rightarrow> bool" where
  "priced W db \<longleftrightarrow> (\<forall>k nr. node_by_key db k = Some nr \<longrightarrow>
     per_routing_service (net_hopper W k) = routing_service_rate (inner_rate_pack (inner nr)) \<and>
     per_routing_byte (net_hopper W k) = routing_byte_rate (inner_rate_pack (inner nr)))"

lemma billed_routing [simp]:
  "billed [] = []" "billed (ServiceNothing # ss) = billed ss" "billed (node_service ServiceExit db k # ss) = billed ss"
  "billed (node_service ServiceRouting db k # ss) =
     (k, routing_service_rate (inner_rate_pack (inner (the (node_by_key db k)))), routing_byte_rate (inner_rate_pack (inner (the (node_by_key db k))))) # billed ss"
  by (simp_all add: billed_def node_service_def Let_def map_filter_simps)

lemma billed_append [simp]: "billed (xs @ ys) = billed xs @ billed ys"
  by (simp add: billed_def List.map_filter_def)

lemma relay_reports_charged:
  assumes "priced W db" "distinct (mids @ [x])" "\<forall>k \<in> set mids. k |\<in>| keys db"
  shows "charged w len (relay_reports W w ts len (mids @ [x])) (map (node_service ServiceRouting db) mids) \<and>
    length (relay_reports W w ts len (mids @ [x])) = length mids"
  using assms(2,3)
proof (induction mids arbitrary: ts)
  case Nil
  then show ?case by (simp add: charged_def)
next
  case (Cons k mids)
  obtain nr where "node_by_key db k = Some nr" using Cons.prems(2) by (auto simp: keys_def node_by_key_def elim: fmdomE)
  then have rates: "per_routing_service (net_hopper W k) = routing_service_rate (inner_rate_pack (inner (the (node_by_key db k))))"
    "per_routing_byte (net_hopper W k) = routing_byte_rate (inner_rate_pack (inner (the (node_by_key db k))))"
    using assms(1) by (auto simp: priced_def)
  obtain k' ks where ks: "mids @ [x] = k' # ks" "k' \<noteq> k" using Cons.prems(1) by (cases mids) auto
  have "relay_reports W w ts len ((k # mids) @ [x]) = (k, \<lparr>report_timestamp = ts 0, report_paying_wallet = w, report_payload_size = len,
      report_service_rate = per_routing_service (net_hopper W k), report_byte_rate = per_routing_byte (net_hopper W k)\<rparr>)
      # relay_reports W w (\<lambda>i. ts (Suc i)) len (mids @ [x])"
    using ks by simp
  with Cons show ?case by (simp add: charged_def rates)
qed

lemma charged_services:
  "charged w len reports (services_over db mids x) \<longleftrightarrow> charged w len reports (map (node_service ServiceRouting db) mids)"
  "charged w len reports (services_back db x mids) \<longleftrightarrow> charged w len reports (map (node_service ServiceRouting db) mids)"
  by (simp_all add: charged_def services_over_def services_back_def)

section \<open>Answers to route queries\<close>

text \<open>
  An answer that works: a request with its route comes from the Node that asked to the exit,
  a response with the remaining route comes back and shows the number of the route, and on
  both ways the relays charge what the answer made the Node expect.
\<close>

definition delivers :: "('s, 'x) network \<Rightarrow> (public_key \<Rightarrow> cryptde) \<Rightarrow> u32 codec \<Rightarrow> wallet \<Rightarrow> public_key \<Rightarrow> public_key \<Rightarrow> public_key \<Rightarrow>
    route_query_response \<Rightarrow> bool" where
  "delivers W node ids w me alias_key x answer \<longleftrightarrow>
     (case response_services answer of
        OneWayServices _ \<Rightarrow> False
      | RoundTripServices request_services return_services route_number \<Rightarrow>
          \<forall>request response ts ts'. \<exists>pkg e pkg' e' hop rest reports reports'.
            make_package (net_format W) (node me) ClientRequestLite ClientRequest (response_route answer) request x = Some pkg \<and>
            arrives W ts (length reports) me pkg reports x (ToProxyClient e) \<and> expired_payload e = request \<and>
            charged w (length (incipient_payload pkg)) reports request_services \<and>
            make_package (net_format W) (node x) ClientResponseLite ClientResponse (remaining_route e) response alias_key = Some pkg' \<and>
            arrives W ts' (length reports') x pkg' reports' me (ToProxyServer e') \<and> expired_payload e' = response \<and>
            charged w (length (incipient_payload pkg')) reports' return_services \<and>
            shift (cores_hop_codec (net_format W)) (remaining_route e') (node me) = Some (Inr hop, rest) \<and>
            route_id ids rest (node me) = Some (Inr route_number))"

text \<open>A network that serves the Node with a given state: its surroundings, its wallet and its neighbors fit the network.\<close>

definition serves :: "(public_key \<Rightarrow> cryptde) \<Rightarrow> ('s, 'x) network \<Rightarrow> ('s, 'x) neighborhood_env \<Rightarrow> neighborhood \<Rightarrow> u8 list \<Rightarrow> public_key \<Rightarrow> bool" where
  "serves node W env nb sk alias_key \<longleftrightarrow>
     cipher_ok node \<and> network_ok node W \<and> env_format env = net_format W \<and> env_cryptde env = node (this_node (nbh_database nb)) \<and>
     codec_ok (env_ids env) \<and> codec_ok (payload_codec (net_format W) ClientRequestLite) \<and> codec_ok (payload_codec (net_format W) ClientResponseLite) \<and>
     nbh_consuming_wallet_opt nb = Some (WalletSecretKey sk) \<and>
     (\<forall>r. chain_rec (nbh_chain nb) = Some r \<longrightarrow> accepts_payment W sk (contract_address r)) \<and>
     priced W (nbh_database nb) \<and>
     (\<forall>k. k |\<in>| keys (nbh_database nb) \<longrightarrow> k \<noteq> [] \<and> services (net_hopper W k) = Some True) \<and>
     alias_cryptde (net_hopper W (this_node (nbh_database nb))) = node alias_key \<and> alias_key \<noteq> []"

text \<open>The searches for the two ways of a route find what there is to find.\<close>

definition searches_ok :: "('s, 'x) neighborhood_env \<Rightarrow> neighborhood \<Rightarrow> string option \<Rightarrow> nat \<Rightarrow> nat \<Rightarrow> bool" where
  "searches_ok env nb hostname payload_size B \<longleftrightarrow>
     search_ok (best_route_search (nbh_database nb) (nbh_preferences nb) (search_order env) None payload_size Over hostname) B \<and>
     search_ok (best_route_search (nbh_database nb) (nbh_preferences nb) (search_order env) (Some (this_node (nbh_database nb)))
       (payload_size * RESPONSE_UNDESIRABILITY_FACTOR) Back hostname) B"

lemma composed_answer:
  assumes S: "serves node W env nb sk alias_key" and ok: "db_ok (nbh_database nb)" "this_node (nbh_database nb) = me"
    and over: "distinct (me # mids @ [x])" "\<forall>k \<in> set (me # mids @ [x]). k |\<in>| keys (nbh_database nb)"
    and ret: "distinct (x # mids' @ [me])" "\<forall>k \<in> set (x # mids' @ [me]). k |\<in>| keys (nbh_database nb)"
  obtains route where
    "compose_route_query_response env nb (route_segment_new (me # mids @ [x]) CProxyClient) (route_segment_new (x # mids' @ [me]) CProxyServer) =
       Some (Inr \<lparr>response_route = route, response_services = RoundTripServices (services_over (nbh_database nb) mids x)
         (services_back (nbh_database nb) x mids') (nbh_next_return_route_id nb)\<rparr>,
       nb\<lparr>nbh_next_return_route_id := nbh_next_return_route_id nb + 1\<rparr>)"
    "delivers W node (env_ids env) (WalletAddress (eth_secret_address (cores_eth (net_format W)) sk)) me alias_key x
       \<lparr>response_route = route, response_services = RoundTripServices (services_over (nbh_database nb) mids x)
         (services_back (nbh_database nb) x mids') (nbh_next_return_route_id nb)\<rparr>"
proof -
  let ?db = "nbh_database nb" and ?w = "WalletAddress (eth_secret_address (cores_eth (net_format W)) sk)" and ?n = "nbh_next_return_route_id nb"
  obtain r where r: "chain_rec (nbh_chain nb) = Some r" by (rule chain_rec_identifier)
  have S': "cipher_ok node" "network_ok node W" "env_format env = net_format W" "env_cryptde env = node me" "codec_ok (env_ids env)"
    "codec_ok (payload_codec (net_format W) ClientRequestLite)" "codec_ok (payload_codec (net_format W) ClientResponseLite)"
    "nbh_consuming_wallet_opt nb = Some (WalletSecretKey sk)" "accepts_payment W sk (contract_address r)" "priced W ?db"
    "services (net_hopper W x) = Some True" "alias_cryptde (net_hopper W me) = node alias_key" "alias_key \<noteq> []"
    and ne: "\<forall>k \<in> set (me # mids @ [x]) \<union> set (x # mids' @ [me]). k \<noteq> []"
    using S over(2) ret(2) ok(2) r unfolding serves_def by auto
  obtain route where route: "round_trip (payment_of (net_format W) (env_ids env)) (route_segment_new (me # mids @ [x]) CProxyClient)
      (route_segment_new (x # mids' @ [me]) CProxyServer) (node me) (Some (WalletSecretKey sk)) ?n (Some (contract_address r)) = Some (Inr route)"
    and trip: "\<forall>request response ts ts'. \<exists>pkg e pkg' e' hop rest.
        make_package (net_format W) (node me) ClientRequestLite ClientRequest route request x = Some pkg \<and>
        arrives W ts (length mids) me pkg (relay_reports W ?w (\<lambda>i. ts (Suc i)) (length (incipient_payload pkg)) (mids @ [x])) x (ToProxyClient e) \<and>
        expired_payload e = request \<and>
        make_package (net_format W) (node x) ClientResponseLite ClientResponse (remaining_route e) response alias_key = Some pkg' \<and>
        arrives W ts' (length mids') x pkg' (relay_reports W ?w (\<lambda>i. ts' (Suc i)) (length (incipient_payload pkg')) (mids' @ [me])) me (ToProxyServer e') \<and>
        expired_payload e' = response \<and> shift (cores_hop_codec (net_format W)) (remaining_route e') (node me) = Some (Inr hop, rest) \<and>
        route_id (env_ids env) rest (node me) = Some (Inr ?n)"
    using round_trip_delivery_aux [OF S'(1,2,9,5,6,7), where over = "me # mids @ [x]" and back_keys = "x # mids' @ [me]" and route_number = ?n
        and alias_key = alias_key] ne S'(11-13) by auto
  have out: "charged ?w len (relay_reports W ?w ts len (mids @ [x])) (services_over ?db mids x) \<and> length (relay_reports W ?w ts len (mids @ [x])) = length mids"
    and back_reports: "charged ?w len (relay_reports W ?w ts len (mids' @ [me])) (services_back ?db x mids') \<and> length (relay_reports W ?w ts len (mids' @ [me])) = length mids'"
    for len ts using relay_reports_charged [OF S'(10)] over ret by (simp_all add: charged_services)
  have "delivers W node (env_ids env) ?w me alias_key x \<lparr>response_route = route, response_services =
      RoundTripServices (services_over ?db mids x) (services_back ?db x mids') ?n\<rparr>"
    unfolding delivers_def route_query_response.simps expected_services.case using trip out back_reports by metis
  then show thesis using that [of route] route S'(3,4,8) r
    by (simp add: compose_route_query_response_def make_services_over [OF ok over] make_services_back [OF ok ret] advance_return_route_id_def
        segment_keys_new Let_def)
qed

lemma hops_number_pos: "1 \<le> hops_number h"
  by (cases h) simp_all

lemma route_query_found:
  assumes S: "serves node W env nb sk alias_key" and ok: "db_ok (nbh_database nb)" "this_node (nbh_database nb) = me"
    and mode: "nbh_mode nb \<noteq> ZeroHopLight" "payload_size * RESPONSE_UNDESIRABILITY_FACTOR < USIZE_BOUND"
    and over: "find_best_route_segment (nbh_database nb) (nbh_preferences nb) (search_order env) me None (hops_number (nbh_min_hops nb))
      payload_size Over hostname = Some (Some (me # mids @ [x]))"
    and ret: "find_best_route_segment (nbh_database nb) (nbh_preferences nb) (search_order env) x (Some me) (hops_number (nbh_min_hops nb))
      (payload_size * RESPONSE_UNDESIRABILITY_FACTOR) Back hostname = Some (Some (x # mids' @ [me]))"
    and over_keys: "distinct (me # mids @ [x])" "\<forall>k \<in> set (me # mids @ [x]). k |\<in>| keys (nbh_database nb)"
    and back_keys: "distinct (x # mids' @ [me])" "\<forall>k \<in> set (x # mids' @ [me]). k |\<in>| keys (nbh_database nb)"
  obtains answer where "handle_route_query_message env nb (data_indefinite_route_request hostname payload_size) =
      Some (Some answer, nb\<lparr>nbh_next_return_route_id := nbh_next_return_route_id nb + 1\<rparr>)"
    "response_services answer = RoundTripServices (services_over (nbh_database nb) mids x) (services_back (nbh_database nb) x mids')
      (nbh_next_return_route_id nb)"
    "delivers W node (env_ids env) (WalletAddress (eth_secret_address (cores_eth (net_format W)) sk)) me alias_key x answer"
proof -
  have key: "own_key env = me" using S ok(2) by (auto simp: serves_def cipher_ok_def)
  show thesis
  proof (rule composed_answer [OF S ok over_keys back_keys])
    fix route
    let ?answer = "\<lparr>response_route = route, response_services = RoundTripServices (services_over (nbh_database nb) mids x)
      (services_back (nbh_database nb) x mids') (nbh_next_return_route_id nb)\<rparr>"
    assume made: "compose_route_query_response env nb (route_segment_new (me # mids @ [x]) CProxyClient) (route_segment_new (x # mids' @ [me]) CProxyServer) =
        Some (Inr ?answer, nb\<lparr>nbh_next_return_route_id := nbh_next_return_route_id nb + 1\<rparr>)"
      and d: "delivers W node (env_ids env) (WalletAddress (eth_secret_address (cores_eth (net_format W)) sk)) me alias_key x ?answer"
    have "handle_route_query_message env nb (data_indefinite_route_request hostname payload_size) =
        Some (Some ?answer, nb\<lparr>nbh_next_return_route_id := nbh_next_return_route_id nb + 1\<rparr>)"
      using mode by (simp add: handle_route_query_message_def make_round_trip_route_def make_route_segment_def data_indefinite_route_request_def
          key over ret last_opt_def segment_keys_new made)
    from that [OF this _ d] show thesis by simp
  qed
qed

text \<open>
  C3: a route query is answered with a route that works at the expected price.  In a network
  that serves the Node, with searches that stay within their bounds, a query for a route to
  any exit does not panic.  It goes unanswered, and changes nothing, only if the search finds
  no way over, or no way back from the exit of the way over.  Otherwise the answer has the
  next number; its services are none at the own Node, routing at each Node between, and exit
  at the last; and the answer works: requests arrive at the exit, responses come back, and
  the relays report exactly the charges that the answer lists.
\<close>

theorem route_query_delivers:
  assumes S: "serves node W env nb sk alias_key" and search: "searches_ok env nb hostname payload_size B"
    and mode: "nbh_mode nb \<noteq> ZeroHopLight"
  defines "db \<equiv> nbh_database nb" and "me \<equiv> this_node (nbh_database nb)"
  shows "\<exists>answer_opt nb'. handle_route_query_message env nb (data_indefinite_route_request hostname payload_size) = Some (answer_opt, nb') \<and>
    (case answer_opt of
       None \<Rightarrow> nb' = nb \<and> (\<exists>route_opt. find_best_route_segment db (nbh_preferences nb) (search_order env) me None (hops_number (nbh_min_hops nb))
           payload_size Over hostname = Some route_opt \<and> (\<forall>route. route_opt = Some route \<longrightarrow>
             find_best_route_segment db (nbh_preferences nb) (search_order env) (last route) (Some me) (hops_number (nbh_min_hops nb))
               (payload_size * RESPONSE_UNDESIRABILITY_FACTOR) Back hostname = Some None))
     | Some answer \<Rightarrow> nb' = nb\<lparr>nbh_next_return_route_id := nbh_next_return_route_id nb + 1\<rparr> \<and>
         (\<exists>mids x mids'. distinct (me # mids @ [x]) \<and> distinct (x # mids' @ [me]) \<and>
            linked db (me # mids @ [x]) \<and> linked db (x # mids' @ [me]) \<and>
            response_services answer = RoundTripServices (services_over db mids x) (services_back db x mids') (nbh_next_return_route_id nb) \<and>
            delivers W node (env_ids env) (WalletAddress (eth_secret_address (cores_eth (net_format W)) sk)) me alias_key x answer))"
proof -
  let ?h = "hops_number (nbh_min_hops nb)" and ?big = "payload_size * RESPONSE_UNDESIRABILITY_FACTOR"
  let ?find = "find_best_route_segment db (nbh_preferences nb) (search_order env)"
  note over_search = conjunct1 [OF search [unfolded searches_ok_def, folded db_def me_def]]
    and back_search = conjunct2 [OF search [unfolded searches_ok_def, folded db_def me_def]]
  have ok: "db_ok db" using over_search by (simp add: search_ok_def best_route_search_def)
  then obtain rt where rt: "node_by_key db me = Some rt" using db_ok_root by (auto simp: root_def me_def db_def)
  have me: "this_node db = me" by (simp add: me_def db_def)
  have key: "own_key env = me" using S by (auto simp: serves_def cipher_ok_def me_def)
  have small: "?big < USIZE_BOUND" using back_search by (simp add: search_ok_def best_route_search_def USIZE_BOUND_def)
  note eval = handle_route_query_message_def make_round_trip_route_def make_route_segment_def data_indefinite_route_request_def
    db_def [symmetric] key mode linorder_not_le [THEN iffD2, OF small] last_opt_def segment_keys_new
  obtain over_opt where over: "?find me None ?h payload_size Over hostname = Some over_opt"
    by (rule find_best_route_total [OF over_search rt])
  show ?thesis
  proof (cases over_opt)
    case None
    with over show ?thesis by (simp add: eval)
  next
    case (Some over_keys)
    obtain mids x where o: "over_keys = me # mids @ [x]" "distinct over_keys" "linked db over_keys" "\<forall>k \<in> set over_keys. k |\<in>| keys db"
      by (rule best_route_shape [OF over_search rt hops_number_pos over [unfolded Some]])
    then obtain xr where xr: "node_by_key db x = Some xr" by (auto simp: keys_def node_by_key_def elim: fmdomE)
    obtain back_opt where ret: "?find x (Some me) ?h ?big Back hostname = Some back_opt"
      by (rule find_best_route_total [OF back_search xr])
    show ?thesis
    proof (cases back_opt)
      case None
      with over ret Some o(1) show ?thesis by (simp add: eval)
    next
      case back_some: (Some back_keys)
      obtain mids' y where b: "back_keys = x # mids' @ [y]" "distinct back_keys" "linked db back_keys" "\<forall>k \<in> set back_keys. k |\<in>| keys db" "y = me"
        using best_route_shape [OF back_search xr hops_number_pos ret [unfolded back_some]] by metis
      obtain answer where "handle_route_query_message env nb (data_indefinite_route_request hostname payload_size) =
          Some (Some answer, nb\<lparr>nbh_next_return_route_id := nbh_next_return_route_id nb + 1\<rparr>)"
        "response_services answer = RoundTripServices (services_over db mids x) (services_back db x mids') (nbh_next_return_route_id nb)"
        "delivers W node (env_ids env) (WalletAddress (eth_secret_address (cores_eth (net_format W)) sk)) me alias_key x answer"
        by (rule route_query_found [OF S, folded db_def, OF ok me mode small over [unfolded Some o(1)] ret [unfolded back_some b(1,5)]
              o(2,4) [unfolded o(1)] b(2,4) [unfolded b(1,5)]])
      moreover note o(2,3) [unfolded o(1)] b(2,3) [unfolded b(1,5)]
      ultimately show ?thesis by (intro exI conjI) (assumption, simp, blast)
    qed
  qed
qed

text \<open>A Node with one neighbor, in a network on the development chain.\<close>

definition market_node :: "public_key \<Rightarrow> cryptde" where
  "market_node = null_from (\<lambda>k. create_digest sample_eth k MULTINODE_TESTNET_CONTRACT_ADDRESS)"

definition market :: "(u8 list, nat) network" where
  "market = sample_network\<lparr>net_hopper := (\<lambda>k. hopper_bind True (hopper_new (market_node k) (market_node (9 # k)) 0 0 True))\<rparr>"

definition sample_neighborhood :: neighborhood where
  "sample_neighborhood = \<lparr>nbh_bound = True, nbh_pass_targets = fmempty, nbh_producer = producer_new 0, nbh_database = sample_pair,
     nbh_consuming_wallet_opt = Some (WalletSecretKey [5]), nbh_mode = StandardLight, nbh_min_hops = OneHop, nbh_db_patch_size = 3,
     nbh_next_return_route_id = - 1, nbh_status = \<lparr>ocs_stage = NotConnected, ocs_progress = []\<rparr>, nbh_chain = Dev, nbh_crashable = False,
     nbh_connected = True, nbh_db_password_opt = None, nbh_preferences = preferences_new\<rparr>"

definition sample_surroundings :: "(u8 list, nat) neighborhood_env" where
  "sample_surroundings = \<lparr>env_format = sample_format, env_ids = unary_codec, env_cryptde = market_node [1], env_acceptor = sample_env,
     gossip_payload = length, failure_payload = (\<lambda>_. 0), search_order = (\<lambda>_. sorted_list_of_fset), set_order = sorted_list_of_fset,
     produce_clock = (\<lambda>_. (0, 0, 0)), contact_key = Some, config_min_hops = Some OneHop\<rparr>"

lemma sample_serves: "serves market_node market sample_surroundings sample_neighborhood [5] [9, 1]"
proof -
  have "cde_digest (market_node k) = create_digest sample_eth k MULTINODE_TESTNET_CONTRACT_ADDRESS" for k
    by (simp add: market_node_def null_from_def null_as_cryptde_def null_set_key_pair_def)
  moreover have "cipher_ok market_node" unfolding market_node_def by (rule null_cipher)
  moreover have "chain_rec Dev = Some r \<Longrightarrow> contract_address r = MULTINODE_TESTNET_CONTRACT_ADDRESS" for r
    by (auto simp: chain_rec_def CHAINS_def)
  moreover have "k |\<in>| keys sample_pair \<Longrightarrow> k \<noteq> []" for k by (auto simp: keys_def sample_pair_def)
  ultimately show ?thesis
    by (auto simp: serves_def network_ok_def market_def sample_network_def sample_format_def hopper_bind_def hopper_new_def unary_codec_ok
        accepts_payment_def eth_ok_def sample_eth_def sample_surroundings_def sample_neighborhood_def priced_def sample_pair_nodes
        sample_record_def sample_inner_def ZERO_RATE_PACK_def) (auto simp: sample_pair_def)
qed

lemma sample_back_ok: "search_ok (best_route_search sample_pair preferences_new (\<lambda>_. sorted_list_of_fset) (Some [1]) 0 Back None) 100000000"
  using sample_search_ok by (simp add: search_ok_def sample_search_def best_route_search_def)

lemma sample_searches_ok: "searches_ok sample_surroundings sample_neighborhood None 0 100000000"
  using sample_search_ok sample_back_ok
  by (simp add: searches_ok_def sample_neighborhood_def sample_surroundings_def sample_search_def) (simp add: sample_pair_def)

lemma sample_back_candidate:
  "candidate (best_route_search sample_pair preferences_new (\<lambda>_. sorted_list_of_fset) (Some [1]) 0 Back None) [[2]] 0 1 [[2], [1]] 0"
    (is "candidate ?rs _ _ _ _ _")
proof (rule candidate.hop)
  note defs = best_route_search_def route_qualifies_def route_length_qualifies_def last_key_qualifies_def
    validate_last_node_not_too_close_to_first_node_def validate_last_node_country_code_def last_node_is_always_true_def
    preferences_new_def
  show "search_open ?rs [[2]] 1"
    by (simp add: search_open_def defs sample_pair_nodes route_exhausted_def)
  show "node_by_key (rs_db ?rs) (last [[2]]) = Some (sample_record 2 [1])"
    by (simp add: best_route_search_def sample_pair_nodes)
  show "[1] |\<in>| full_neighbor_keys (sample_record 2 [1]) (rs_db ?rs)" "node_by_key (rs_db ?rs) [1] = Some (sample_record 1 [2])"
    by (simp_all add: best_route_search_def full_neighbor_keys_def half_neighbor_keys_def sample_pair_def
        node_by_key_def record_has_half_neighbor_def public_key_def sample_record_def sample_inner_def)
  show "next_hop_ok ?rs [[2]] (sample_record 1 [2])"
    by (simp add: next_hop_ok_def public_key_def routes_data_def sample_record_def sample_inner_def)
  show "compute_new_undesirability ?rs (sample_record 1 [2]) 0 (1 - 1) = Some 0"
    using compute_undesirability_value [of "sample_record 1 [2]" 0 Relay]
    by (simp add: compute_new_undesirability_def undesirability_type_for_def defs full_charge_def undesirability_value_def
        sample_record_def sample_inner_def ZERO_RATE_PACK_def metadata_new_def i64_add_def i64_ok_def)
  have "search_done ?rs [[2], [1]] 0"
    by (simp add: search_done_def defs sample_pair_nodes) (simp add: public_key_def sample_record_def sample_inner_def)
  then show "candidate ?rs ([[2]] @ [public_key (sample_record 1 [2])]) 0 (1 - 1) [[2], [1]] 0"
    by (simp add: public_key_def sample_record_def sample_inner_def candidate.here)
qed

lemma sample_over_found:
  assumes "find_best_route_segment sample_pair preferences_new (\<lambda>_. sorted_list_of_fset) [1] None 1 0 Over None = Some route_opt"
  shows "route_opt = Some [[1], [2]]"
proof -
  have init: "compute_initial_undesirability sample_search [1] = Some 0"
    by (simp add: compute_initial_undesirability_def sample_search_def best_route_search_def)
  have node: "node_by_key sample_pair [1] = Some (sample_record 1 [2])" by (simp add: sample_pair_nodes)
  obtain route where r: "route_opt = Some route"
    using best_route_optimal_aux [OF sample_search_def sample_search_ok node, of 1] init sample_candidate assms
    by (auto split: option.splits)
  note sound = best_route_sound_aux [OF sample_search_ok [unfolded sample_search_def] node assms [unfolded r]]
  then have "length route = Suc (Suc 0)" by (simp add: preferences_new_def)
  then obtain a b where "route = [a, b]" unfolding length_Suc_conv by auto
  with sound r show ?thesis by (auto simp: sample_pair_nodes)
qed

lemma sample_back_found:
  "find_best_route_segment sample_pair preferences_new (\<lambda>_. sorted_list_of_fset) [2] (Some [1]) 1 0 Back None \<noteq> Some None"
proof -
  have node: "node_by_key sample_pair [2] = Some (sample_record 2 [1])" by (simp add: sample_pair_nodes)
  have "compute_initial_undesirability (best_route_search sample_pair preferences_new (\<lambda>_. sorted_list_of_fset) (Some [1]) 0 Back None) [2] = Some 0"
    using compute_undesirability_value [of "sample_record 2 [1]" 0 ExitAndRouteResponse]
    by (simp add: compute_initial_undesirability_def best_route_search_def node full_charge_def undesirability_value_def
        sample_record_def sample_inner_def ZERO_RATE_PACK_def metadata_new_def)
  then show ?thesis
    using best_route_optimal_aux [OF refl sample_back_ok node, of 1] sample_back_candidate by (auto split: option.splits)
qed

theorem route_query_delivers_witness:
  "\<exists>answer nb'. handle_route_query_message sample_surroundings sample_neighborhood (data_indefinite_route_request None 0) = Some (Some answer, nb') \<and>
     nbh_next_return_route_id nb' = 0 \<and> (\<exists>x. delivers market market_node unary_codec (WalletAddress [5]) [1] [9, 1] x answer)"
proof -
  have mode: "nbh_mode sample_neighborhood \<noteq> ZeroHopLight" by (simp add: sample_neighborhood_def)
  have eval: "nbh_database sample_neighborhood = sample_pair" "this_node sample_pair = [1]" "nbh_preferences sample_neighborhood = preferences_new"
    "search_order sample_surroundings = (\<lambda>_. sorted_list_of_fset)" "hops_number (nbh_min_hops sample_neighborhood) = 1"
    "nbh_next_return_route_id sample_neighborhood = - 1" "env_ids sample_surroundings = unary_codec"
    "eth_secret_address (cores_eth (net_format market)) [5] = [5]"
    by (simp_all add: sample_neighborhood_def sample_surroundings_def sample_pair_def market_def sample_network_def sample_format_def sample_eth_def)
  from route_query_delivers [OF sample_serves sample_searches_ok mode, unfolded eval]
  show ?thesis using sample_over_found sample_back_found by (auto split: option.splits)
qed

section \<open>Requests for exit countries\<close>

text \<open>What synchronizing the exit countries with a list of requested ones does.\<close>

definition synchronized :: "string list \<Rightarrow> user_exit_preferences \<Rightarrow> string list \<Rightarrow> user_exit_preferences \<Rightarrow> bool" where
  "synchronized codes prefs missing prefs' \<longleftrightarrow>
     missing = filter (\<lambda>c. c \<notin> set (db_countries prefs)) codes \<and>
     prefs' = prefs\<lparr>exit_countries := exit_countries prefs'\<rparr> \<and> distinct (exit_countries prefs') \<and>
     set (exit_countries prefs') = (set (exit_countries prefs) - set codes) \<union> {c \<in> set codes. code_in_db_countries_or_fallback_active prefs c}"

lemma synchronizedE:
  assumes "synchronized codes prefs missing prefs'"
  shows "missing = filter (\<lambda>c. c \<notin> set (db_countries prefs)) codes" "distinct (exit_countries prefs')"
    "db_countries prefs' = db_countries prefs" "fallback_preference prefs' = fallback_preference prefs" "locations_opt prefs' = locations_opt prefs"
    "set (exit_countries prefs') = (set (exit_countries prefs) - set codes) \<union> {c \<in> set codes. code_in_db_countries_or_fallback_active prefs c}"
  using assms unfolding synchronized_def
  by (simp, simp, metis user_exit_preferences.select_convs(4) user_exit_preferences.update_convs(1) user_exit_preferences.surjective,
      metis user_exit_preferences.select_convs(2) user_exit_preferences.update_convs(1) user_exit_preferences.surjective,
      metis user_exit_preferences.select_convs(3) user_exit_preferences.update_convs(1) user_exit_preferences.surjective, simp)

lemma synchronized_append:
  assumes "synchronized codes prefs missing prefs1" "synchronized codes' prefs1 missing' prefs2"
  shows "synchronized (codes @ codes') prefs (missing @ missing') prefs2"
proof -
  note e = synchronizedE [OF assms(1)]
  have "code_in_db_countries_or_fallback_active prefs1 = code_in_db_countries_or_fallback_active prefs"
    by (simp add: fun_eq_iff code_in_db_countries_or_fallback_active_def e(3,4))
  moreover have "prefs2 = prefs\<lparr>exit_countries := exit_countries prefs2\<rparr>"
    using assms unfolding synchronized_def by (metis user_exit_preferences.update_convs(1) user_exit_preferences.surjective)
  ultimately show ?thesis
    using assms e unfolding synchronized_def by auto
qed

lemma synchronize_codes:
  "distinct (exit_countries prefs) \<Longrightarrow> synchronize_exit_countries_and_return_missing codes prefs = (missing, prefs') \<Longrightarrow>
   synchronized codes prefs missing prefs'"
proof (induction codes prefs arbitrary: missing prefs' rule: synchronize_exit_countries_and_return_missing.induct)
  case (1 prefs)
  then show ?case by (simp add: synchronized_def)
next
  case (2 code codes prefs)
  let ?now = "if code_in_db_countries_or_fallback_active prefs code
     then if code \<notin> set (exit_countries prefs) then prefs\<lparr>exit_countries := exit_countries prefs @ [code]\<rparr> else prefs
     else prefs\<lparr>exit_countries := remove1 code (exit_countries prefs)\<rparr>"
  let ?miss = "if code \<in> set (db_countries prefs) then [] else [code]"
  have one: "synchronized [code] prefs ?miss ?now"
    using 2(3) by (auto simp: synchronized_def code_in_db_countries_or_fallback_active_def)
  obtain missing' where "synchronize_exit_countries_and_return_missing codes ?now = (missing', prefs')" "missing = ?miss @ missing'"
    using 2(4) by (auto simp: Let_def code_in_db_countries_or_fallback_active_def fallback_active_and_code_missing_in_db_countries_def
        split: prod.splits if_splits)
  moreover have "distinct (exit_countries ?now)" using 2(3) by auto
  ultimately have "synchronized codes ?now missing' prefs'" using 2(1) [OF _ refl] 2(2) by (auto split: if_splits)
  from synchronized_append [OF one this] show ?case using \<open>missing = ?miss @ missing'\<close> by simp
qed

lemma synchronize_each_codes:
  "distinct (exit_countries prefs) \<Longrightarrow> synchronize_each locs prefs = (missing, prefs') \<Longrightarrow>
   synchronized (concat (map country_codes locs)) prefs missing prefs'"
proof (induction locs prefs arbitrary: missing prefs' rule: synchronize_each.induct)
  case (1 prefs)
  then show ?case by (simp add: synchronized_def)
next
  case (2 loc locs prefs)
  obtain missing1 prefs1 missing2 where s: "synchronize_exit_countries_and_return_missing (country_codes loc) prefs = (missing1, prefs1)"
    "synchronize_each locs prefs1 = (missing2, prefs')" "missing = missing1 @ missing2"
    using 2(3) by (auto split: prod.splits)
  note first = synchronize_codes [OF 2(2) s(1)]
  from 2(1) [OF s(1) [symmetric] refl synchronizedE(2) [OF first] s(2)] synchronized_append [OF first] s(3)
  show ?case by simp
qed

lemma set_country_undesirability_preferences:
  "set_country_undesirability_and_exit_countries nb locs = Some nb' \<Longrightarrow> locs \<noteq> [] \<Longrightarrow> nbh_preferences nb' = nbh_preferences nb"
  by (auto simp: set_country_undesirability_and_exit_countries_def split: Option.bind_split_asm)

lemma set_exit_locations_opt_keeps [simp]:
  "exit_countries (set_exit_locations_opt prefs locs) = exit_countries prefs"
  "db_countries (set_exit_locations_opt prefs locs) = db_countries prefs"
  "fallback_preference (set_exit_locations_opt prefs locs) = fallback_preference prefs"
  by (simp_all add: set_exit_locations_opt_def)

definition reports_missing :: "string list \<Rightarrow> ui_body \<Rightarrow> bool" where
  "reports_missing missing body =
     (case body of
        UiSetExitLocationResponse r \<Rightarrow> sort (missing_countries r) = sort missing
      | UiExitLocationError code message \<Rightarrow> code = EXIT_COUNTRY_MISSING_COUNTRIES_ERROR \<and> message = join '', '' missing
      | UiConnectionStatusResponse _ \<Rightarrow> False)"

lemma create_exit_location_response_missing:
  "\<exists>body. create_exit_location_response prefs client_id context_id missing flag = UiMessage client_id context_id body \<and> reports_missing missing body"
proof -
  obtain indicates missing' where i: "error_message_indicates prefs missing = (indicates, missing')" by fastforce
  then have "sort missing' = sort missing" by (auto simp: error_message_indicates_def Let_def sorted_sort_id split: if_splits)
  with i show ?thesis by (cases indicates) (auto simp: create_exit_location_response_def reports_missing_def)
qed

text \<open>The preferences after a request, from those with the exit countries synchronized.\<close>

definition requested_preferences :: "ui_set_exit_location_request \<Rightarrow> user_exit_preferences \<Rightarrow> user_exit_preferences" where
  "requested_preferences message prefs =
     (let p = prefs\<lparr>fallback_preference :=
            (if request_exit_locations message = [] then Nothing
             else if request_fallback_routing message then ExitCountryWithFallback else ExitCountryNoFallback)\<rparr>
      in if \<not> request_show_countries message then set_exit_locations_opt p (request_exit_locations message) else p)"

lemma requested_preferences_simps [simp]:
  "exit_countries (requested_preferences message prefs) = exit_countries prefs" "db_countries (requested_preferences message prefs) = db_countries prefs"
  "fallback_preference (requested_preferences message prefs) =
     (if request_exit_locations message = [] then Nothing else if request_fallback_routing message then ExitCountryWithFallback else ExitCountryNoFallback)"
  by (simp_all add: requested_preferences_def Let_def)

lemma handle_exit_location_eval:
  assumes "init_db_countries env nb = Some countries"
    and "synchronize_each (request_exit_locations message) ((nbh_preferences nb)\<lparr>db_countries := countries\<rparr>) = (missing, prefs)"
  defines "nb1 \<equiv> nb\<lparr>nbh_preferences := requested_preferences message prefs\<rparr>"
  shows "handle_exit_location_message env nb message client_id context_id = do {
      nb \<leftarrow> (if 1 < fcard (keys (nbh_database nb)) then set_country_undesirability_and_exit_countries nb1 (request_exit_locations message) else Some nb1);
      outs \<leftarrow> send_bound nb [create_exit_location_response (nbh_preferences nb) client_id context_id missing (request_show_countries message)];
      Some (nb, outs) }"
  using assms(1,2) by (auto simp: handle_exit_location_message_def extract_exit_locations_from_message_def refresh_db_countries_def
      requested_preferences_def nb1_def Let_def)

text \<open>
  C33: what a request for exit countries does.  After a request that names countries, the
  countries through which routes may leave are those requested now that the neighborhood has
  exits in, or all those requested now if the previous request allowed falling back; and, on
  top of them, every country of earlier requests that this one does not name.  The answer
  names as missing exactly the requested countries that the neighborhood has no exits in.
\<close>

theorem exit_request_countries:
  assumes "handle_exit_location_message env nb message client_id context_id = Some (nb', outs)"
    and "distinct (exit_countries (nbh_preferences nb))" "request_exit_locations message \<noteq> []"
  defines "requested \<equiv> concat (map country_codes (request_exit_locations message))"
  shows "\<exists>countries body. init_db_countries env nb = Some countries \<and> db_countries (nbh_preferences nb') = countries \<and>
    set (exit_countries (nbh_preferences nb')) = (set (exit_countries (nbh_preferences nb)) - set requested) \<union>
      {c \<in> set requested. c \<in> set countries \<or> fallback_preference (nbh_preferences nb) = ExitCountryWithFallback} \<and>
    fallback_preference (nbh_preferences nb') = (if request_fallback_routing message then ExitCountryWithFallback else ExitCountryNoFallback) \<and>
    outs = [UiMessage client_id context_id body] \<and> reports_missing (filter (\<lambda>c. c \<notin> set countries) requested) body"
proof -
  obtain countries where c: "init_db_countries env nb = Some countries"
    using assms(1) by (auto simp: handle_exit_location_message_def extract_exit_locations_from_message_def refresh_db_countries_def
        split: Option.bind_split_asm)
  define prefs where "prefs = (nbh_preferences nb)\<lparr>db_countries := countries\<rparr>"
  obtain missing prefs' where sync: "synchronize_each (request_exit_locations message) prefs = (missing, prefs')" by fastforce
  have "distinct (exit_countries prefs)" using assms(2) by (simp add: prefs_def)
  note e = synchronizedE [OF synchronize_each_codes [OF this sync]]
  define nb1 where "nb1 = nb\<lparr>nbh_preferences := requested_preferences message prefs'\<rparr>"
  from assms(1) have nb': "(if 1 < fcard (keys (nbh_database nb)) then set_country_undesirability_and_exit_countries nb1 (request_exit_locations message) else Some nb1) = Some nb'"
    and outs: "outs = [create_exit_location_response (nbh_preferences nb') client_id context_id missing (request_show_countries message)]"
    unfolding handle_exit_location_eval [OF c sync [unfolded prefs_def]] nb1_def [symmetric]
    by (auto simp: send_bound_def split: Option.bind_split_asm if_split_asm)
  have "nbh_preferences nb' = requested_preferences message prefs'"
    using nb' nb1_def assms(3) set_country_undesirability_preferences by (auto split: if_splits)
  moreover obtain body where "outs = [UiMessage client_id context_id body]" "reports_missing missing body"
    using outs create_exit_location_response_missing by metis
  ultimately show ?thesis
    using c e assms(3) by (auto simp: requested_def prefs_def code_in_db_countries_or_fallback_active_def)
qed

section \<open>Messages between Neighborhoods\<close>

text \<open>
  A message for the Neighborhood of a Node whose address is known: given to the own Hopper it
  leaves for the first socket of the address, and the Hopper that it is for hands it on with
  the address it came from, though nobody pays for it.
\<close>

text \<open>A package that its Hopper sends to a socket of the address, and from which the Hopper of a Node hands on a payload.\<close>

definition reaches :: "('s, 'x) network \<Rightarrow> u32 codec \<Rightarrow> public_key \<Rightarrow> no_lookup_incipient_cores_package \<Rightarrow> public_key \<Rightarrow>
    ('x expired_cores_package \<Rightarrow> 'x hopper_output) \<Rightarrow> 'x \<Rightarrow> bool" where
  "reaches W ids j pkg k out x \<longleftrightarrow>
     (\<exists>c socket. socket \<in> set (node_addr_sockets (no_lookup_node_addr pkg)) \<and>
        hopper_no_lookup (net_format W) ids (net_hopper W j) pkg = Some (launch_lcp c (EndpointSocket socket)) \<and>
        (\<forall>ibcd now. ibcd_data ibcd = c \<longrightarrow>
           (\<exists>e. inbound_at W now k ibcd = Some [out e] \<and> immediate_neighbor e = client_addr ibcd \<and> expired_payload e = x)))"

lemma payer_none: "payer_for pay None contract k = Some None"
  by (simp add: payer_for_def)

context cipher
begin

lemma no_lookup_leaves:
  assumes W: "network_ok node W" and k: "j \<noteq> []" "k \<noteq> []" "addr_ports addr = port # ports"
    and pkg: "no_lookup_incipient_new (net_format W) (node j) k addr m = Inr pkg"
  obtains lcp c where "hopper_no_lookup (net_format W) ids (net_hopper W j) pkg = Some (launch_lcp c (EndpointSocket (addr_ip addr, port)))"
    "decodex (lcp_codec (net_format W)) (node k) c = Some (Inr lcp)" "lcp_payload lcp = no_lookup_payload pkg"
    "carries (cores_hop_codec (net_format W)) node k [live_hop_new [] None CNeighborhood] (lcp_route lcp)"
proof -
  let ?fmt = "net_format W"
  have p: "no_lookup_public_key pkg = k" "no_lookup_node_addr pkg = addr"
    using pkg by (auto simp: no_lookup_incipient_new_def split: sum.splits)
  have main: "main_cryptde (net_hopper W j) = node j" "services (net_hopper W j) \<noteq> None" and codecs: "codec_ok (cores_hop_codec ?fmt)" "codec_ok (lcp_codec ?fmt)"
    using W by (auto simp: network_ok_def)
  have pay: "hop_codec (payment_of ?fmt ids) = cores_hop_codec ?fmt" by (simp add: payment_of_def)
  obtain r where r: "one_way (payment_of ?fmt ids) (route_segment_new [j, k] CNeighborhood) (node j) None None = Some (Inr r)"
    and c: "carries (cores_hop_codec ?fmt) node j (hops_along (\<lambda>_. None) CHopper [j, k] @ [last_hop (\<lambda>_. None) CNeighborhood [j, k]]) r"
    using one_way_carries [where pay = "payment_of ?fmt ids" and ks = "[j, k]" and payer = "\<lambda>_. None" and j = j and wallet = None and contract = None
        and recipient = CNeighborhood, unfolded pay, OF _ codecs(1)] k by (auto simp: payer_none)
  then have "single_hop (payment_of ?fmt ids) k (node j) = Some (Inr r)" by (simp add: single_hop_def one_way_def)
  moreover have hops: "carries (cores_hop_codec ?fmt) node j (live_hop_new k None CHopper # [live_hop_new [] None CNeighborhood]) r"
    using c by (simp add: last_hop_def)
  obtain r' where "shift (cores_hop_codec ?fmt) r (node j) = Some (Inr (live_hop_new k None CHopper), r')"
    "carries (cores_hop_codec ?fmt) node k [live_hop_new [] None CNeighborhood] r'"
    using shift_carries [OF hops] by (metis live_hop.select_convs(1) live_hop_new_def)
  moreover define lcp where "lcp = \<lparr>lcp_version = (0, 0, 0), lcp_route = r', lcp_payload = no_lookup_payload pkg\<rparr>"
  ultimately have live: "from_no_lookup_incipient ?fmt ids pkg (node j) = Some (Inr (lcp, k))"
    and route: "carries (cores_hop_codec ?fmt) node k [live_hop_new [] None CNeighborhood] (lcp_route lcp)"
    by (simp_all add: from_no_lookup_incipient_def p lcp_new_eval)
  obtain e where "encodex (lcp_codec ?fmt) (node j) k lcp = Inr e" "decodex (lcp_codec ?fmt) (node k) e = Some (Inr lcp)"
    using encodex_decodex [OF codecs(2) k(2), of j lcp] by blast
  with live k(3) main route show thesis
    by (intro that [of e lcp]) (auto simp: hopper_no_lookup_def consume_no_lookup_def p node_addr_sockets_def first_opt_def lcp_def)
qed

lemma unpaid_arrives:
  assumes W: "network_ok node W" and i: "decodex (lcp_codec (net_format W)) (node k) (ibcd_data ibcd) = Some (Inr lcp)"
    and c: "carries (cores_hop_codec (net_format W)) node k [live_hop_new [] None CNeighborhood] (lcp_route lcp)"
    and d: "decodex (message_codec (net_format W)) (node k) (lcp_payload lcp) = Some (Inr m)"
  shows "inbound_at W now k ibcd = route_expired_package (net_format W) (net_hopper W k) CNeighborhood
    \<lparr>immediate_neighbor = client_addr ibcd, paying_wallet = None, remaining_route = lcp_route lcp,
     expired_payload = m, payload_len = length (lcp_payload lcp)\<rparr> False"
proof -
  have main: "main_cryptde (net_hopper W k) = node k" "services (net_hopper W k) \<noteq> None" using W by (auto simp: network_ok_def)
  show ?thesis using main i d
    by (auto simp: inbound_at_def hopper_inbound_def route_ibcd_def next_hop_carries [OF c] route_data_def live_hop_new_def route_data_internally_def
        payer_owns_secret_key_def route_data_to_peripheral_component_def extract_expired_package_def to_expired_def)
qed

lemma message_reaches:
  assumes W: "network_ok node W" and codec: "codec_ok (payload_codec (net_format W) kind)"
    and k: "j \<noteq> []" "k \<noteq> []" "addr_ports addr \<noteq> []"
    and deliver: "\<And>pkg vd. migrate_payload (net_format W) kind vd = Some (Inr x) \<Longrightarrow> expired_payload pkg = message vd \<Longrightarrow>
      route_expired_package (net_format W) (net_hopper W k) CNeighborhood pkg False = Some [out (expired_with pkg x)]"
  obtains vd pkg where "versioned_data_new (payload_codec (net_format W) kind) (payload_migrations (net_format W) kind) x = Some vd"
    "no_lookup_incipient_new (net_format W) (node j) k addr (message vd) = Inr pkg" "reaches W ids j pkg k out x"
proof -
  let ?fmt = "net_format W"
  obtain vd where vd: "versioned_data_new (payload_codec ?fmt kind) (payload_migrations ?fmt kind) x = Some vd"
      "vd_extract (payload_codec ?fmt kind) (key_order ?fmt) (payload_migrations ?fmt kind) vd = Some (Inr x, payload_migrations ?fmt kind)"
    by (rule extract_current [OF codec])
  obtain payload where payload: "encodex (message_codec ?fmt) (node j) k (message vd) = Inr payload"
      "decodex (message_codec ?fmt) (node k) payload = Some (Inr (message vd))"
    using encodex_decodex [of "message_codec ?fmt" k j "message vd"] W k(2) by (auto simp: network_ok_def)
  define pkg where "pkg = \<lparr>no_lookup_public_key = k, no_lookup_node_addr = addr, no_lookup_payload = payload\<rparr>"
  have pkg: "no_lookup_incipient_new ?fmt (node j) k addr (message vd) = Inr pkg" by (simp add: no_lookup_incipient_new_def payload(1) pkg_def)
  from k(3) obtain port ports where ports: "addr_ports addr = port # ports" by (cases "addr_ports addr") auto
  obtain lcp c where sent: "hopper_no_lookup ?fmt ids (net_hopper W j) pkg = Some (launch_lcp c (EndpointSocket (addr_ip addr, port)))"
    and lcp: "decodex (lcp_codec ?fmt) (node k) c = Some (Inr lcp)" "lcp_payload lcp = no_lookup_payload pkg"
      "carries (cores_hop_codec ?fmt) node k [live_hop_new [] None CNeighborhood] (lcp_route lcp)"
    by (rule no_lookup_leaves [OF W k(1,2) ports pkg])
  have "decodex (message_codec ?fmt) (node k) (lcp_payload lcp) = Some (Inr (message vd))" using lcp(2) payload(2) by (simp add: pkg_def)
  note arrived = unpaid_arrives [OF W _ lcp(3) this]
  have "\<exists>e. inbound_at W now k ibcd = Some [out e] \<and> immediate_neighbor e = client_addr ibcd \<and> expired_payload e = x" if "ibcd_data ibcd = c" for ibcd now
    using arrived [of ibcd now] lcp(1) that deliver [of vd] vd(2) by (auto simp: migrate_payload_def expired_with_def)
  moreover have "(addr_ip addr, port) \<in> set (node_addr_sockets (no_lookup_node_addr pkg))" by (simp add: node_addr_sockets_def pkg_def ports)
  ultimately have "reaches W ids j pkg k out x" unfolding reaches_def using sent by blast
  with that vd(1) pkg show thesis by blast
qed

end

text \<open>The surroundings of the Node of a key in a network.\<close>

definition lives_at :: "(public_key \<Rightarrow> cryptde) \<Rightarrow> ('s, 'x) network \<Rightarrow> ('s, 'x) neighborhood_env \<Rightarrow> public_key \<Rightarrow> bool" where
  "lives_at node W env k \<longleftrightarrow> cipher_ok node \<and> network_ok node W \<and> env_format env = net_format W \<and> env_cryptde env = node k \<and> k \<noteq> [] \<and>
     codec_ok (payload_codec (net_format W) GossipLite) \<and> codec_ok (payload_codec (net_format W) GossipFailureLite)"

lemma gossip_reaches:
  assumes env: "lives_at node W env j" and nb: "nbh_bound nb" and k: "k \<noteq> []" "addr_ports addr \<noteq> []"
  obtains pkg where "handle_gossip_reply env nb g k addr = Some [NoLookupPackage pkg]"
    "reaches W (env_ids env) j pkg k ToNeighborhood (gossip_payload env g)"
proof -
  have e: "cipher_ok node" "network_ok node W" "env_format env = net_format W" "env_cryptde env = node j" "j \<noteq> []"
    "codec_ok (payload_codec (net_format W) GossipLite)" using env by (auto simp: lives_at_def)
  have "migrate_payload (net_format W) GossipLite vd = Some (Inr (gossip_payload env g)) \<Longrightarrow> expired_payload pkg = GossipMessage vd \<Longrightarrow>
      route_expired_package (net_format W) (net_hopper W k) CNeighborhood pkg False = Some [ToNeighborhood (expired_with pkg (gossip_payload env g))]" for pkg vd
    by (simp add: route_expired_package_def deliver_def)
  note arrive = cipher.message_reaches [OF cipher.intro [OF e(1)] e(2,6,5) k this, where ids = "env_ids env"]
  obtain vd pkg where
    "versioned_data_new (payload_codec (net_format W) GossipLite) (payload_migrations (net_format W) GossipLite) (gossip_payload env g) = Some vd"
    "no_lookup_incipient_new (net_format W) (node j) k addr (GossipMessage vd) = Inr pkg"
    "reaches W (env_ids env) j pkg k ToNeighborhood (gossip_payload env g)" by (rule arrive)
  with that nb e show thesis by (simp add: handle_gossip_reply_def gossip_message_def send_no_lookup_package_def send_bound_def)
qed

lemma failure_reaches:
  assumes env: "lives_at node W env j" and nb: "nbh_bound nb" and k: "k \<noteq> []" "addr_ports addr \<noteq> []"
  obtains pkg where "handle_gossip_failed env nb failure k addr = Some [NoLookupPackage pkg]"
    "reaches W (env_ids env) j pkg k ToNeighborhoodFailure (failure_payload env failure)"
proof -
  have e: "cipher_ok node" "network_ok node W" "env_format env = net_format W" "env_cryptde env = node j" "j \<noteq> []"
    "codec_ok (payload_codec (net_format W) GossipFailureLite)" using env by (auto simp: lives_at_def)
  have "migrate_payload (net_format W) GossipFailureLite vd = Some (Inr (failure_payload env failure)) \<Longrightarrow> expired_payload pkg = GossipFailureMessage vd \<Longrightarrow>
      route_expired_package (net_format W) (net_hopper W k) CNeighborhood pkg False = Some [ToNeighborhoodFailure (expired_with pkg (failure_payload env failure))]"
    for pkg vd by (simp add: route_expired_package_def deliver_def)
  note arrive = cipher.message_reaches [OF cipher.intro [OF e(1)] e(2,6,5) k this, where ids = "env_ids env"]
  obtain vd pkg where
    "versioned_data_new (payload_codec (net_format W) GossipFailureLite) (payload_migrations (net_format W) GossipFailureLite) (failure_payload env failure) = Some vd"
    "no_lookup_incipient_new (net_format W) (node j) k addr (GossipFailureMessage vd) = Inr pkg"
    "reaches W (env_ids env) j pkg k ToNeighborhoodFailure (failure_payload env failure)" by (rule arrive)
  with that nb e show thesis by (simp add: handle_gossip_failed_def send_no_lookup_package_def send_bound_def)
qed

lemma debut_to_each:
  assumes env: "lives_at node W env j" and nb: "nbh_bound nb"
    and ds: "\<forall>d \<in> set ds. encryption_public_key d \<noteq> [] \<and> (\<exists>addr. desc_node_addr_opt d = Some addr \<and> addr_ports addr \<noteq> [])"
  obtains pkgs where "those (map (send_debut_gossip_to_descriptor env nb g) ds) = Some (map (\<lambda>pkg. [NoLookupPackage pkg]) pkgs)"
    "list_all2 (\<lambda>d pkg. reaches W (env_ids env) j pkg (encryption_public_key d) ToNeighborhood (gossip_payload env g)) ds pkgs"
proof -
  have one: "\<exists>pkg. send_debut_gossip_to_descriptor env nb g d = Some [NoLookupPackage pkg] \<and>
      reaches W (env_ids env) j pkg (encryption_public_key d) ToNeighborhood (gossip_payload env g)" if "d \<in> set ds" for d
  proof -
    from ds that obtain addr where a: "encryption_public_key d \<noteq> []" "desc_node_addr_opt d = Some addr" "addr_ports addr \<noteq> []" by blast
    obtain pkg where "handle_gossip_reply env nb g (encryption_public_key d) addr = Some [NoLookupPackage pkg]"
      "reaches W (env_ids env) j pkg (encryption_public_key d) ToNeighborhood (gossip_payload env g)"
      by (rule gossip_reaches [OF env nb a(1,3)])
    with a(2) show ?thesis by (auto simp: send_debut_gossip_to_descriptor_def handle_gossip_reply_def)
  qed
  then have "\<exists>pkgs. those (map (send_debut_gossip_to_descriptor env nb g) ds) = Some (map (\<lambda>pkg. [NoLookupPackage pkg]) pkgs) \<and>
      list_all2 (\<lambda>d pkg. reaches W (env_ids env) j pkg (encryption_public_key d) ToNeighborhood (gossip_payload env g)) ds pkgs"
  proof (induction ds)
    case (Cons d ds)
    from Cons.IH [OF Cons.prems] obtain pkgs where "those (map (send_debut_gossip_to_descriptor env nb g) ds) = Some (map (\<lambda>pkg. [NoLookupPackage pkg]) pkgs)"
      "list_all2 (\<lambda>d pkg. reaches W (env_ids env) j pkg (encryption_public_key d) ToNeighborhood (gossip_payload env g)) ds pkgs" by auto
    moreover from Cons.prems [of d] obtain pkg where "send_debut_gossip_to_descriptor env nb g d = Some [NoLookupPackage pkg]"
      "reaches W (env_ids env) j pkg (encryption_public_key d) ToNeighborhood (gossip_payload env g)" by auto
    ultimately show ?case by (intro exI [of _ "pkg # pkgs"]) simp
  qed simp
  with that show thesis by blast
qed


text \<open>
  C35: an unsolicited refusal crashes the Node.  Any Node of the network can send a gossip
  failure to any other whose address it knows; it reaches the other's Neighborhood unpaid,
  and the handler panics whenever the sender's address is not that of a neighbor with which
  the Node was started and which has not refused it before.
\<close>

theorem unsolicited_failure_panics:
  assumes env: "lives_at node W env j" and nb: "nbh_bound nb" and k: "k \<noteq> []" "addr_ports addr \<noteq> []"
  shows "(\<exists>pkg. handle_gossip_failed env nb failure k addr = Some [NoLookupPackage pkg] \<and>
      reaches W (env_ids env) j pkg k ToNeighborhoodFailure (failure_payload env failure)) \<and>
    (\<forall>env' victim src. neighborhood_handle env' victim (GossipFailureMsg src) = None \<longleftrightarrow>
       \<not> (\<exists>d \<in> set (iter_initial_node_descriptors (nbh_status victim)). \<exists>a. desc_node_addr_opt d = Some a \<and> addr_ip a = fst src))"
proof -
  have "status_remove (nbh_status victim) i \<noteq> None"
    if "find_position P (iter_initial_node_descriptors (nbh_status victim)) = Some i" for victim P i
    using find_position_Some [OF that] by (simp add: status_remove_def iter_initial_node_descriptors_def)
  then have "neighborhood_handle env' victim (GossipFailureMsg src) = None \<longleftrightarrow>
      find_position (\<lambda>n. case desc_node_addr_opt n of None \<Rightarrow> False | Some addr \<Rightarrow> addr_ip addr = fst src)
        (iter_initial_node_descriptors (nbh_status victim)) = None" for env' victim src
    by (fastforce simp: handle_gossip_failure_def split: option.splits)
  moreover obtain pkg where "handle_gossip_failed env nb failure k addr = Some [NoLookupPackage pkg]"
    "reaches W (env_ids env) j pkg k ToNeighborhoodFailure (failure_payload env failure)"
    by (rule failure_reaches [OF assms])
  ultimately show ?thesis by (fastforce simp: find_position_None split: option.splits)
qed

lemma sample_lives_at: "lives_at market_node market sample_surroundings [1]"
  using sample_serves by (simp add: lives_at_def serves_def sample_neighborhood_def sample_pair_def)
    (simp add: market_def sample_network_def sample_format_def unary_codec_ok)

text \<open>The Node starts with one neighbor, Node 2 at 1.2.3.4, and its configuration asks for one hop.\<close>

definition starting_neighborhood :: neighborhood where
  "starting_neighborhood = sample_neighborhood\<lparr>nbh_min_hops := SixHops, nbh_connected := False, nbh_status := \<lparr>ocs_stage = NotConnected, ocs_progress =
     [\<lparr>initial_node_descriptor = \<lparr>blockchain = Dev, encryption_public_key = [2], desc_node_addr_opt = Some (node_addr_new (V4 0x01020304) [5000])\<rparr>,
       current_peer_addr = V4 0x01020304, connection_stage = StageZero\<rparr>]\<rparr>\<rparr>"


theorem unsolicited_failure_panics_witness:
  "\<exists>pkg. handle_gossip_failed sample_surroundings sample_neighborhood NoNeighbors [2] (node_addr_new (V4 0x01020304) [5000]) = Some [NoLookupPackage pkg] \<and>
     reaches market unary_codec [1] pkg [2] ToNeighborhoodFailure 0 \<and>
     neighborhood_handle sample_surroundings starting_neighborhood (GossipFailureMsg (V4 0x05060708, 5000)) = None"
proof -
  have "nbh_bound sample_neighborhood" "addr_ports (node_addr_new (V4 0x01020304) [5000]) \<noteq> []" "env_ids sample_surroundings = unary_codec"
    "failure_payload sample_surroundings NoNeighbors = 0"
    by (simp_all add: sample_neighborhood_def node_addr_new_def sample_surroundings_def)
  then show ?thesis
    using unsolicited_failure_panics [OF sample_lives_at, of sample_neighborhood "[2]" "node_addr_new (V4 0x01020304) [5000]" NoNeighbors]
    by (auto simp: starting_neighborhood_def iter_initial_node_descriptors_def node_addr_new_def)
qed

lemma assign_nodes_total: "prefs_ok (Some prefs) \<Longrightarrow> \<exists>u. assign_nodes_country_undesirability prefs nr = Some (set_undesirability u nr)"
  using assign_preferences_ok [of "Some prefs" nr] by (simp add: assign_preferences_def)

lemma set_country_undesirability_total:
  assumes "prefs_ok (Some (nbh_preferences nb))"
  shows "\<exists>nb'. set_country_undesirability_and_exit_countries nb locs = Some nb' \<and> nbh_bound nb' = nbh_bound nb"
proof -
  have "assign_nodes_country_undesirability (nbh_preferences nb) nr \<noteq> None" for nr using assign_nodes_total [OF assms, of nr] by auto
  then show ?thesis by (simp add: set_country_undesirability_and_exit_countries_def try_nodes_mut_def)
qed

lemma handle_exit_location_total:
  assumes "nbh_bound nb" "init_db_countries env nb = Some countries" "distinct (exit_countries (nbh_preferences nb))"
    and "prefs_ok (Some (nbh_preferences nb))" "\<forall>loc \<in> set (request_exit_locations message). 1 \<le> priority loc \<and> priority loc \<le> 4294968"
  obtains nb' outs where "handle_exit_location_message env nb message client_id context_id = Some (nb', outs)"
proof -
  let ?prefs = "(nbh_preferences nb)\<lparr>db_countries := countries\<rparr>"
  obtain missing prefs where sync: "synchronize_each (request_exit_locations message) ?prefs = (missing, prefs)" by fastforce
  have "distinct (exit_countries ?prefs)" using assms(3) by simp
  from synchronizedE(5) [OF synchronize_each_codes [OF this sync]] have "locations_opt prefs = locations_opt (nbh_preferences nb)" by simp
  then have "prefs_ok (Some (requested_preferences message prefs))"
    using assms(4,5) by (auto simp: prefs_ok_def requested_preferences_def set_exit_locations_opt_def Let_def split: if_splits fallback_preference.splits)
  with set_country_undesirability_total [of "nb\<lparr>nbh_preferences := requested_preferences message prefs\<rparr>" "request_exit_locations message"] assms(1)
  obtain nb' where "set_country_undesirability_and_exit_countries (nb\<lparr>nbh_preferences := requested_preferences message prefs\<rparr>) (request_exit_locations message) = Some nb'"
    "nbh_bound nb'" by auto
  with assms(1) have "handle_exit_location_message env nb message client_id context_id \<noteq> None"
    unfolding handle_exit_location_eval [OF assms(2) sync] by (simp add: send_bound_def)
  with that show thesis by auto
qed

text \<open>A Node whose user asked for exits in one country, and a request for another country only.\<close>

definition choosy_neighborhood :: neighborhood where
  "choosy_neighborhood = sample_neighborhood\<lparr>nbh_preferences := preferences_new\<lparr>exit_countries := [''CZ''], fallback_preference := ExitCountryWithFallback\<rparr>\<rparr>"

definition german_request :: ui_set_exit_location_request where
  "german_request = \<lparr>request_fallback_routing = False, request_exit_locations = [\<lparr>country_codes = [''DE''], priority = 1\<rparr>], request_show_countries = False\<rparr>"

theorem exit_request_countries_witness:
  "\<exists>nb' outs. handle_exit_location_message sample_surroundings choosy_neighborhood german_request 7 8 = Some (nb', outs) \<and>
     set (exit_countries (nbh_preferences nb')) = {''CZ'', ''DE''} \<and> fallback_preference (nbh_preferences nb') = ExitCountryNoFallback"
proof -
  let ?nb = choosy_neighborhood
  have "search_ok \<lparr>rs_db = sample_pair, rs_prefs = nbh_preferences ?nb, rs_order = (\<lambda>_. sorted_list_of_fset), rs_target_opt = None,
      rs_payload_size = 0, rs_direction = Over, rs_hostname_opt = None, rs_research = True\<rparr> 100000000"
    using sample_search_ok by (simp add: search_ok_def sample_search_def best_route_search_def)
  moreover have "node_by_key sample_pair [1] = Some (sample_record 1 [2])" by (simp add: sample_pair_nodes)
  ultimately obtain exits where "find_exit_locations sample_pair (nbh_preferences ?nb) (\<lambda>_. sorted_list_of_fset) [1] 1 = Some exits"
    using find_exit_locations_aux by blast
  then have "\<exists>countries. init_db_countries sample_surroundings ?nb = Some countries"
    by (simp add: init_db_countries_def choosy_neighborhood_def sample_neighborhood_def sample_surroundings_def root_key_def) (simp add: sample_pair_def)
  then obtain countries where countries: "init_db_countries sample_surroundings ?nb = Some countries" ..
  have ok: "distinct (exit_countries (nbh_preferences ?nb))" "request_exit_locations german_request \<noteq> []" "nbh_bound ?nb"
    "prefs_ok (Some (nbh_preferences ?nb))" "\<forall>loc \<in> set (request_exit_locations german_request). 1 \<le> priority loc \<and> priority loc \<le> 4294968"
    by (simp_all add: choosy_neighborhood_def german_request_def sample_neighborhood_def prefs_ok_def preferences_new_def)
  obtain nb' outs where h: "handle_exit_location_message sample_surroundings ?nb german_request 7 8 = Some (nb', outs)"
    by (rule handle_exit_location_total [OF ok(3) countries ok(1,4,5)])
  from exit_request_countries [OF h ok(1,2)] h show ?thesis
    by (auto simp: german_request_def choosy_neighborhood_def)
qed

end
