(* ===== verification/Neighborhood_Invariant.thy ===== *)
theory Neighborhood_Invariant
  imports Neighborhood_Correct
begin

text \<open>
  The states that the actor of \<open>node/src/neighborhood/mod.rs\<close> can reach: from the one that
  the constructor makes, by any messages in any order, with any readings of the clock and any
  orders of the hash sets.  Every such state keeps the database consistent.
\<close>

section \<open>Changes that keep a database consistent\<close>

definition continues :: "neighborhood_database \<Rightarrow> neighborhood_database \<Rightarrow> bool" where
  "continues db db' \<longleftrightarrow> (db_ok db \<longrightarrow> db_ok db') \<and> this_node db' = this_node db"

lemma continues_refl [simp]: "continues db db"
  by (simp add: continues_def)

lemma continues_trans [trans]: "continues a b \<Longrightarrow> continues b c \<Longrightarrow> continues a c"
  by (simp add: continues_def)

lemma continues_mut:
  assumes "node_by_key_mut f db k = Some db'" "\<And>nr. public_key (f nr) = public_key nr" "\<And>nr. node_addr_opt (f nr) = node_addr_opt nr"
  shows "continues db db'"
proof -
  obtain nr where nr: "node_by_key db k = Some nr" and db': "db' = db\<lparr>by_public_key := fmupd k (f nr) (by_public_key db)\<rparr>"
    using assms(1) by (auto simp: node_by_key_mut_def node_by_key_def split: option.splits)
  have "db_ok db'" if "db_ok db"
    unfolding db' by (rule db_ok_replace [OF that nr]) (use assms(2,3) db_ok_key [OF that nr] in auto)
  then show ?thesis by (simp add: continues_def db')
qed

lemma continues_nodes_mut:
  assumes "\<And>k nr. node_by_key db k = Some nr \<Longrightarrow> public_key (f nr) = public_key nr \<and> node_addr_opt (f nr) = node_addr_opt nr"
  shows "continues db (nodes_mut f db)"
proof -
  have n: "node_by_key (nodes_mut f db) k = map_option f (node_by_key db k)" for k by (simp add: nodes_mut_def node_by_key_def)
  have m: "this_node (nodes_mut f db) = this_node db" "by_ip_addr (nodes_mut f db) = by_ip_addr db" by (simp_all add: nodes_mut_def)
  have "db_ok (nodes_mut f db)" if ok: "db_ok db"
    by (rule db_okI) (use ok assms in \<open>auto simp: db_ok_def n m keys_iff, metis\<close>)
  then show ?thesis by (simp add: continues_def m)
qed

lemma continues_add_node: "add_node db nr = (r, db') \<Longrightarrow> continues db db'"
  using keeps_add_node [of db nr] by (auto simp: continues_def add_node_def add_arbitrary_node_def Let_def split: sum.splits option.splits)

lemma continues_add_half_neighbor: "add_half_neighbor now db k = (r, db') \<Longrightarrow> continues db db'"
  using keeps_add_half_neighbor [of db now k]
  by (auto simp: continues_def add_half_neighbor_def split: if_splits option.splits prod.splits sum.splits record_error.splits)

lemma continues_bump_root:
  assumes "bump_root crypt db = Some db'"
  shows "continues db db'"
proof -
  obtain rt rt1 rt2 where rt: "root db = Some rt" "increment_version rt = Some rt1" "record_regenerate_signed_gossip crypt rt1 = Some rt2"
    and db': "db' = db\<lparr>by_public_key := fmupd (this_node db) rt2 (by_public_key db)\<rparr>"
    using assms by (auto simp: bump_root_def root_mut_def node_by_key_mut_def split: Option.bind_split_asm option.split_asm)
  have "db_ok db'" if "db_ok db"
    unfolding db' by (rule keeps_root_update [OF that rt(1)]) (use increment_version_simps [OF rt(2)] regenerate_keeps_key [OF rt(3)] in auto)
  then show ?thesis by (simp add: continues_def db')
qed

lemma continues_update:
  assumes "node_by_key db k = Some nr" "record_update now nr agr = (r, nr')" "node_by_key_mut (\<lambda>_. nr') db k = Some db'"
  shows "continues db db'"
  using assms keeps_update [of db k nr now agr] by (auto simp: continues_def node_by_key_mut_def node_by_key_def)

lemma continues_remove_neighbor: "remove_neighbor db k = Some (r, db') \<Longrightarrow> continues db db'"
  using keeps_remove_neighbor this_node_remove_neighbor by (auto simp: continues_def)

section \<open>The gossip acceptor\<close>

lemma continues_try_accept_debut:
  assumes "try_accept_debut env db agr src prefs_opt = Some (r, db')"
  shows "continues db db'"
proof -
  consider "db' = db" | nr k db1 now k' db2 where "add_node db nr = (Inr k, db1)" "add_half_neighbor now db1 k' = (Inr True, db2)" "bump_root (env_crypt env) db2 = Some db'"
    using assms by (auto simp: try_accept_debut_def split: if_splits Option.bind_split_asm sum.split_asm prod.split_asm bool.split_asm option.split_asm)
  then show ?thesis
  proof cases
    case 2
    then show ?thesis by (meson continues_add_node continues_add_half_neighbor continues_bump_root continues_trans)
  qed simp
qed

lemma continues_debut_handle: "debut_handle env db agrs src meta = Some (r, db') \<Longrightarrow> continues db db'"
  by (auto simp: debut_handle_def Let_def dest!: continues_try_accept_debut
      split: Option.bind_split_asm option.split_asm prod.split_asm)

lemma continues_add_introducer: "add_introducer_as_half_neighbor env db k = Some (r, db') \<Longrightarrow> continues db db'"
  by (auto simp: add_introducer_as_half_neighbor_def dest!: continues_bump_root continues_add_half_neighbor intro: continues_trans
      split: prod.split_asm sum.split_asm if_splits Option.bind_split_asm)

lemma continues_introduction_update:
  assumes "introduction_update_database env db introducer prefs_opt = Some (r, db')"
  shows "continues db db'"
proof (cases "node_by_key db (agr_key introducer)")
  case None
  with assms obtain nr k db1 where "add_node db nr = (Inr k, db1)" "add_introducer_as_half_neighbor env db1 (agr_key introducer) = Some (r, db')"
    by (auto simp: introduction_update_database_def Let_def split: Option.bind_split_asm prod.split_asm sum.split_asm)
  then show ?thesis by (meson continues_add_node continues_add_introducer continues_trans)
next
  case (Some nr)
  with assms consider "db' = db" | u nr' db1 where "record_update (env_now env (agr_key introducer)) nr introducer = (Inr u, nr')"
      "node_by_key_mut (\<lambda>_. nr') db (agr_key introducer) = Some db1" "add_introducer_as_half_neighbor env db1 (agr_key introducer) = Some (r, db')"
    by (auto simp: introduction_update_database_def Let_def split: Option.bind_split_asm prod.split_asm sum.split_asm if_splits)
  then show ?thesis
  proof cases
    case 2
    show ?thesis by (rule continues_trans [OF continues_update [OF Some 2(1,2)] continues_add_introducer [OF 2(3)]])
  qed simp
qed

lemma continues_introduction_handle: "introduction_handle env db agrs src meta = Some (r, db', cpms) \<Longrightarrow> continues db db'"
  by (auto simp: introduction_handle_def Let_def dest!: continues_introduction_update
      split: Option.bind_split_asm option.split_asm prod.split_asm sum.split_asm if_splits)

lemma continues_add_new_nodes: "add_new_nodes env prefs_opt agrs db = Some db' \<Longrightarrow> continues db db'"
proof (induction agrs arbitrary: db)
  case (Cons agr agrs)
  then obtain nr k db1 where "add_node db nr = (Inr k, db1)" "add_new_nodes env prefs_opt agrs db1 = Some db'"
    by (auto split: Option.bind_split_asm prod.split_asm sum.split_asm)
  with Cons.IH show ?case by (meson continues_add_node continues_trans)
qed simp

lemma continues_update_obsolete: "identify_and_update_obsolete_nodes env agrs b db = Some (b', db') \<Longrightarrow> continues db db'"
proof (induction agrs arbitrary: b db)
  case (Cons agr agrs)
  have "continues db db1" if "update_database_record env db agr = Some (u, db1)" for u db1
    using that by (auto simp: update_database_record_def Let_def intro: continues_update split: Option.bind_split_asm prod.split_asm)
  with Cons show ?case
    by (auto split: option.split_asm if_splits Option.bind_split_asm prod.split_asm intro: continues_trans)
qed simp

lemma continues_add_src: "add_src_node_as_half_neighbor env db src = Some (b, db') \<Longrightarrow> continues db db'"
  by (auto simp: add_src_node_as_half_neighbor_def dest!: continues_bump_root continues_add_half_neighbor intro: continues_trans
      split: option.split_asm Option.bind_split_asm if_splits prod.split_asm sum.split_asm bool.split_asm)

lemma continues_standard_handle:
  assumes "standard_handle env db agrs src meta = Some (r, db', cpms)"
  shows "continues db db'"
proof -
  obtain prefs_opt agrs1 db1 agrs2 b db2 b2 b3 where "add_new_nodes env prefs_opt agrs1 db = Some db1"
    "identify_and_update_obsolete_nodes env agrs2 b db1 = Some (b2, db2)" "add_src_node_as_half_neighbor env db2 src = Some (b3, db')"
    using assms by (auto simp: standard_handle_def identify_and_add_non_introductory_new_nodes_def Let_def
        split: Option.bind_split_asm prod.split_asm if_splits)
  then show ?thesis by (meson continues_add_new_nodes continues_update_obsolete continues_add_src continues_trans)
qed

lemma continues_acceptor_handle:
  assumes "acceptor_handle env targets db agrs src meta = Some (r, targets', db', cpms)"
  shows "continues db db'"
proof -
  consider "db' = db" | h where "handler_handle h env targets db agrs src meta = Some (r, targets', db', cpms)"
    using assms by (auto simp: acceptor_handle_def split: Option.bind_split_asm qualification.split_asm)
  then show ?thesis
  proof cases
    case 2
    then show ?thesis
      by (cases h) (auto split: Option.bind_split_asm dest: continues_debut_handle continues_introduction_handle continues_standard_handle)
  qed simp
qed

section \<open>The handlers of the actor\<close>

text \<open>
  A change of the state that keeps the database consistent and about the same Node, the mode,
  the chain, the bounds of the patch size, and the forms of the preferences, and adds no
  initial neighbor.
\<close>

definition country_lists_ok :: "user_exit_preferences \<Rightarrow> bool" where
  "country_lists_ok prefs \<longleftrightarrow> distinct (exit_countries prefs) \<and> sorted (db_countries prefs) \<and> distinct (db_countries prefs)"

definition patch_size_ok :: "neighborhood \<Rightarrow> bool" where
  "patch_size_ok nb \<longleftrightarrow> 3 \<le> nbh_db_patch_size nb \<and> nbh_db_patch_size nb \<le> 6"

definition goes_on :: "neighborhood \<Rightarrow> neighborhood \<Rightarrow> bool" where
  "goes_on nb nb' \<longleftrightarrow> continues (nbh_database nb) (nbh_database nb') \<and> nbh_mode nb' = nbh_mode nb \<and> nbh_chain nb' = nbh_chain nb \<and>
     (patch_size_ok nb \<longrightarrow> patch_size_ok nb') \<and> (country_lists_ok (nbh_preferences nb) \<longrightarrow> country_lists_ok (nbh_preferences nb')) \<and>
     set (iter_initial_node_descriptors (nbh_status nb')) \<subseteq> set (iter_initial_node_descriptors (nbh_status nb))"

lemma goes_on_refl [simp]: "goes_on nb nb"
  by (simp add: goes_on_def)

lemma goes_on_trans [trans]: "goes_on a b \<Longrightarrow> goes_on b c \<Longrightarrow> goes_on a c"
  by (auto simp: goes_on_def continues_def)

lemma goes_on_database: "continues (nbh_database nb) db \<Longrightarrow> goes_on nb (nb\<lparr>nbh_database := db\<rparr>)"
  by (simp add: goes_on_def patch_size_ok_def)

lemma goes_on_preferences:
  "(country_lists_ok (nbh_preferences nb) \<Longrightarrow> country_lists_ok prefs) \<Longrightarrow> goes_on nb (nb\<lparr>nbh_preferences := prefs\<rparr>)"
  by (simp add: goes_on_def patch_size_ok_def)

lemma goes_on_status:
  "set (iter_initial_node_descriptors status) \<subseteq> set (iter_initial_node_descriptors (nbh_status nb)) \<Longrightarrow> goes_on nb (nb\<lparr>nbh_status := status\<rparr>)"
  by (simp add: goes_on_def patch_size_ok_def)

lemma goes_on_fields [simp]:
  "goes_on nb (nb\<lparr>nbh_bound := b\<rparr>)" "goes_on nb (nb\<lparr>nbh_next_return_route_id := n\<rparr>)" "goes_on nb (nb\<lparr>nbh_connected := c\<rparr>)"
  "goes_on nb (nb\<lparr>nbh_min_hops := h\<rparr>)" "goes_on nb (nb\<lparr>nbh_db_password_opt := p\<rparr>)" "goes_on nb (nb\<lparr>nbh_consuming_wallet_opt := w\<rparr>)"
  by (simp_all add: goes_on_def patch_size_ok_def)

subsection \<open>Routes\<close>

lemma goes_on_compose:
  "compose_route_query_response env nb a b = Some (r, nb') \<Longrightarrow> goes_on nb nb'"
  by (auto simp: compose_route_query_response_def advance_return_route_id_def Let_def split: if_splits Option.bind_split_asm sum.split_asm)

lemma goes_on_route_query:
  assumes "handle_route_query_message env nb msg = Some (r, nb')"
  shows "goes_on nb nb'"
  using assms
  by (auto simp: handle_route_query_message_def zero_hop_route_response_def make_round_trip_route_def advance_return_route_id_def Let_def
      dest: goes_on_compose split: if_splits Option.bind_split_asm sum.split_asm)

lemma goes_on_to_stage: "to_stage nb stage = Some (nb', outs) \<Longrightarrow> goes_on nb nb'"
  by (auto simp: to_stage_def update_ocs_stage_def iter_initial_node_descriptors_def intro!: goes_on_status split: Option.bind_split_asm if_splits)

lemma goes_on_search: "search_for_a_new_route env nb = Some (nb', outs) \<Longrightarrow> goes_on nb nb'"
  by (auto simp: search_for_a_new_route_def Let_def dest!: goes_on_route_query goes_on_to_stage
      split: Option.bind_split_asm if_splits) (erule (1) goes_on_trans)

lemma goes_on_database_changes: "handle_database_changes env nb before after = Some (nb', outs) \<Longrightarrow> goes_on nb nb'"
  by (auto simp: handle_database_changes_def check_connectedness_def dest: goes_on_search split: Option.bind_split_asm if_splits)

subsection \<open>Gossip\<close>

lemma continues_cull:
  assumes "cull_dead_nodes now db = Some db'"
  shows "continues db db'"
proof -
  have "this_node (fold remove_node ks d) = this_node d" for ks d by (induction ks arbitrary: d) simp_all
  then have "this_node db' = this_node db" using assms by (auto simp: cull_dead_nodes_def split: Option.bind_split_asm)
  with cull_dead_nodes_spec(1) [OF _ assms] show ?thesis by (simp add: continues_def)
qed

lemma continues_produce: "produce order clock producer db target = Some (g, producer', db') \<Longrightarrow> continues db db'"
  by (auto simp: produce_def produce_check_def Let_def dest: continues_cull split: Option.bind_split_asm option.split_asm if_splits prod.split_asm)

lemma goes_on_producer: "continues (nbh_database nb) db \<Longrightarrow> goes_on nb (nb\<lparr>nbh_producer := producer, nbh_database := db\<rparr>)"
  by (simp add: goes_on_def patch_size_ok_def)

lemma goes_on_gossip_to_each: "gossip_to_each env neighbors nb = Some (nb', outs) \<Longrightarrow> goes_on nb nb'"
proof (induction neighbors arbitrary: nb outs)
  case (Cons neighbor neighbors)
  then obtain g producer db outs' where "produce (set_order env) (produce_clock env neighbor) (nbh_producer nb) (nbh_database nb) neighbor = Some (g, producer, db)"
    "gossip_to_each env neighbors (nb\<lparr>nbh_producer := producer, nbh_database := db\<rparr>) = Some (nb', outs')"
    by (auto simp: Let_def split: Option.bind_split_asm)
  from goes_on_trans [OF goes_on_producer [OF continues_produce [OF this(1)]] Cons.IH [OF this(2)]] show ?case .
qed simp

lemma goes_on_gossip_to_neighbors:
  assumes "gossip_to_neighbors env nb = Some (nb', outs)"
  shows "goes_on nb nb'"
proof -
  obtain rt rt' db where rt: "root (nbh_database nb) = Some rt" "record_regenerate_signed_gossip (env_crypt (env_acceptor env)) rt = Some rt'"
      "root_mut (\<lambda>_. rt') (nbh_database nb) = Some db"
    and each: "gossip_to_each env (set_order env (half_neighbor_keys rt')) (nb\<lparr>nbh_database := db\<rparr>) = Some (nb', outs)"
    using assms by (auto simp: gossip_to_neighbors_def split: Option.bind_split_asm)
  have "db = nbh_database nb\<lparr>by_public_key := fmupd (this_node (nbh_database nb)) rt' (by_public_key (nbh_database nb))\<rparr>"
    using rt(3) by (auto simp: root_mut_def node_by_key_mut_def split: option.split_asm)
  then have "continues (nbh_database nb) db"
    using keeps_root_update [OF _ rt(1)] regenerate_keeps_key [OF rt(2)] by (simp add: continues_def)
  from goes_on_trans [OF goes_on_database [OF this] goes_on_gossip_to_each [OF each]] show ?thesis .
qed

subsection \<open>Exit countries\<close>

lemma distinct_remdups_adj_sorted: "sorted xs \<Longrightarrow> distinct (remdups_adj xs)" for xs :: "'a::linorder list"
  by (induction xs rule: remdups_adj.induct) (auto simp: order.antisym)

lemma goes_on_refresh: "refresh_db_countries env nb = Some nb' \<Longrightarrow> goes_on nb nb'"
  by (auto simp: refresh_db_countries_def init_db_countries_def Let_def country_lists_ok_def distinct_remdups_adj_sorted intro!: goes_on_preferences
      split: Option.bind_split_asm)

lemma country_lists_synchronized:
  assumes "synchronize_each locs prefs = (missing, prefs')" "country_lists_ok prefs"
  shows "country_lists_ok prefs'"
  using synchronizedE [OF synchronize_each_codes [OF _ assms(1)]] assms(2) by (simp add: country_lists_ok_def)

lemma assign_for_locations_sets: "assign_for_locations prefs code locs nr = Some nr' \<Longrightarrow> public_key nr' = public_key nr \<and> node_addr_opt nr' = node_addr_opt nr"
  by (induction locs arbitrary: nr) (fastforce simp: Let_def split: Option.bind_split_asm if_splits)+

lemma assign_nodes_sets:
  "assign_nodes_country_undesirability prefs nr = Some nr' \<Longrightarrow> public_key nr' = public_key nr \<and> node_addr_opt nr' = node_addr_opt nr"
  by (auto simp: assign_nodes_country_undesirability_def Let_def dest: assign_for_locations_sets split: option.split_asm)

lemma goes_on_undesirability:
  assumes "set_country_undesirability_and_exit_countries nb locs = Some nb'"
  shows "goes_on nb nb'"
proof (cases "locs = []")
  case True
  have "continues (nbh_database nb) (nodes_mut (set_undesirability ZERO_UNDESIRABILITY) (nbh_database nb))" by (rule continues_nodes_mut) simp
  with assms True show ?thesis
    by (auto simp: set_country_undesirability_and_exit_countries_def goes_on_def patch_size_ok_def country_lists_ok_def)
next
  case False
  let ?f = "assign_nodes_country_undesirability (nbh_preferences nb)"
  have all: "fBall (fmran (by_public_key (nbh_database nb))) (\<lambda>nr. ?f nr \<noteq> None)"
    and nb': "nb' = nb\<lparr>nbh_database := nodes_mut (\<lambda>nr. the (?f nr)) (nbh_database nb)\<rparr>"
    using assms False by (auto simp: set_country_undesirability_and_exit_countries_def try_nodes_mut_def split: if_splits Option.bind_split_asm)
  have "public_key (the (?f nr)) = public_key nr \<and> node_addr_opt (the (?f nr)) = node_addr_opt nr" if "node_by_key (nbh_database nb) k = Some nr" for k nr
    using all fmranI [OF that [unfolded node_by_key_def]] assign_nodes_sets [of "nbh_preferences nb" nr] by fastforce
  from goes_on_database [OF continues_nodes_mut [OF this]] show ?thesis unfolding nb' .
qed

lemma goes_on_exit_location:
  assumes "handle_exit_location_message env nb message client_id context_id = Some (nb', outs)"
  shows "goes_on nb nb'"
proof -
  obtain countries where c: "init_db_countries env nb = Some countries"
    using assms by (auto simp: handle_exit_location_message_def extract_exit_locations_from_message_def refresh_db_countries_def
        split: Option.bind_split_asm)
  obtain missing prefs where sync: "synchronize_each (request_exit_locations message) ((nbh_preferences nb)\<lparr>db_countries := countries\<rparr>) = (missing, prefs)"
    by fastforce
  define nb1 where "nb1 = nb\<lparr>nbh_preferences := requested_preferences message prefs\<rparr>"
  have "country_lists_ok ((nbh_preferences nb)\<lparr>db_countries := countries\<rparr>)" if "country_lists_ok (nbh_preferences nb)"
    using that c by (auto simp: country_lists_ok_def init_db_countries_def Let_def distinct_remdups_adj_sorted split: Option.bind_split_asm)
  from country_lists_synchronized [OF sync this] have "goes_on nb nb1" unfolding nb1_def
    by (intro goes_on_preferences) (simp add: country_lists_ok_def)
  moreover have "goes_on nb1 nb'"
    using assms unfolding handle_exit_location_eval [OF c sync] nb1_def [symmetric]
    by (auto dest: goes_on_undesirability split: Option.bind_split_asm if_splits)
  ultimately show ?thesis by (rule goes_on_trans)
qed

subsection \<open>Messages\<close>

lemma calculate_db_patch_size_bounds: "3 \<le> calculate_db_patch_size h \<and> calculate_db_patch_size h \<le> 6"
  by (cases h) (simp_all add: calculate_db_patch_size_def DEFAULT_MIN_HOPS_def)

lemma goes_on_start: "handle_start_message env nb = Some (nb', outs) \<Longrightarrow> goes_on nb nb'"
  by (auto simp: handle_start_message_def validate_or_replace_min_hops_value_def connect_database_def
      intro: goes_on_trans [OF goes_on_fields(3) goes_on_fields(4)] split: Option.bind_split_asm if_splits)

lemma goes_on_new_public_ip:
  assumes "handle_new_public_ip env nb ip = Some nb'"
  shows "goes_on nb nb'"
proof -
  obtain db loc db' where db: "new_public_ip (nbh_database nb) ip = Some db" "root_mut (set_location loc) db = Some db'"
    and nb': "nb' = nb\<lparr>nbh_database := db'\<rparr>"
    using assms by (auto simp: handle_new_public_ip_def handle_new_ip_location_def split: Option.bind_split_asm)
  have "this_node db = this_node (nbh_database nb)" using db(1) by (auto simp: new_public_ip_def Let_def split: Option.bind_split_asm)
  then have "continues (nbh_database nb) db" using keeps_new_public_ip [OF _ db(1)] by (simp add: continues_def)
  moreover have "continues db db'"
    using db(2) unfolding root_mut_def by (rule continues_mut) (simp_all add: set_location_def public_key_def node_addr_opt_def)
  ultimately show ?thesis unfolding nb' by (intro goes_on_database) (rule continues_trans)
qed

lemma goes_on_min_hops: "goes_on nb (set_min_hops_and_patch_size nb h)"
  using calculate_db_patch_size_bounds [of h] by (simp add: goes_on_def set_min_hops_and_patch_size_def patch_size_ok_def)

lemma goes_on_config_change:
  assumes "handle_config_change_msg env nb change = Some (nb', outs)"
  shows "goes_on nb nb'"
proof (cases change)
  case (UpdateMinHops h)
  define nb1 where "nb1 = set_min_hops_and_patch_size nb h"
  obtain nb2 nb3 nb4 outs1 outs2 where
    stage: "(if can_make_routes (nbh_status nb1) then to_stage nb1 ConnectedToNeighbor else Some (nb1, [])) = Some (nb2, outs1)"
    and refresh: "refresh_db_countries env nb2 = Some nb3"
    and exits: "(case locations_opt (nbh_preferences nb3) of
        Some locs \<Rightarrow> set_country_undesirability_and_exit_countries (nb3\<lparr>nbh_preferences := snd (synchronize_each locs (nbh_preferences nb3))\<rparr>) locs
      | None \<Rightarrow> Some nb3) = Some nb4"
    and search: "search_for_a_new_route env nb4 = Some (nb', outs2)"
    using assms [unfolded UpdateMinHops handle_config_change_msg.simps Let_def] unfolding nb1_def [symmetric]
    by (auto split: Option.bind_split_asm)
  have "goes_on nb nb1" unfolding nb1_def by (rule goes_on_min_hops)
  also have "goes_on nb1 nb2" using stage by (auto dest: goes_on_to_stage split: if_splits)
  also have "goes_on nb2 nb3" using refresh by (rule goes_on_refresh)
  also have "goes_on nb3 (nb3\<lparr>nbh_preferences := snd (synchronize_each locs (nbh_preferences nb3))\<rparr>)" for locs
    using country_lists_synchronized [of locs "nbh_preferences nb3"] by (intro goes_on_preferences) (metis prod.collapse)
  then have "goes_on nb3 nb4"
    using exits by (auto dest!: goes_on_undesirability intro: goes_on_trans split: option.splits)
  also have "goes_on nb4 nb'" using search by (rule goes_on_search)
  finally show ?thesis .
qed (use assms in \<open>auto split: if_splits\<close>)

lemma goes_on_handle_agrs:
  assumes "handle_agrs env nb agrs src = Some (nb', outs)"
  shows "goes_on nb nb'"
proof -
  obtain meta result targets db cpms where a: "acceptor_handle (env_acceptor env) (nbh_pass_targets nb) (nbh_database nb) agrs src meta = Some (result, targets, db, cpms)"
    and r: "goes_on (nb\<lparr>nbh_pass_targets := targets, nbh_database := db\<rparr>) nb'"
    using assms by (auto simp: handle_agrs_def Let_def dest!: goes_on_refresh goes_on_gossip_to_neighbors
        split: Option.bind_split_asm gossip_acceptance_result.split_asm if_splits) (drule (1) goes_on_trans [rotated], blast)
  have "goes_on nb (nb\<lparr>nbh_pass_targets := targets, nbh_database := db\<rparr>)"
    using continues_acceptor_handle [OF a] by (simp add: goes_on_def patch_size_ok_def)
  from goes_on_trans [OF this r] show ?thesis .
qed

lemma goes_on_handle_gossip: "handle_gossip env nb g src = Some (nb', outs) \<Longrightarrow> goes_on nb nb'"
  by (auto simp: handle_gossip_def handle_gossip_agrs_def Let_def dest!: goes_on_handle_agrs goes_on_database_changes
      split: if_splits Option.bind_split_asm) (erule (1) goes_on_trans)

lemma status_remove_descriptors:
  "status_remove ocs i = Some (d, ocs') \<Longrightarrow> set (iter_initial_node_descriptors ocs') \<subseteq> set (iter_initial_node_descriptors ocs)"
  unfolding iter_initial_node_descriptors_def set_map
  by (intro image_mono) (auto simp: status_remove_def split: if_splits dest: in_set_takeD in_set_dropD)

lemma goes_on_gossip_failure: "handle_gossip_failure nb src = Some (nb', outs) \<Longrightarrow> goes_on nb nb'"
  by (auto simp: handle_gossip_failure_def intro!: goes_on_status dest!: status_remove_descriptors
      split: option.split_asm Option.bind_split_asm)

lemma goes_on_removal:
  assumes "handle_remove_neighbor env nb k = Some (nb', outs) \<or> stop_neighborship env nb k = Some (nb', outs)"
  shows "goes_on nb nb'"
proof -
  obtain r db where db: "remove_neighbor (nbh_database nb) k = Some (r, db)"
    and r: "gossip_to_neighbors env (nb\<lparr>nbh_database := db\<rparr>) = Some (nb', outs) \<or> nb' = nb\<lparr>nbh_database := db\<rparr>"
    using assms by (auto simp: handle_remove_neighbor_def stop_neighborship_def Let_def split: Option.bind_split_asm sum.split_asm if_splits bool.split_asm)
  have "goes_on nb (nb\<lparr>nbh_database := db\<rparr>)" by (rule goes_on_database [OF continues_remove_neighbor [OF db]])
  with r show ?thesis by (auto dest: goes_on_gossip_to_neighbors intro: goes_on_trans)
qed

lemma update_connection_stage_descriptor: "update_connection_stage progress event = Some progress' \<Longrightarrow> initial_node_descriptor progress' = initial_node_descriptor progress"
  by (cases event) (auto simp: update_stage_def handle_pass_gossip_def split: option.split_asm if_splits prod.split_asm connection_stage.split_asm)

lemma goes_on_modify:
  assumes "modify_progress (nbh_status nb) i event = Some status"
  shows "goes_on nb (nb\<lparr>nbh_status := status\<rparr>)"
proof -
  obtain p where p: "update_connection_stage (ocs_progress (nbh_status nb) ! i) event = Some p"
    and status: "status = nbh_status nb\<lparr>ocs_progress := (ocs_progress (nbh_status nb))[i := p]\<rparr>"
    using assms by (auto simp: modify_progress_def split: Option.bind_split_asm)
  have "map initial_node_descriptor ((ocs_progress (nbh_status nb))[i := p]) = map initial_node_descriptor (ocs_progress (nbh_status nb))"
  proof (rule nth_equalityI)
    fix m assume "m < length (map initial_node_descriptor ((ocs_progress (nbh_status nb))[i := p]))"
    then show "map initial_node_descriptor ((ocs_progress (nbh_status nb))[i := p]) ! m = map initial_node_descriptor (ocs_progress (nbh_status nb)) ! m"
      using update_connection_stage_descriptor [OF p] by (cases "m = i") simp_all
  qed simp
  then show ?thesis by (intro goes_on_status) (simp add: status iter_initial_node_descriptors_def flip: set_map)
qed

lemma goes_on_handle:
  assumes "neighborhood_handle env nb msg = Some (nb', outs)"
  shows "goes_on nb nb'"
proof (cases msg)
  case (ConnectionProgressMsg m)
  with assms consider "nb' = nb" | i status where "modify_progress (nbh_status nb) i (cpm_event m) = Some status"
      "nb' = nb\<lparr>nbh_status := status\<rparr> \<or> (\<exists>stage outs. to_stage (nb\<lparr>nbh_status := status\<rparr>) stage = Some (nb', outs))"
    by (auto simp: handle_connection_progress_def Let_def split: sum.split_asm Option.bind_split_asm connection_progress_event.split_asm)
  then show ?thesis by cases (auto dest: goes_on_modify goes_on_to_stage intro: goes_on_trans)
next
  case (AskAboutDebutGossipMsg progress)
  with assms show ?thesis
    by (auto simp: handle_ask_about_debut_gossip_def intro: goes_on_modify split: sum.split_asm if_splits Option.bind_split_asm)
next
  case (AddUnreachableHostMsg k hostname)
  then obtain db where "node_by_key_mut (\<lambda>nr. nr\<lparr>metadata := (metadata nr)\<lparr>unreachable_hosts := finsert hostname (unreachable_hosts (metadata nr))\<rparr>\<rparr>)
      (nbh_database nb) k = Some db" "nb' = nb\<lparr>nbh_database := db\<rparr>"
    using assms by (auto simp: add_unreachable_host_def split: Option.bind_split_asm)
  then show ?thesis by (auto intro!: goes_on_database continues_mut simp: public_key_def node_addr_opt_def)
next
  case (UiMsg client_id request)
  with assms show ?thesis by (cases request) (auto dest: goes_on_exit_location split: Option.bind_split_asm if_splits)
next
  case (StreamShutdownMsg peer stream_type)
  with assms show ?thesis
    by (auto simp: handle_stream_shutdown_msg_def intro!: goes_on_removal split: if_splits option.split_asm)
qed (use assms in \<open>auto simp: handle_bind_message_def split: Option.bind_split_asm dest: goes_on_start goes_on_new_public_ip goes_on_config_change
    goes_on_route_query goes_on_handle_gossip goes_on_gossip_failure intro: goes_on_removal\<close>)

section \<open>Reachable states\<close>

text \<open>
  The surroundings may differ from message to message, as the clock and the orders of the
  hash sets do, but the Node keeps its keys.
\<close>

inductive reachable :: "('s, 'x) neighborhood_env \<Rightarrow> neighborhood_config \<Rightarrow> neighborhood \<Rightarrow> bool"
  for env :: "('s, 'x) neighborhood_env" and config :: neighborhood_config where
  created: "neighborhood_new env now_record now_producer config = Some nb \<Longrightarrow> reachable env config nb"
| handled: "reachable env config nb \<Longrightarrow> env_cryptde (env' :: ('s, 'x) neighborhood_env) = env_cryptde env \<Longrightarrow> neighborhood_handle env' nb msg = Some (nb', outs) \<Longrightarrow>
    reachable env config nb'"

lemma progress_new_descriptors: "those (map progress_new ds) = Some ps \<Longrightarrow> map initial_node_descriptor ps = ds"
  by (induction ds arbitrary: ps) (auto simp: progress_new_def split: Option.bind_split_asm option.split_asm)

lemma status_new_descriptors: "status_new ds = Some status \<Longrightarrow> iter_initial_node_descriptors status = ds"
  by (auto simp: status_new_def iter_initial_node_descriptors_def dest: progress_new_descriptors split: Option.bind_split_asm)

lemma neighborhood_new_ok:
  assumes "neighborhood_new env now_record now_producer config = Some nb"
  shows "db_ok (nbh_database nb) \<and> this_node (nbh_database nb) = own_key env \<and> nbh_mode nb = mode_light (config_mode config) \<and>
    nbh_chain nb = config_chain config \<and> patch_size_ok nb \<and> country_lists_ok (nbh_preferences nb) \<and>
    iter_initial_node_descriptors (nbh_status nb) = neighbor_configs (config_mode config)"
  using assms calculate_db_patch_size_bounds
  by (auto simp: neighborhood_new_def Let_def patch_size_ok_def country_lists_ok_def preferences_new_def
      dest!: keeps_database_new status_new_descriptors split: if_splits Option.bind_split_asm)

text \<open>
  C4: the Neighborhood stays consistent.  Whatever messages arrive, in whatever order, as long
  as no handler has panicked: the database has the record of the own Node, every record is
  filed under its own key, and every address leads to the Node that has it; mode and chain
  are those of the configuration; the patch size is between three and six; no exit country is
  listed twice and the countries with exits are sorted; and every neighbor that is still to
  be contacted is one of the configuration.
\<close>

theorem neighborhood_consistent:
  assumes "reachable env config nb"
  shows "db_ok (nbh_database nb) \<and> this_node (nbh_database nb) = own_key env \<and> nbh_mode nb = mode_light (config_mode config) \<and>
    nbh_chain nb = config_chain config \<and> 3 \<le> nbh_db_patch_size nb \<and> nbh_db_patch_size nb \<le> 6 \<and>
    distinct (exit_countries (nbh_preferences nb)) \<and> sorted (db_countries (nbh_preferences nb)) \<and> distinct (db_countries (nbh_preferences nb)) \<and>
    set (iter_initial_node_descriptors (nbh_status nb)) \<subseteq> set (neighbor_configs (config_mode config))"
  using assms
proof (induction rule: reachable.induct)
  case (created now_record now_producer nb)
  then show ?case using neighborhood_new_ok by (fastforce simp: patch_size_ok_def country_lists_ok_def)
next
  case (handled nb env' msg nb' outs)
  then show ?case using goes_on_handle [OF handled(3)] by (auto simp: goes_on_def continues_def patch_size_ok_def country_lists_ok_def)
qed

text \<open>A Node without neighbors that is created, bound and started.\<close>

definition sample_config :: neighborhood_config where
  "sample_config = \<lparr>config_mode = ConsumeOnly [], config_hops = OneHop, config_earning_wallet = WalletAddress [1], config_consuming_wallet_opt = None,
     config_chain = Dev, config_crashable = False, config_db_password_opt = None\<rparr>"

theorem neighborhood_consistent_witness:
  "\<exists>nb. reachable sample_surroundings sample_config nb \<and> nbh_bound nb \<and> nbh_connected nb \<and> db_ok (nbh_database nb) \<and> this_node (nbh_database nb) = [1]"
proof -
  have key: "own_key sample_surroundings = [1]"
    using sample_lives_at by (auto simp: lives_at_def cipher_ok_def)
  have "neighborhood_new sample_surroundings 5 5 sample_config \<noteq> None"
    by (simp add: neighborhood_new_def sample_config_def key status_new_def database_new_def node_record_new_def record_regenerate_signed_gossip_def
        regenerate_signed_gossip_def Let_def) (simp add: sample_surroundings_def sample_env_def sample_crypt_def)
  then obtain nb where new: "neighborhood_new sample_surroundings 5 5 sample_config = Some nb" by auto
  then have "nbh_status nb = \<lparr>ocs_stage = NotConnected, ocs_progress = []\<rparr> \<and> nbh_min_hops nb = OneHop \<and> \<not> nbh_connected nb"
    by (auto simp: neighborhood_new_def sample_config_def status_new_def Let_def split: Option.bind_split_asm if_splits)
  moreover have "config_min_hops sample_surroundings = Some OneHop" by (simp add: sample_surroundings_def)
  ultimately have start: "neighborhood_handle sample_surroundings (handle_bind_message nb) StartMsg = Some (nb\<lparr>nbh_bound := True, nbh_connected := True\<rparr>, [])"
    by (simp add: handle_start_message_def connect_database_def validate_or_replace_min_hops_value_def send_debut_gossip_to_all_initial_descriptors_def
        status_is_empty_def handle_bind_message_def)
  have "reachable sample_surroundings sample_config (handle_bind_message nb)"
    by (rule handled [OF created [OF new] refl, where msg = BindMsg]) simp
  from neighborhood_consistent [OF handled [OF this refl start]] handled [OF this refl start] key show ?thesis by auto
qed

end
