(* ===== verification/Spec2Isabelle.thy ===== *)
theory Spec2Isabelle
  imports Ip_Country Sequence_Buffer Pcp_Packet Pmp_Packet Neighborhood_Invariant
begin

text \<open>
  A verification library for five parts of the repository: the country data of
  \<^verbatim>\<open>ip_country\<close>, the packet formats of \<^verbatim>\<open>automap/src/protocols\<close>, the reordering of
  stream data in \<^verbatim>\<open>node/src/sub_lib\<close>, the onion routing of \<^verbatim>\<open>node/src/hopper\<close> with its
  routes, payers and versions, and the Neighborhood of \<^verbatim>\<open>node/src/neighborhood\<close>, from the
  records to the actor.  Paths are relative to \<^verbatim>\<open>src/\<close>.

  \<^bold>\<open>Conventions.\<close>  A Rust function that may panic returns an option, \<^term>\<open>None\<close> being the
  panic: an explicit one, a failed \<open>expect\<close>, an index out of range, an arithmetic
  overflow.  Rust's own \<open>Option\<close> sits below that layer and \<open>Result\<close> is a sum or a
  datatype of its own.  Fixed-width integers are words, \<open>i64\<close> is an integer with a
  checked range, \<open>usize\<close> a natural number.  A function that mutates its receiver
  returns the new state.  Hash maps are finite maps and hash sets finite sets; where the
  order of iterating a hash set could matter it is an argument, of which only is assumed
  that it lists the set without repetition.  Readings of the clock, cryptography, CBOR,
  the \<open>csv\<close>, \<open>maxminddb\<close> and \<open>ipnetwork\<close> crates are arguments too.  \<open>Prelude\<close> has
  the checked arithmetic, words as lists of bits, and the locale \<open>step_invariant\<close>.

  \<^bold>\<open>Country data (\<^verbatim>\<open>ip_country/src\<close>).\<close>  A parser reads blocks of addresses with their
  countries, a serializer compresses them into two bit queues, a generator prints the
  queues as Rust source, and at run time a deserializer and a finder answer lookups.
  \<^item> \<open>Bit_Queue\<close> (\<^verbatim>\<open>bit_queue.rs\<close>): the queue refines a list of booleans; adding appends,
    taking removes from the front, neither panics under the invariant.  The locale
    \<open>bit_fifo\<close> states that contract, and the other theories rely on nothing else.
  \<^item> \<open>Country_Stream\<close> (\<^verbatim>\<open>country_block_stream.rs\<close>, \<^verbatim>\<open>countries.rs\<close>): countries, ranges,
    the table of countries and the correctness of its lookup.
  \<^item> \<open>Country_Serde\<close> (\<^verbatim>\<open>country_block_serde.rs\<close>): serializer and deserializer over a
    dictionary of the Rust traits.  The locale \<open>ip_family\<close> has the laws of such a
    dictionary and is interpreted for both address families.
  \<^item> \<open>Country_Finder\<close> (\<^verbatim>\<open>country_finder.rs\<close>): the standard library's binary search, and
    that a lookup returns the country of the block that contains the address.
  \<^item> \<open>Country_Codegen\<close>, \<open>Ip_Country\<close> (\<^verbatim>\<open>ip_country.rs\<close>): the generated text, the program's
    exit code and reports.  Reading the generated numbers back restores the queue.
  \<^item> \<open>Std_Net\<close>, \<open>Ip_Country_Csv\<close>, \<open>Ip_Country_Mmdb\<close>: parsing and printing of addresses as
    the standard library does it, and the two parsers (\<^verbatim>\<open>ip_country_csv.rs\<close>,
    \<^verbatim>\<open>ip_country_mmdb.rs\<close>): which input lines are encoded and which are reported, and that
    coalescing keeps the code of every address.
  The root theory composes them: \<open>country_lookup_end_to_end\<close> goes from the input blocks
  to the answers of the finder.

  \<^bold>\<open>Packets (\<^verbatim>\<open>automap/src/protocols\<close>).\<close>  \<open>Protocol_Utils\<close> (\<^verbatim>\<open>utils.rs\<close>) reads and writes
  fields of a byte buffer; each pair of reader and writer interprets \<open>byte_field\<close>.
  \<open>Pcp_Packet\<close> and \<open>Pmp_Packet\<close> (\<^verbatim>\<open>pcp/\<close>, \<^verbatim>\<open>pmp/\<close>) have the packets: marshalling writes
  exactly the wire format, parsing inverts it and never panics, and what it returns is
  well typed.

  \<^bold>\<open>Stream data.\<close>  \<open>Sequence_Buffer\<close> (\<^verbatim>\<open>node/src/sub_lib/sequence_buffer.rs\<close>, and \<open>index_of\<close>
  of \<^verbatim>\<open>masq_lib/src/utils.rs\<close>): whatever the order of arrival, packets leave in the order
  of their numbers without gap or repetition.

  \<^bold>\<open>Neighborhood (\<^verbatim>\<open>node/src/neighborhood\<close>).\<close>
  \<^item> \<open>Node_Record\<close> (\<^verbatim>\<open>node_record.rs\<close>, \<^verbatim>\<open>node_location.rs\<close> and the parts of \<^verbatim>\<open>sub_lib\<close> they are
    made of): what is known of one Node, its versions and its signature.
  \<^item> \<open>Neighborhood_Database\<close> (\<^verbatim>\<open>neighborhood_database.rs\<close>): the map of Nodes and its index by
    address.  Its operations are steps of an inductive relation; every reachable database
    is consistent, through \<open>step_invariant\<close>.
  \<^item> \<open>Gossip\<close> (\<^verbatim>\<open>gossip.rs\<close>, \<^verbatim>\<open>gossip_producer.rs\<close>): the records sent to another Node, and
    to whom addresses are revealed.
  \<^item> \<open>Exit_Preferences\<close>, \<open>Routing\<close>, \<open>Routing_Correct\<close> (\<^verbatim>\<open>mod.rs\<close>): undesirabilities and the
    depth-first search for a route.  The search prunes by the least undesirability found
    so far; it is proved to return a best route among all that its rules admit.
  \<^item> \<open>Connection_Status\<close> (\<^verbatim>\<open>overall_connection_status.rs\<close>): how far the connection to each
    initial neighbor has come.
  \<^item> \<open>Gossip_Acceptor\<close>, \<open>Gossip_Acceptance\<close> (\<^verbatim>\<open>gossip_acceptor.rs\<close>): the five handlers of received
    gossip and which of them takes it.  Acceptance never panics on gossip of a form that
    excludes repeated keys, changes only what newer and signed records justify, and looks
    no further than the patch.
  \<^item> \<open>Node_Descriptor\<close> (\<^verbatim>\<open>sub_lib/neighborhood.rs\<close>, \<^verbatim>\<open>sub_lib/node_addr.rs\<close>, \<^verbatim>\<open>masq_lib/src/blockchains\<close>):
    chains, addresses and descriptors with their text forms, and which of them can be read
    back.
  \<^item> \<open>Neighborhood\<close> (\<^verbatim>\<open>mod.rs\<close>): the actor, as a record of its state and one function for each
    message, which returns the new state and the messages sent, in order; the surroundings
    are a record of arguments.  \<open>Neighborhood_Correct\<close> follows its messages through the
    Hoppers of other Nodes: an answer to a route query names a route that carries data both
    ways at the announced charges, and a debut arrives.  \<open>Neighborhood_Invariant\<close> has the
    states that sequences of messages lead to as an inductive relation, with the
    invariant that each handler keeps.

  \<^bold>\<open>Onion routing (\<^verbatim>\<open>node/src/hopper\<close>, \<^verbatim>\<open>node/src/sub_lib\<close>).\<close>
  \<^item> \<open>Cryptde\<close> (\<^verbatim>\<open>cryptde.rs\<close>, \<^verbatim>\<open>cryptde_null.rs\<close>): the encryption interface as a record of functions.
    The locale \<open>cipher\<close> has the laws that the other theories rely on, and is interpreted on
    the implementation without encryption.
  \<^item> \<open>Route\<close> (\<^verbatim>\<open>route.rs\<close>, \<^verbatim>\<open>hop.rs\<close>): construction and traversal of a route, one hop encrypted for
    each Node.  \<open>Payer\<close> (\<^verbatim>\<open>wallet.rs\<close>, \<^verbatim>\<open>payer.rs\<close>, \<^verbatim>\<open>banned_dao.rs\<close>): who pays, with Ethereum signatures as
    arguments.
  \<^item> \<open>Versioned_Data\<close> (\<^verbatim>\<open>versioned_data.rs\<close>, \<^verbatim>\<open>data_version.rs\<close>): versions of payloads and the search for a
    chain of migrations, which is proved to find a shortest one.
  \<^item> \<open>Hopper\<close> (\<^verbatim>\<open>hopper/\<close>): packages, the service for consuming and the service for routing.
    \<open>Onion_Routing\<close> runs the Hoppers of a whole route: requests and responses are delivered,
    and nothing is relayed without a payer who proves to own a wallet that is not banned.

  \<^bold>\<open>Termination and bounds.\<close>  The loops that do not recurse on their data have termination
  proofs: the bit queue's by the number of bits left, the binary search by the size of the
  interval, the routing search by the number of Nodes not yet on the path, which bounds it
  although the code has no counter.  Only the search for migrations has a depth as an
  argument; one more than the number of versions in the table is proved to be enough.

  \<^bold>\<open>Not modelled.\<close>  Sockets, files, threads and the mailboxes of actors: the handlers are
  modelled, and messages are handled in any order.  The encryption of libsodium, the
  signatures of Ethereum and the CBOR format are third-party code and arguments.  The
  Accountant, the blockchain interface, the database layer, the configurators, the Daemon,
  the user interface and its clients, the Proxy Server and Proxy Client, the stream handler
  pools with their framers, the DNS server and utility and the transactors of
  \<^verbatim>\<open>automap\<close> are outside this development, most of them being drivers of databases, sockets
  and processes, as is everything written only to the log.  Data compiled from the
  generator's output (\<^verbatim>\<open>dbip_country.rs\<close>) is covered only through the generator.
\<close>

section \<open>From input blocks to lookups\<close>

text \<open>
  C1: the finder built from the generated data answers like the input: for every
  address, the country of the input block that contains it, and no country where no
  block does or where the block is the sentinel's.  Serializing, generating, restoring
  and searching never panic.
\<close>

theorem country_lookup_end_to_end:
  assumes "ordered_blocks (v4_triples blocks)" "ordered_blocks (v6_triples blocks)"
    "v4_triples blocks \<noteq> []" "v6_triples blocks \<noteq> []" "countries_ok cs" "blocks_in cs blocks"
  shows "\<exists>f4 f6 finder.
     do { s \<leftarrow> serializer_add_all blocks serializer_new; serializer_finish s } = Some (f4, f6) \<and>
     finder_new cs (queue_data (final_queue f4)) (queue_data (final_queue f6)) = Some finder \<and>
     (\<forall>ip. find_country finder ip = Some (country_of blocks ip))"
proof -
  obtain f4 f6 where f: "do { s \<leftarrow> serializer_add_all blocks serializer_new; serializer_finish s } = Some (f4, f6)"
    "encodes ipv4_ops (v4_triples blocks) f4" "encodes ipv6_ops (v6_triples blocks) f6"
    by (rule serializer_ok [OF assms(1,2)])
  obtain finder where "finder_new cs (queue_data (final_queue f4)) (queue_data (final_queue f6)) = Some finder"
    "\<forall>ip. find_country finder ip = Some (country_of blocks ip)"
    by (rule encodes_finder [OF f(2) assms(1,3) f(3) assms(2,4,5,6)])
  with f(1) show ?thesis by blast
qed

theorem country_lookup_end_to_end_witness:
  "\<exists>f4 f6 finder.
     do { s \<leftarrow> serializer_add_all sample_blocks serializer_new; serializer_finish s } = Some (f4, f6) \<and>
     finder_new sample_countries (queue_data (final_queue f4)) (queue_data (final_queue f6)) = Some finder \<and>
     find_country finder (V4 0x01020304) = Some (Some (country_new 1 ''AD'' ''Andorra'')) \<and>
     find_country finder (V4 0x01020303) = Some None \<and>
     find_country finder (V6 0x10001) = Some (Some (country_new 2 ''FR'' ''France''))"
proof -
  have "country_of sample_blocks (V4 0x01020304) = Some (country_new 1 ''AD'' ''Andorra'')"
    "country_of sample_blocks (V4 0x01020303) = None"
    "country_of sample_blocks (V6 0x10001) = Some (country_new 2 ''FR'' ''France'')"
    by (simp_all add: country_of_def sample_blocks_def contains_inner_def named_country_def country_new_def)
  moreover obtain f4 f6 finder where
    "do { s \<leftarrow> serializer_add_all sample_blocks serializer_new; serializer_finish s } = Some (f4, f6)"
    "finder_new sample_countries (queue_data (final_queue f4)) (queue_data (final_queue f6)) = Some finder"
    "\<forall>ip. find_country finder ip = Some (country_of sample_blocks ip)"
    using country_lookup_end_to_end [OF sample_ok] by blast
  ultimately show ?thesis by (intro exI [of _ f4] exI [of _ f6] exI [of _ finder] conjI) (auto dest: spec)
qed

text \<open>
  C22: the deserializer yields exactly one block per record.  In particular the first
  block starts where the first record says, also when that is not the lowest address.
\<close>

theorem deserializer_one_block_per_record:
  assumes "starts_differ (- 2) (r # rs)" "list_all (\<lambda>x. snd x < length (country_list cs)) (r # rs)"
    "bit_queue_from_country_data data = Some q" "queue_ok q" "queue_bits q = records_bits ipv4_ops (- 2) (r # rs)"
  shows "ipv4_deserialize data cs = Some (map (span_block ipv4_ops cs) (spans (r # rs)))"
  unfolding ipv4_deserialize_def address_literals
  by (rule v4.deserialize_records [OF assms(1) _ assms(3-5)]) (use assms(2) in \<open>auto simp: list_all_iff\<close>)

theorem deserializer_one_block_per_record_witness:
  "\<exists>data. ipv4_deserialize data HARD_CODED_COUNTRIES =
     Some (map (span_block ipv4_ops HARD_CODED_COUNTRIES)
       [(0x01020304, 0xFF020303, 237), (0xFF020304, 0xFFFFFFFF, 235)])"
proof -
  obtain q where q: "refill (bits_words (records_bits ipv4_ops (- 2) [(0x01020304, 237), (0xFF020304, 235)]))
      (length (records_bits ipv4_ops (- 2) [(0x01020304, 237), (0xFF020304, 235)])) new_queue = Some q"
    "queue_ok q" "queue_bits q = records_bits ipv4_ops (- 2) [(0x01020304, 237), (0xFF020304, 235)]"
    using refill_ok [OF queue_ok_new, of "records_bits ipv4_ops (- 2) [(0x01020304, 237), (0xFF020304, 235)]"]
    unfolding queue_bits_new append_Nil by blast
  have "starts_differ (- 2 :: u32) [(0x01020304, 237), (0xFF020304, 235)]" by simp
  moreover have "list_all (\<lambda>x :: u32 \<times> nat. snd x < length (country_list HARD_CODED_COUNTRIES)) [(0x01020304, 237), (0xFF020304, 235)]"
    by (simp add: hard_coded_length)
  moreover have "spans [(0x01020304 :: u32, 237), (0xFF020304, 235)] =
      [(0x01020304, 0xFF020303, 237), (0xFF020304, 0xFFFFFFFF, 235)]" by simp
  moreover have "bit_queue_from_country_data
      (bits_words (records_bits ipv4_ops (- 2) [(0x01020304, 237), (0xFF020304, 235)]),
       length (records_bits ipv4_ops (- 2) [(0x01020304, 237), (0xFF020304, 235)])) = Some q"
    using q(1) by (simp only: bit_queue_from_country_data_def prod.case)
  ultimately show ?thesis
    using deserializer_one_block_per_record [OF _ _ _ q(2,3)] by metis
qed

text \<open>
  C23: if the input has no IPv4 block at all, serializing succeeds but building the finder
  from the result panics: the empty bit queue has no first record.
\<close>

theorem no_ipv4_blocks_panics:
  assumes "v4_triples blocks = []" "ordered_blocks (v6_triples blocks)"
  shows "\<exists>f4 f6. do { s \<leftarrow> serializer_add_all blocks serializer_new; serializer_finish s } = Some (f4, f6) \<and>
     finder_new cs (queue_data (final_queue f4)) (queue_data (final_queue f6)) = None"
proof -
  obtain f4 f6 where f: "do { s \<leftarrow> serializer_add_all blocks serializer_new; serializer_finish s } = Some (f4, f6)"
    "encodes ipv4_ops (v4_triples blocks) f4" "encodes ipv6_ops (v6_triples blocks) f6"
    by (rule serializer_ok [of blocks]) (use assms in simp_all)
  obtain q where "bit_queue_from_country_data (queue_data (final_queue f4)) = Some q" "queue_ok q"
    "queue_bits q = queue_bits (final_queue f4)"
    by (rule queue_data_read_back)
  moreover have "queue_bits (final_queue f4) = []"
    using f(2) assms(1) by (simp add: encodes_def all_records_def final_records_def)
  ultimately have "deserializer_new_generic ipv4_ops (queue_data (final_queue f4)) start cs = None" for start
    by (intro v4.deserialize_empty) simp_all
  with f(1) show ?thesis by (simp add: finder_new_def ipv4_deserialize_def)
qed

theorem no_ipv4_blocks_panics_witness:
  "\<exists>f4 f6. do { s \<leftarrow> serializer_add_all [sample_blocks ! 2] serializer_new; serializer_finish s } = Some (f4, f6) \<and>
     finder_new sample_countries (queue_data (final_queue f4)) (queue_data (final_queue f6)) = None"
  using no_ipv4_blocks_panics [of "[sample_blocks ! 2]" sample_countries]
  by (simp add: sample_blocks_def country_new_def)

end
